(* ===== verification/Prelude.thy ===== *)
theory Prelude
  imports Main "HOL-Library.Word"
begin

text \<open>
  The vocabulary every component shares: C++ fixed-width integers as words, \<open>std::string\<close>
  as \<open>string\<close>, raw \<open>int8_t\<close> arrays as byte lists, the unaligned little-endian loads and
  stores that the message classes perform through \<open>reinterpret_cast\<close>, the libc and standard
  library routines the sources call (\<open>strncpy\<close>, \<open>strnlen\<close>, \<open>std::to_string\<close>,
  \<open>std::from_chars\<close>, \<open>std::find_if\<close>) and the \<open>split\<close> helper that four source files
  repeat. The lemmas about buffers are collected in \<open>wire\<close>, the ones about decimal text in
  \<open>decimal\<close>.
\<close>

declare add_2_eq_Suc [simp del] add_2_eq_Suc' [simp del]

named_theorems wire \<open>layout of fixed-size message buffers\<close>
named_theorems decimal \<open>decimal printing and parsing\<close>

section \<open>Types\<close>

type_synonym byte = "8 word"
type_synonym bytes = "byte list"
type_synonym i16 = "16 word"
type_synonym i32 = "32 word"

definition byte_of :: "char \<Rightarrow> byte" where
  "byte_of c = word_of_nat (of_char c)"

definition char_at :: "byte \<Rightarrow> char" where
  "char_at b = char_of (unat b)"

abbreviation to_bytes :: "string \<Rightarrow> bytes" where
  "to_bytes s \<equiv> map byte_of s"

abbreviation of_bytes :: "bytes \<Rightarrow> string" where
  "of_bytes bs \<equiv> map char_at bs"

abbreviation NUL :: char where
  "NUL \<equiv> CHR 0x00"

section \<open>Fixed-size buffers\<close>

text \<open>
  \<open>put\<close> writes a run of bytes at an offset of a buffer. A write that leaves the array would
  make the list longer, so that an operation keeps the length of its buffer is the statement
  that it writes inside it.
\<close>

definition put :: "nat \<Rightarrow> bytes \<Rightarrow> bytes \<Rightarrow> bytes" where
  "put off bs buf = take off buf @ bs @ drop (off + length bs) buf"

definition sub_bytes :: "nat \<Rightarrow> nat \<Rightarrow> bytes \<Rightarrow> bytes" where
  "sub_bytes off n buf = take n (drop off buf)"

fun le_bytes :: "nat \<Rightarrow> 'a::len word \<Rightarrow> bytes" where
  "le_bytes 0 w = []"
| "le_bytes (Suc n) w = ucast w # le_bytes n (drop_bit 8 w)"

fun le_word :: "bytes \<Rightarrow> 'a::len word" where
  "le_word [] = 0"
| "le_word (b # bs) = or (ucast b) (push_bit 8 (le_word bs))"

definition get16 :: "nat \<Rightarrow> bytes \<Rightarrow> i16" where
  "get16 off buf = le_word (sub_bytes off 2 buf)"

definition get32 :: "nat \<Rightarrow> bytes \<Rightarrow> i32" where
  "get32 off buf = le_word (sub_bytes off 4 buf)"

definition put16 :: "nat \<Rightarrow> i16 \<Rightarrow> bytes \<Rightarrow> bytes" where
  "put16 off w = put off (le_bytes 2 w)"

definition put32 :: "nat \<Rightarrow> i32 \<Rightarrow> bytes \<Rightarrow> bytes" where
  "put32 off w = put off (le_bytes 4 w)"

section \<open>C strings\<close>

text \<open>\<open>strncpy(dst, src, n)\<close>: copy up to the terminating zero or \<open>n\<close> bytes, pad with zeros.\<close>

definition strncpy_bytes :: "string \<Rightarrow> nat \<Rightarrow> bytes" where
  "strncpy_bytes s n =
     (let t = take n (takeWhile (\<lambda>c. c \<noteq> NUL) s) in to_bytes t @ replicate (n - length t) 0)"

definition strncpy_at :: "nat \<Rightarrow> string \<Rightarrow> nat \<Rightarrow> bytes \<Rightarrow> bytes" where
  "strncpy_at off s n = put off (strncpy_bytes s n)"

text \<open>\<open>std::string{ptr, n}\<close>: exactly \<open>n\<close> characters, zeros included.\<close>

definition string_n :: "nat \<Rightarrow> nat \<Rightarrow> bytes \<Rightarrow> string" where
  "string_n off n buf = of_bytes (sub_bytes off n buf)"

definition strnlen :: "bytes \<Rightarrow> nat \<Rightarrow> nat" where
  "strnlen bs n = length (takeWhile (\<lambda>b. b \<noteq> 0) (take n bs))"

text \<open>\<open>std::string{ptr, strnlen(ptr, n)}\<close>.\<close>

definition string_nlen :: "nat \<Rightarrow> nat \<Rightarrow> bytes \<Rightarrow> string" where
  "string_nlen off n buf = of_bytes (take (strnlen (drop off buf) n) (drop off buf))"

text \<open>
  \<open>std::string{ptr}\<close>: up to the first zero. \<open>None\<close> when the array holds no zero from there
  on, where the C++ constructor reads past its end.
\<close>

definition c_string :: "nat \<Rightarrow> bytes \<Rightarrow> string option" where
  "c_string off buf =
     (let bs = drop off buf in
      if 0 \<in> set bs then Some (of_bytes (takeWhile (\<lambda>b. b \<noteq> 0) bs)) else None)"

text \<open>\<open>std::string::c_str()\<close> handed to a C routine: the characters up to the first zero.\<close>

definition c_str :: "string \<Rightarrow> string" where
  "c_str s = takeWhile (\<lambda>c. c \<noteq> NUL) s"

section \<open>Decimal text\<close>

definition digit_char :: "nat \<Rightarrow> char" where
  "digit_char d = char_of (48 + d)"

fun nat_string :: "nat \<Rightarrow> string" where
  "nat_string n = (if n < 10 then [digit_char n] else nat_string (n div 10) @ [digit_char (n mod 10)])"

declare nat_string.simps [simp del]

definition int_string :: "int \<Rightarrow> string" where
  "int_string i = (if i < 0 then CHR ''-'' # nat_string (nat (- i)) else nat_string (nat i))"

text \<open>\<open>std::to_string\<close> of an \<open>int32_t\<close>.\<close>

definition to_string32 :: "i32 \<Rightarrow> string" where
  "to_string32 w = int_string (sint w)"

definition is_digit :: "char \<Rightarrow> bool" where
  "is_digit c \<longleftrightarrow> 48 \<le> (of_char c :: nat) \<and> (of_char c :: nat) \<le> 57"

definition digit_val :: "char \<Rightarrow> nat" where
  "digit_val c = of_char c - 48"

definition digits_nat :: "string \<Rightarrow> nat" where
  "digits_nat ds = foldl (\<lambda>acc c. 10 * acc + digit_val c) 0 ds"

text \<open>
  \<open>std::from_chars(first, last, value)\<close> for a 32-bit signed integer: an optional minus, then
  the longest run of digits. With no digit, or with a value that does not fit, \<open>value\<close> is left
  as it was. The sources never look at the returned error code.
\<close>

definition from_chars32 :: "string \<Rightarrow> i32 \<Rightarrow> i32" where
  "from_chars32 s v =
     (let neg = (case s of [] \<Rightarrow> False | c # _ \<Rightarrow> c = CHR ''-'');
          ds = takeWhile is_digit (if neg then tl s else s);
          i = (if neg then - int (digits_nat ds) else int (digits_nat ds))
      in if ds = [] then v
         else if - (2 ^ 31) \<le> i \<and> i < 2 ^ 31 then word_of_int i
         else v)"

text \<open>
  The \<open>split\<close> helper of \<open>worker.cpp\<close>, \<open>backend.cpp\<close>, \<open>session.cpp\<close> and
  \<open>process/cli.cpp\<close>: the text before and after the first occurrence of a character, two empty
  views when it does not occur.
\<close>

definition split :: "string \<Rightarrow> char \<Rightarrow> string \<times> string" where
  "split str ch =
     (if ch \<notin> set str then ('''', '''')
      else (takeWhile (\<lambda>c. c \<noteq> ch) str, tl (dropWhile (\<lambda>c. c \<noteq> ch) str)))"

section \<open>Loops\<close>

text \<open>The result of a loop body: leave the loop or take another turn.\<close>

datatype 'a loop_result = Break 'a | Continue 'a

section \<open>A heap\<close>

text \<open>
  Blocks obtained with \<open>new[]\<close> and released with \<open>delete[]\<close>: a pointer is an address or
  \<open>None\<close> for \<open>nullptr\<close>, what a block holds is left to the client. An address is never
  handed out twice, so that a pointer to a released block stays recognisable.
\<close>

type_synonym ptr = "nat option"

record 'b heap =
  blocks :: "nat \<rightharpoonup> 'b"
  next_addr :: nat

definition heap_empty :: "'b heap" where
  "heap_empty = \<lparr>blocks = Map.empty, next_addr = 0\<rparr>"

definition heap_new :: "'b \<Rightarrow> 'b heap \<Rightarrow> ptr \<times> 'b heap" where
  "heap_new b h =
     (Some (next_addr h), h\<lparr>blocks := (blocks h)(next_addr h \<mapsto> b), next_addr := Suc (next_addr h)\<rparr>)"

definition heap_delete :: "ptr \<Rightarrow> 'b heap \<Rightarrow> 'b heap" where
  "heap_delete p h = (case p of None \<Rightarrow> h | Some a \<Rightarrow> h\<lparr>blocks := (blocks h)(a := None)\<rparr>)"

definition heap_ok :: "'b heap \<Rightarrow> bool" where
  "heap_ok h \<longleftrightarrow> (\<forall>a b. blocks h a = Some b \<longrightarrow> a < next_addr h)"

section \<open>Lemmas on characters and buffers\<close>

lemma char_at_byte_of [simp]: "char_at (byte_of c) = c"
  by (simp add: char_at_def byte_of_def unat_of_nat)

lemma byte_of_char_at [simp]: "byte_of (char_at b) = b"
proof -
  have "unat b < 256" using unsigned_less [of b] by simp
  then show ?thesis by (simp add: char_at_def byte_of_def)
qed

lemma byte_of_eq_iff [simp]: "byte_of c = byte_of d \<longleftrightarrow> c = d"
  by (metis char_at_byte_of)

lemma byte_of_NUL [simp]: "byte_of NUL = 0"
  by (simp add: byte_of_def)

lemma char_at_0 [simp]: "char_at 0 = NUL"
  using char_at_byte_of [of NUL] by simp

lemma byte_of_eq_0_iff [simp]: "byte_of c = 0 \<longleftrightarrow> c = NUL"
  using byte_of_eq_iff [of c NUL] by simp

lemma of_bytes_to_bytes [simp]: "map (char_at \<circ> byte_of) s = s"
  by (simp add: comp_def)

lemma length_put [wire]: "off + length bs \<le> length buf \<Longrightarrow> length (put off bs buf) = length buf"
  by (simp add: put_def)

lemma length_sub_bytes [wire]: "off + n \<le> length buf \<Longrightarrow> length (sub_bytes off n buf) = n"
  by (simp add: sub_bytes_def)

lemma sub_bytes_put_same [wire]:
  "off \<le> length buf \<Longrightarrow> n = length bs \<Longrightarrow> sub_bytes off n (put off bs buf) = bs"
  by (simp add: sub_bytes_def put_def)

lemma sub_bytes_put_before [wire]:
  "off + n \<le> off' \<Longrightarrow> off' \<le> length buf \<Longrightarrow> sub_bytes off n (put off' bs buf) = sub_bytes off n buf"
  by (simp add: sub_bytes_def put_def take_drop min_def)

lemma sub_bytes_put_after [wire]:
  "off' + length bs \<le> off \<Longrightarrow> off' \<le> length buf \<Longrightarrow>
     sub_bytes off n (put off' bs buf) = sub_bytes off n buf"
  by (simp add: sub_bytes_def put_def)

lemma sub_bytes_put_inside:
  "off' \<le> off \<Longrightarrow> off + n \<le> off' + length bs \<Longrightarrow> off' \<le> length buf \<Longrightarrow>
     sub_bytes off n (put off' bs buf) = sub_bytes (off - off') n bs"
  by (simp add: sub_bytes_def put_def)

lemma sub_bytes_add: "sub_bytes off (m + n) buf = sub_bytes off m buf @ sub_bytes (off + m) n buf"
  by (simp add: sub_bytes_def take_add add.commute)

lemma le_bytes_2: "le_bytes 2 w = [ucast w, ucast (drop_bit 8 w)]"
  by (simp add: numeral_2_eq_2)

lemma le_bytes_4:
  "le_bytes 4 w = [ucast w, ucast (drop_bit 8 w), ucast (drop_bit 16 w), ucast (drop_bit 24 w)]"
  by (simp add: eval_nat_numeral)

lemma length_le_bytes [simp]: "length (le_bytes n w) = n"
  by (induction n arbitrary: w) auto

lemma length_strncpy_bytes [simp]: "length (strncpy_bytes s n) = n"
  by (simp add: strncpy_bytes_def Let_def)

lemma le_word_append:
  "le_word (xs @ ys) = or (le_word xs) (push_bit (8 * length xs) (le_word ys))"
  by (induction xs) (simp_all add: ac_simps)

lemma le_word_le_bytes:
  "(le_word (le_bytes n (w :: 'a::len word)) :: 'b::len word) = take_bit (8 * n) (ucast w)"
proof (induction n arbitrary: w)
  case 0
  then show ?case by simp
next
  case (Suc n)
  show ?case
    by (rule bit_word_eqI) (auto simp: Suc bit_simps)
qed

lemma le_word_replicate_0 [simp]: "le_word (replicate n 0) = 0"
  by (induction n) simp_all

lemma le_word_le_bytes_2 [simp]: "le_word (le_bytes 2 (w :: i16)) = w"
  by (simp add: le_word_le_bytes take_bit_word_eq_self)

lemma le_word_le_bytes_4 [simp]: "le_word (le_bytes 4 (w :: i32)) = w"
  by (simp add: le_word_le_bytes take_bit_word_eq_self)

lemma takeWhile_no_NUL [simp]: "NUL \<notin> set s \<Longrightarrow> takeWhile (\<lambda>c. c \<noteq> NUL) s = s"
  by (auto simp: takeWhile_eq_all_conv)

lemma NUL_notin_takeWhile [simp]: "NUL \<notin> set (take n (takeWhile (\<lambda>c. c \<noteq> NUL) s))"
  by (auto dest: in_set_takeD set_takeWhileD)

lemma takeWhile_to_bytes [simp]:
  "takeWhile (\<lambda>b. b \<noteq> 0) (to_bytes s) = to_bytes (takeWhile (\<lambda>c. c \<noteq> NUL) s)"
  by (simp add: takeWhile_map comp_def)

lemma strncpy_short:
  "length s \<le> n \<Longrightarrow> NUL \<notin> set s \<Longrightarrow> strncpy_bytes s n = to_bytes s @ replicate (n - length s) 0"
  by (simp add: strncpy_bytes_def Let_def)

lemma takeWhile_strncpy:
  "takeWhile (\<lambda>b. b \<noteq> 0) (strncpy_bytes s n) = to_bytes (take n (takeWhile (\<lambda>c. c \<noteq> NUL) s))"
proof -
  let ?t = "take n (takeWhile (\<lambda>c. c \<noteq> NUL) s)"
  have "\<And>b. b \<in> set (to_bytes ?t) \<Longrightarrow> b \<noteq> 0"
    using NUL_notin_takeWhile [of n s] by (metis (no_types, lifting) byte_of_eq_0_iff imageE list.set_map)
  then have "takeWhile (\<lambda>b. b \<noteq> 0) (to_bytes ?t @ replicate (n - length ?t) 0) =
      to_bytes ?t @ takeWhile (\<lambda>b. b \<noteq> 0) (replicate (n - length ?t) (0::byte))"
    by (rule takeWhile_append2)
  also have "takeWhile (\<lambda>b. b \<noteq> 0) (replicate (n - length ?t) (0::byte)) = []"
    by (cases "n - length ?t") simp_all
  finally show ?thesis by (simp only: strncpy_bytes_def Let_def append_Nil2)
qed

lemma of_bytes_strncpy:
  "length s = n \<Longrightarrow> NUL \<notin> set s \<Longrightarrow> of_bytes (strncpy_bytes s n) = s"
  by (simp add: strncpy_short)

lemma strncpy_nlen:
  "length s \<le> n \<Longrightarrow> NUL \<notin> set s \<Longrightarrow>
   of_bytes (takeWhile (\<lambda>b. b \<noteq> 0) (strncpy_bytes s n)) = s"
  by (simp add: takeWhile_strncpy)

lemma string_nlen_eq: "string_nlen off n buf = of_bytes (takeWhile (\<lambda>b. b \<noteq> 0) (sub_bytes off n buf))"
proof -
  have "take (strnlen (drop off buf) n) (drop off buf) = takeWhile (\<lambda>b. b \<noteq> 0) (take n (drop off buf))"
  proof -
    let ?t = "takeWhile (\<lambda>b. b \<noteq> (0::byte)) (take n (drop off buf))"
    have "?t = take (length ?t) (take n (drop off buf))"
      by (metis takeWhile_eq_take)
    moreover have "length ?t \<le> n"
      using length_takeWhile_le [of "\<lambda>b. b \<noteq> (0::byte)" "take n (drop off buf)"] by simp
    ultimately show ?thesis by (simp add: strnlen_def min_absorb1)
  qed
  then show ?thesis by (simp add: string_nlen_def sub_bytes_def)
qed

text \<open>\<open>static_cast<size_t>\<close> of a signed value that is not negative.\<close>

lemma unat_scast64:
  fixes w :: "'a::len word"
  assumes "0 \<le> sint w" and "LENGTH('a) \<le> 64"
  shows "unat (scast w :: 64 word) = nat (sint w)"
proof -
  have "sint w < 2 ^ (LENGTH('a) - 1)" by (rule sint_lt)
  also have "(2 :: int) ^ (LENGTH('a) - 1) \<le> 2 ^ 64" using assms(2) by (intro power_increasing) simp_all
  finally have "sint w mod 2 ^ 64 = sint w" using assms(1) by (intro mod_pos_pos_trivial)
  then have "uint (scast w :: 64 word) = sint w" unfolding scast_eq uint_word_of_int by simp
  then show ?thesis by (simp add: unat_eq_nat_uint)
qed

section \<open>Lemmas on 16-bit counters\<close>

lemma sint_succ16:
  assumes "sint (a :: i16) < sint (b :: i16)" shows "sint (a + 1) = sint a + 1"
proof -
  have "- 32768 \<le> sint a" "sint b < 32768"
    using sint_range_size [of a] sint_range_size [of b] by (simp_all add: word_size)
  then have "sint (word_of_int (sint a + 1) :: i16) = sint a + 1"
    unfolding int_word_sint using assms by simp
  then show ?thesis by simp
qed

lemma sint_pred16:
  assumes "0 < sint (a :: i16)" shows "sint (a - 1) = sint a - 1"
proof -
  have "sint a < 32768" using sint_range_size [of a] by (simp add: word_size)
  then have "sint (word_of_int (sint a - 1) :: i16) = sint a - 1"
    unfolding int_word_sint using assms by simp
  then show ?thesis by simp
qed

section \<open>Lemmas on the heap\<close>

lemma heap_empty_ok [simp]: "heap_ok heap_empty"
  by (simp add: heap_ok_def heap_empty_def)

lemma heap_new_ok [simp]: "heap_ok h \<Longrightarrow> heap_ok (snd (heap_new b h))"
  by (auto simp: heap_ok_def heap_new_def less_SucI)

lemma heap_delete_ok [simp]: "heap_ok h \<Longrightarrow> heap_ok (heap_delete p h)"
  by (auto simp: heap_ok_def heap_delete_def split: option.splits if_splits)

lemma heap_delete_None [simp]: "heap_delete None h = h"
  by (simp add: heap_delete_def)

section \<open>Lemmas on decimal text\<close>

lemma is_digit_digit_char [simp]: "d < 10 \<Longrightarrow> is_digit (digit_char d)"
  by (simp add: is_digit_def digit_char_def)

lemma digit_val_digit_char [simp]: "d < 10 \<Longrightarrow> digit_val (digit_char d) = d"
  by (simp add: digit_val_def digit_char_def)

lemma nat_string_digits: "\<forall>c \<in> set (nat_string n). is_digit c"
proof (induction n rule: nat_string.induct)
  case (1 n)
  show ?case
    by (cases "n < 10") (use 1 in \<open>auto simp: nat_string.simps [of n]\<close>)
qed

lemma nat_string_nonempty [simp]: "nat_string n \<noteq> []"
  by (subst nat_string.simps) simp

lemma digits_nat_append [simp]: "digits_nat (xs @ [c]) = 10 * digits_nat xs + digit_val c"
  by (simp add: digits_nat_def)

lemma digits_nat_nat_string [simp]: "digits_nat (nat_string n) = n"
proof (induction n rule: nat_string.induct)
  case (1 n)
  show ?case
  proof (cases "n < 10")
    case True
    then show ?thesis by (simp add: nat_string.simps [of n] digits_nat_def)
  next
    case False
    with 1 show ?thesis by (simp add: nat_string.simps [of n])
  qed
qed

lemma takeWhile_nat_string [simp]: "takeWhile is_digit (nat_string n) = nat_string n"
  using nat_string_digits by (simp add: takeWhile_eq_all_conv)

lemma minus_not_digit [simp]: "\<not> is_digit (CHR ''-'')"
  by (simp add: is_digit_def)

lemma nat_string_no_minus: "nat_string n = c # cs \<Longrightarrow> c \<noteq> CHR ''-''"
  using nat_string_digits [of n] minus_not_digit by (metis list.set_intros(1))

lemma from_chars_int_string:
  assumes "- (2 ^ 31) \<le> i" and "i < 2 ^ 31"
  shows "from_chars32 (int_string i) v = word_of_int i"
proof (cases "i < 0")
  case True
  with assms show ?thesis by (simp add: from_chars32_def int_string_def Let_def)
next
  case False
  obtain c cs where s: "nat_string (nat i) = c # cs" by (cases "nat_string (nat i)") simp_all
  with nat_string_no_minus have "c \<noteq> CHR ''-''" by blast
  with False assms s show ?thesis
    using takeWhile_nat_string [of "nat i"] digits_nat_nat_string [of "nat i"]
    by (auto simp: from_chars32_def int_string_def Let_def)
qed

lemma from_chars_to_string32 [decimal]: "from_chars32 (to_string32 w) v = w"
proof -
  have "- (2 ^ 31) \<le> sint w" "sint w < 2 ^ 31"
    using sint_range_size [of w] by (simp_all add: word_size)
  then show ?thesis by (simp add: to_string32_def from_chars_int_string)
qed

lemma length_to_string32: "length (to_string32 w) \<le> 11"
proof -
  have digits: "length (nat_string n) \<le> d" if "n < 10 ^ d" "0 < d" for n d
    using that
  proof (induction d arbitrary: n)
    case (Suc d)
    show ?case
    proof (cases "n < 10")
      case True
      then show ?thesis by (subst nat_string.simps) simp
    next
      case False
      then have d: "0 < d" using Suc.prems by (cases d) simp_all
      have "n div 10 < 10 ^ d" using Suc.prems by (simp add: less_mult_imp_div_less mult.commute)
      from Suc.IH [OF this d] False show ?thesis by (subst nat_string.simps) simp
    qed
  qed simp
  have "- (2 ^ 31) \<le> sint w" "sint w < 2 ^ 31"
    using sint_range_size [of w] by (simp_all add: word_size)
  then have "nat (- sint w) < 10 ^ 10" "nat (sint w) < 10 ^ 10" by simp_all
  from digits [OF this(1)] digits [OF this(2)] show ?thesis
    by (simp add: to_string32_def int_string_def)
qed

lemma int_string_chars: "c \<in> set (int_string i) \<Longrightarrow> is_digit c \<or> c = CHR ''-''"
  using nat_string_digits by (auto simp: int_string_def split: if_splits)

lemma int_string_no [decimal]: "\<not> is_digit c \<Longrightarrow> c \<noteq> CHR ''-'' \<Longrightarrow> c \<notin> set (int_string i)"
  using int_string_chars by blast

lemma split_append [decimal]:
  assumes "ch \<notin> set a"
  shows "split (a @ ch # b) ch = (a, b)"
proof -
  have ne: "c \<noteq> ch" if "c \<in> set a" for c using assms that by blast
  have "takeWhile (\<lambda>c. c \<noteq> ch) (a @ ch # b) = a @ takeWhile (\<lambda>c. c \<noteq> ch) (ch # b)"
    by (rule takeWhile_append2) (rule ne)
  moreover have "dropWhile (\<lambda>c. c \<noteq> ch) (a @ ch # b) = dropWhile (\<lambda>c. c \<noteq> ch) (ch # b)"
    by (rule dropWhile_append2) (rule ne)
  ultimately show ?thesis by (simp add: split_def)
qed

lemma split_absent [decimal]: "ch \<notin> set s \<Longrightarrow> split s ch = ('''', '''')"
  by (simp add: split_def)

end
