(* ===== verification/Interfaces.thy ===== *)
theory Interfaces
  imports Prelude
begin

text \<open>
  The interfaces the components rely on, as locales: a field of a fixed-size message
  (\<open>wire_field\<close>), a message codec and the byte stream made of its frames
  (\<open>frame_codec\<close>), a fixed array of slots that is filled at the first free position
  (\<open>slot_array\<close>), a keyed object store (\<open>object_store\<close>) and a machine with an invariant
  (\<open>invariant_machine\<close>). Each is interpreted on the definitions of the component that provides
  it.
\<close>

section \<open>Message fields\<close>

locale wire_field =
  fixes width :: nat
    and enc :: "'v \<Rightarrow> bytes"
    and dec :: "bytes \<Rightarrow> 'v"
    and fits :: "'v \<Rightarrow> bool"
  assumes enc_width: "length (enc v) = width"
    and dec_enc: "fits v \<Longrightarrow> dec (enc v) = v"
begin

lemma stored_length:
  "off + width \<le> length buf \<Longrightarrow> length (put off (enc v) buf) = length buf"
  by (simp add: length_put enc_width)

lemma load_stored:
  "fits v \<Longrightarrow> off \<le> length buf \<Longrightarrow> dec (sub_bytes off width (put off (enc v) buf)) = v"
  by (simp add: sub_bytes_put_same enc_width dec_enc)

lemma load_other:
  "off' + width \<le> off \<or> off + n \<le> off' \<Longrightarrow> off' \<le> length buf \<Longrightarrow>
     sub_bytes off n (put off' (enc v) buf) = sub_bytes off n buf"
  by (auto simp: sub_bytes_put_before sub_bytes_put_after enc_width)

end

section \<open>Codecs and streams of frames\<close>

text \<open>A stream of fixed-size frames, as a peer reads it with \<open>read_n\<close>.\<close>

fun frames :: "nat \<Rightarrow> nat \<Rightarrow> bytes \<Rightarrow> bytes list" where
  "frames sz 0 s = []"
| "frames sz (Suc n) s = take sz s # frames sz n (drop sz s)"

locale frame_codec =
  fixes frame_size :: nat
    and encode :: "'m \<Rightarrow> bytes"
    and decode :: "bytes \<Rightarrow> 'm option"
    and valid :: "'m \<Rightarrow> bool"
  assumes encode_size: "length (encode m) = frame_size"
    and decode_encode: "valid m \<Longrightarrow> decode (encode m) = Some m"
begin

lemma encode_inj: "valid m \<Longrightarrow> valid m' \<Longrightarrow> encode m = encode m' \<Longrightarrow> m = m'"
  by (metis decode_encode option.inject)

lemma decode_stream:
  "list_all valid ms \<Longrightarrow>
     map decode (frames frame_size (length ms) (concat (map encode ms) @ rest)) = map Some ms"
  by (induction ms) (simp_all add: encode_size decode_encode)

end

section \<open>Arrays of slots\<close>

text \<open>
  \<open>std::find_if(slots, slots + n, is_free)\<close> over an array: the first free position, or the
  array's length when there is none.
\<close>

definition find_pos :: "('s \<Rightarrow> bool) \<Rightarrow> 's list \<Rightarrow> nat" where
  "find_pos P xs = length (takeWhile (\<lambda>x. \<not> P x) xs)"

lemma find_pos_le [simp]: "find_pos P xs \<le> length xs"
  by (simp add: find_pos_def length_takeWhile_le)

lemma find_pos_nth: "find_pos P xs < length xs \<Longrightarrow> P (xs ! find_pos P xs)"
  unfolding find_pos_def using nth_length_takeWhile by blast

lemma find_pos_before: "i < find_pos P xs \<Longrightarrow> \<not> P (xs ! i)"
  unfolding find_pos_def using nth_mem set_takeWhileD takeWhile_nth by metis

lemma find_posI:
  assumes "i < length xs" "P (xs ! i)" "\<And>j. j < i \<Longrightarrow> \<not> P (xs ! j)"
  shows "find_pos P xs = i"
  using assms by (metis find_pos_before find_pos_le find_pos_nth le_neq_implies_less nat_neq_iff order_less_trans)

lemma find_pos_full: "find_pos P xs = length xs \<longleftrightarrow> (\<forall>x \<in> set xs. \<not> P x)"
proof
  assume "find_pos P xs = length xs"
  then have "takeWhile (\<lambda>x. \<not> P x) xs = xs"
    unfolding find_pos_def by (metis length_takeWhile_le takeWhile_eq_take take_all)
  then show "\<forall>x \<in> set xs. \<not> P x" by (simp add: takeWhile_eq_all_conv)
next
  assume "\<forall>x \<in> set xs. \<not> P x"
  then show "find_pos P xs = length xs"
    unfolding find_pos_def by (simp add: takeWhile_eq_all_conv[THEN iffD2])
qed

definition used_slots :: "('s \<Rightarrow> bool) \<Rightarrow> 's list \<Rightarrow> nat" where
  "used_slots P xs = length (filter (\<lambda>x. \<not> P x) xs)"

lemma used_slots_le: "used_slots P xs \<le> length xs"
  by (simp add: used_slots_def)

lemma used_slots_full: "used_slots P xs = length xs \<longleftrightarrow> (\<forall>x \<in> set xs. \<not> P x)"
  by (metis filter_True length_filter_less less_irrefl used_slots_def)

lemma used_slots_update:
  "i < length xs \<Longrightarrow> P (xs ! i) \<Longrightarrow> \<not> P y \<Longrightarrow> used_slots P (xs[i := y]) = Suc (used_slots P xs)"
  by (induction xs arbitrary: i) (auto simp: used_slots_def nth_Cons split: nat.splits)

locale slot_array =
  fixes is_free :: "'s \<Rightarrow> bool"
    and occupy :: "'a \<Rightarrow> nat \<Rightarrow> 's"
    and claim_slot :: "'a \<Rightarrow> 's list \<Rightarrow> (nat \<times> 's list) option"
  assumes occupy_used: "\<not> is_free (occupy a i)"
    and claim_full: "find_pos is_free xs = length xs \<Longrightarrow> claim_slot a xs = None"
    and claim_free: "find_pos is_free xs < length xs \<Longrightarrow>
      claim_slot a xs = Some (find_pos is_free xs, xs[find_pos is_free xs := occupy a (find_pos is_free xs)])"
begin

lemma claim_None_iff: "claim_slot a xs = None \<longleftrightarrow> (\<forall>x \<in> set xs. \<not> is_free x)"
  using claim_full claim_free find_pos_full find_pos_le
  by (metis le_neq_implies_less option.distinct(1))

lemma claim_Some:
  assumes "claim_slot a xs = Some (i, ys)"
  shows "i < length xs" and "is_free (xs ! i)" and "ys = xs[i := occupy a i]"
    and "\<forall>j<i. \<not> is_free (xs ! j)" and "length ys = length xs"
    and "used_slots is_free ys = Suc (used_slots is_free xs)"
proof -
  have lt: "find_pos is_free xs < length xs"
    using assms claim_full find_pos_le by (metis le_neq_implies_less option.distinct(1))
  with assms claim_free have i: "i = find_pos is_free xs" and ys: "ys = xs[i := occupy a i]"
    by auto
  show "i < length xs" using lt i by simp
  show "is_free (xs ! i)" using find_pos_nth lt i by metis
  show "ys = xs[i := occupy a i]" by (rule ys)
  show "\<forall>j<i. \<not> is_free (xs ! j)" using find_pos_before i by metis
  show "length ys = length xs" using ys by simp
  show "used_slots is_free ys = Suc (used_slots is_free xs)"
    unfolding ys using \<open>i < length xs\<close> \<open>is_free (xs ! i)\<close> occupy_used by (rule used_slots_update)
qed

lemma claim_bound: "claim_slot a xs = Some (i, ys) \<Longrightarrow> used_slots is_free xs < length xs"
  by (metis claim_Some(5,6) Suc_le_lessD used_slots_le)

end

section \<open>Keyed object stores\<close>

locale object_store =
  fixes lookup :: "'st \<Rightarrow> 'k \<Rightarrow> 'v option"
    and create :: "'st \<Rightarrow> 'k \<Rightarrow> 'v \<Rightarrow> bool \<times> 'st"
    and replace :: "'st \<Rightarrow> 'k \<Rightarrow> 'v \<Rightarrow> bool \<times> 'st"
    and delete :: "'st \<Rightarrow> 'k \<Rightarrow> bool \<times> 'st"
  assumes create_result: "fst (create s k v) \<longleftrightarrow> lookup s k = None"
    and create_lookup: "lookup (snd (create s k v)) = (lookup s)(k \<mapsto> v)"
    and replace_result: "fst (replace s k v) \<longleftrightarrow> lookup s k \<noteq> None"
    and replace_lookup: "lookup (snd (replace s k v)) =
      (if lookup s k = None then lookup s else (lookup s)(k \<mapsto> v))"
    and delete_result: "fst (delete s k) \<longleftrightarrow> lookup s k \<noteq> None"
    and delete_lookup: "lookup (snd (delete s k)) = (lookup s)(k := None)"
begin

lemma get_created: "lookup (snd (create s k v)) k = Some v"
  by (simp add: create_lookup)

lemma create_after_delete: "fst (create (snd (delete s k)) k v)"
  by (simp add: create_result delete_lookup)

lemma replace_created:
  "fst (replace (snd (create s k v)) k w) \<and> lookup (snd (replace (snd (create s k v)) k w)) k = Some w"
  by (simp add: replace_result replace_lookup create_lookup)

lemma other_keys_kept:
  "k' \<noteq> k \<Longrightarrow> lookup (snd (create s k v)) k' = lookup s k' \<and>
     lookup (snd (replace s k v)) k' = lookup s k' \<and> lookup (snd (delete s k)) k' = lookup s k'"
  by (simp add: create_lookup replace_lookup delete_lookup)

end

section \<open>Machines with an invariant\<close>

inductive reaches :: "('s \<Rightarrow> 's \<Rightarrow> bool) \<Rightarrow> 's \<Rightarrow> 's \<Rightarrow> bool" for step where
  reaches_refl [intro!]: "reaches step s s"
| reaches_step: "reaches step s t \<Longrightarrow> step t u \<Longrightarrow> reaches step s u"

lemma reaches_trans: "reaches step s t \<Longrightarrow> reaches step t u \<Longrightarrow> reaches step s u"
  by (rotate_tac) (induction rule: reaches.induct, auto intro: reaches_step)

locale invariant_machine =
  fixes step :: "'s \<Rightarrow> 's \<Rightarrow> bool"
    and inv :: "'s \<Rightarrow> bool"
  assumes step_inv: "step s t \<Longrightarrow> inv s \<Longrightarrow> inv t"
begin

lemma reaches_inv: "reaches step s t \<Longrightarrow> inv s \<Longrightarrow> inv t"
  by (induction rule: reaches.induct) (auto intro: step_inv)

end

end
