(* ===== verification/Common_Messages.thy ===== *)
theory Common_Messages
  imports Interfaces
begin

text \<open>
  The messages of \<open>src/system/common/messages.hpp\<close> and \<open>messages.cpp\<close>: the 24-byte
  \<open>Header\<close> that processes and sessions send to the control plane, with its four views, and the
  39-byte \<open>Request\<close> packets that the control plane sends. A view such as
  \<open>ProcessMessage\<close> holds the pointer \<open>data + 2\<close>, here the rest of the buffer from byte 2.
\<close>

section \<open>Headers received by the control plane\<close>

datatype MessageType = CLIENT | PROCESS | SESSION | SESSION_STATUS

fun message_code :: "MessageType \<Rightarrow> i16" where
  "message_code CLIENT = 0"
| "message_code PROCESS = 1"
| "message_code SESSION = 2"
| "message_code SESSION_STATUS = 3"

definition Header_BUF_SIZE :: nat where
  "Header_BUF_SIZE = 24"

datatype message =
    ClientMessage bytes
  | ProcessMessage bytes
  | SessionMessage bytes
  | SessionStatusMessage bytes

definition Header_parse :: "bytes \<Rightarrow> message option" where
  "Header_parse data =
     (let type = get16 0 data in
      if type = message_code CLIENT then Some (ClientMessage (drop 2 data))
      else if type = message_code PROCESS then Some (ProcessMessage (drop 2 data))
      else if type = message_code SESSION then Some (SessionMessage (drop 2 data))
      else if type = message_code SESSION_STATUS then Some (SessionStatusMessage (drop 2 data))
      else None)"

fun message_type :: "message \<Rightarrow> MessageType" where
  "message_type (ClientMessage buf) = CLIENT"
| "message_type (ProcessMessage buf) = PROCESS"
| "message_type (SessionMessage buf) = SESSION"
| "message_type (SessionStatusMessage buf) = SESSION_STATUS"

definition ClientMessage_payload_size :: "bytes \<Rightarrow> i32" where
  "ClientMessage_payload_size buf = get32 0 buf"

definition ClientMessage_process_name :: "bytes \<Rightarrow> string option" where
  "ClientMessage_process_name buf = c_string 4 buf"

definition ClientMessage_function_name :: "bytes \<Rightarrow> string option" where
  "ClientMessage_function_name buf = c_string 20 buf"

definition ClientMessage_session_id :: "bytes \<Rightarrow> string option" where
  "ClientMessage_session_id buf = c_string 36 buf"

definition ProcessMessage_process_id :: "bytes \<Rightarrow> string" where
  "ProcessMessage_process_id buf = string_n 0 16 buf"

definition SessionMessage_session_id :: "bytes \<Rightarrow> string" where
  "SessionMessage_session_id buf = string_n 0 16 buf"

definition SessionStatusMessage_memory_size :: "bytes \<Rightarrow> i32" where
  "SessionStatusMessage_memory_size buf = get32 0 buf"

definition SessionStatusMessage_session_status :: "bytes \<Rightarrow> i16" where
  "SessionStatusMessage_session_status buf = get16 4 buf"

definition SessionStatusMessage_session_id :: "bytes \<Rightarrow> string" where
  "SessionStatusMessage_session_id buf = string_n 6 16 buf"

section \<open>Requests sent by the control plane\<close>

datatype RequestType = PROCESS_ALLOCATION | SESSION_ALLOCATION | FUNCTION_INVOCATION

fun request_code :: "RequestType \<Rightarrow> i16" where
  "request_code PROCESS_ALLOCATION = 11"
| "request_code SESSION_ALLOCATION = 12"
| "request_code FUNCTION_INVOCATION = 13"

definition Request_EXPECTED_LENGTH :: nat where
  "Request_EXPECTED_LENGTH = 39"

text \<open>The constructor \<open>Request()\<close> clears the array.\<close>

definition Request_init :: bytes where
  "Request_init = replicate Request_EXPECTED_LENGTH 0"

text \<open>Each \<open>fill\<close> returns the size to send and the new contents of \<open>data\<close>.\<close>

definition ProcessRequest_fill ::
  "i16 \<Rightarrow> i32 \<Rightarrow> string \<Rightarrow> string \<Rightarrow> bytes \<Rightarrow> nat \<times> bytes" where
  "ProcessRequest_fill sessions port ip_address process_id data =
     (let d = put16 0 (request_code PROCESS_ALLOCATION) data;
          d = put16 2 sessions d;
          d = put32 4 port d;
          d = strncpy_at 8 ip_address 15 d;
          d = strncpy_at 23 process_id 16 d
      in (Request_EXPECTED_LENGTH, d))"

definition ProcessRequest_max_sessions :: "bytes \<Rightarrow> i16" where
  "ProcessRequest_max_sessions data = get16 2 data"

definition ProcessRequest_port :: "bytes \<Rightarrow> i32" where
  "ProcessRequest_port data = get32 4 data"

definition ProcessRequest_ip_address :: "bytes \<Rightarrow> string" where
  "ProcessRequest_ip_address data = string_n 8 15 data"

definition ProcessRequest_process_id :: "bytes \<Rightarrow> string" where
  "ProcessRequest_process_id data = string_n 23 16 data"

definition SessionRequest_fill :: "string \<Rightarrow> i32 \<Rightarrow> i32 \<Rightarrow> bytes \<Rightarrow> nat \<times> bytes" where
  "SessionRequest_fill session_id max_functions memory_size data =
     (let d = put16 0 (request_code SESSION_ALLOCATION) data;
          d = put32 2 max_functions d;
          d = put32 6 memory_size d;
          d = strncpy_at 10 session_id 16 d
      in (Request_EXPECTED_LENGTH, d))"

definition SessionRequest_max_functions :: "bytes \<Rightarrow> i16" where
  "SessionRequest_max_functions data = get16 2 data"

definition SessionRequest_memory_size :: "bytes \<Rightarrow> i32" where
  "SessionRequest_memory_size data = get32 4 data"

definition SessionRequest_session_id :: "bytes \<Rightarrow> string" where
  "SessionRequest_session_id data = string_n 10 16 data"

text \<open>The payload size is an \<open>int32_t\<close> stored through an \<open>int16_t\<close> pointer.\<close>

definition FunctionRequest_fill :: "string \<Rightarrow> string \<Rightarrow> i32 \<Rightarrow> bytes \<Rightarrow> nat \<times> bytes" where
  "FunctionRequest_fill function_name function_id payload_size data =
     (let d = put16 0 (request_code FUNCTION_INVOCATION) data;
          d = put16 2 (ucast payload_size) d;
          d = strncpy_at 6 function_name 16 d;
          d = strncpy_at 22 function_id 16 d
      in (Request_EXPECTED_LENGTH, d))"

section \<open>The fields of a message\<close>

text \<open>A 16-character identifier without zeros, the shape of a shortened UUID.\<close>

definition id16 :: "string \<Rightarrow> bool" where
  "id16 s \<longleftrightarrow> length s = 16 \<and> NUL \<notin> set s"

definition name16 :: "string \<Rightarrow> bool" where
  "name16 s \<longleftrightarrow> length s \<le> 16 \<and> NUL \<notin> set s"

definition padded :: "nat \<Rightarrow> string \<Rightarrow> string" where
  "padded n s = s @ replicate (n - length s) NUL"

interpretation w16: wire_field 2 "le_bytes 2 :: i16 \<Rightarrow> bytes" le_word "\<lambda>_. True"
  by unfold_locales simp_all

interpretation w32: wire_field 4 "le_bytes 4 :: i32 \<Rightarrow> bytes" le_word "\<lambda>_. True"
  by unfold_locales simp_all

interpretation idf: wire_field 16 "\<lambda>s. strncpy_bytes s 16" of_bytes id16
  by unfold_locales (simp_all add: of_bytes_strncpy id16_def)

interpretation namef: wire_field 16 "\<lambda>s. strncpy_bytes s 16"
  "\<lambda>bs. of_bytes (takeWhile (\<lambda>b. b \<noteq> 0) bs)" name16
  by unfold_locales (simp_all add: strncpy_nlen name16_def)

lemma of_bytes_strncpy_padded:
  "length s \<le> n \<Longrightarrow> NUL \<notin> set s \<Longrightarrow> of_bytes (strncpy_bytes s n) = padded n s"
  by (simp add: strncpy_short padded_def map_replicate_const)

lemmas message_ops =
  get16_def get32_def put16_def put32_def strncpy_at_def string_n_def string_nlen_eq

lemmas field_laws =
  w16.load_stored w32.load_stored idf.load_stored namef.load_stored idf.dec_enc namef.dec_enc
  sub_bytes_put_same sub_bytes_put_before sub_bytes_put_after length_put

lemma sub_bytes_drop [wire]: "sub_bytes off n (drop k buf) = sub_bytes (off + k) n buf"
  by (simp add: sub_bytes_def add.commute)

lemma length_Request_init [simp]: "length Request_init = 39"
  by (simp add: Request_init_def Request_EXPECTED_LENGTH_def)

lemma length_ProcessRequest_fill:
  "length data = 39 \<Longrightarrow> length (snd (ProcessRequest_fill n p ip pid data)) = 39"
  by (simp add: ProcessRequest_fill_def Let_def message_ops length_put)

lemma length_SessionRequest_fill:
  "length data = 39 \<Longrightarrow> length (snd (SessionRequest_fill sid mf ms data)) = 39"
  by (simp add: SessionRequest_fill_def Let_def message_ops length_put)

lemma length_FunctionRequest_fill:
  "length data = 39 \<Longrightarrow> length (snd (FunctionRequest_fill fn fid ps data)) = 39"
  by (simp add: FunctionRequest_fill_def Let_def message_ops length_put)

lemma fst_fill [simp]:
  "fst (ProcessRequest_fill n p ip pid data) = Request_EXPECTED_LENGTH"
  "fst (SessionRequest_fill sid mf ms data) = Request_EXPECTED_LENGTH"
  "fst (FunctionRequest_fill fname fid ps data) = Request_EXPECTED_LENGTH"
  by (simp_all add: ProcessRequest_fill_def SessionRequest_fill_def FunctionRequest_fill_def Let_def)

lemma SessionRequest_fill_bytes:
  assumes "26 \<le> length req"
  shows "snd (SessionRequest_fill sid mf ms req) =
    le_bytes 2 (request_code SESSION_ALLOCATION) @ le_bytes 4 mf @ le_bytes 4 ms @ strncpy_bytes sid 16 @ drop 26 req"
  using assms
  by (simp add: SessionRequest_fill_def Let_def put16_def put32_def strncpy_at_def put_def del: le_bytes.simps)

lemma FunctionRequest_fill_bytes:
  assumes "38 \<le> length req"
  shows "snd (FunctionRequest_fill fn fid ps req) =
    le_bytes 2 (request_code FUNCTION_INVOCATION) @ le_bytes 2 (ucast ps :: i16) @ take 2 (drop 4 req) @
     strncpy_bytes fn 16 @ strncpy_bytes fid 16 @ drop 38 req"
  using assms
  by (simp add: FunctionRequest_fill_def Let_def put16_def put32_def strncpy_at_def put_def del: le_bytes.simps)

text \<open>
  The local worker reads back from a process request exactly the session limit, the port,
  the zero-padded address and the process identifier that the control plane's backend filled in,
  for an address of at most 15 characters and a 16-character identifier, whatever request the
  packet held before.
\<close>

lemma process_request_fields:
  assumes "length data = Request_EXPECTED_LENGTH"
  shows "ProcessRequest_max_sessions (snd (ProcessRequest_fill n p ip pid data)) = n"
    and "ProcessRequest_port (snd (ProcessRequest_fill n p ip pid data)) = p"
    and "length ip \<le> 15 \<Longrightarrow> NUL \<notin> set ip \<Longrightarrow>
      ProcessRequest_ip_address (snd (ProcessRequest_fill n p ip pid data)) = padded 15 ip"
    and "id16 pid \<Longrightarrow> ProcessRequest_process_id (snd (ProcessRequest_fill n p ip pid data)) = pid"
  using assms
  by (simp_all add: ProcessRequest_fill_def ProcessRequest_max_sessions_def ProcessRequest_port_def
      ProcessRequest_ip_address_def ProcessRequest_process_id_def Let_def message_ops field_laws
      of_bytes_strncpy_padded Request_EXPECTED_LENGTH_def)

section \<open>Properties\<close>

text \<open>
  Every \<open>fill\<close> of a request writes inside its 39-byte array, whatever
  the lengths of the strings it is given, and reports exactly that many bytes to send.
\<close>

lemma request_fill_in_bounds:
  assumes "length data = Request_EXPECTED_LENGTH"
  shows "length (snd (ProcessRequest_fill n p ip pid data)) = Request_EXPECTED_LENGTH \<and>
    length (snd (SessionRequest_fill sid mf ms data)) = Request_EXPECTED_LENGTH \<and>
    length (snd (FunctionRequest_fill fname fid ps data)) = Request_EXPECTED_LENGTH \<and>
    fst (ProcessRequest_fill n p ip pid data) = Request_EXPECTED_LENGTH \<and>
    fst (SessionRequest_fill sid mf ms data) = Request_EXPECTED_LENGTH \<and>
    fst (FunctionRequest_fill fname fid ps data) = Request_EXPECTED_LENGTH"
  using assms
  by (simp add: Request_EXPECTED_LENGTH_def length_ProcessRequest_fill length_SessionRequest_fill
      length_FunctionRequest_fill)

text \<open>
  The accessors that \<open>SessionRequest\<close> declares for its own packet do not read the fields
  its \<open>fill\<close> wrote: \<open>max_functions\<close> returns the low half of the value, and
  \<open>memory_size\<close> returns a word made of the high half of the function limit and the low half of
  the memory size.
\<close>

lemma session_request_own_accessors:
  "SessionRequest_max_functions (snd (SessionRequest_fill sid mf ms Request_init)) = ucast mf \<and>
   SessionRequest_memory_size (snd (SessionRequest_fill sid mf ms Request_init)) =
     or (drop_bit 16 mf) (push_bit 16 ms)"
proof
  let ?d = "snd (SessionRequest_fill sid mf ms Request_init)"
  have lo: "sub_bytes 2 2 ?d = le_bytes 2 mf"
    and mid: "sub_bytes 4 2 ?d = le_bytes 2 (drop_bit 16 mf)"
    and hi: "sub_bytes 6 2 ?d = le_bytes 2 ms"
    by (simp_all add: SessionRequest_fill_def Let_def message_ops field_laws sub_bytes_put_inside
        le_bytes_2 le_bytes_4 sub_bytes_def [of _ _ "_ # _"])
  show "SessionRequest_max_functions ?d = ucast mf"
    unfolding SessionRequest_max_functions_def get16_def lo
    by (simp add: le_word_le_bytes take_bit_word_eq_self)
  have "sub_bytes 4 4 ?d = le_bytes 2 (drop_bit 16 mf) @ le_bytes 2 ms"
    using sub_bytes_add [of 4 2 2 ?d] by (simp add: mid hi)
  then show "SessionRequest_memory_size ?d = or (drop_bit 16 mf) (push_bit 16 ms)"
    unfolding SessionRequest_memory_size_def get32_def
    by (simp add: le_word_append le_word_le_bytes)
      (rule bit_word_eqI, auto simp: bit_simps dest: bit_imp_le_length)
qed

end
