(* ===== verification/Resources.thy ===== *)
theory Resources
  imports Interfaces "HOL-Library.Multiset"
begin

text \<open>
  The tables of the control plane: \<open>src/system/control-plane/resources.hpp\<close> and
  \<open>resources.cpp\<close>. A \<open>Process*\<close> or \<open>Session*\<close> is the key of the element in its hash map,
  since the elements of a \<open>std::unordered_map\<close> do not move. The map of processes is also
  iterated, so it is an association list in iteration order; where a new element goes is not
  specified by the standard library and is the parameter \<open>place\<close>. A socket is the number of its
  connection, \<open>None\<close> when it is not open.
\<close>

section \<open>State\<close>

type_synonym socket = "nat option"

record PendingAllocation =
  payload :: string
  function_name :: string
  function_id :: string

record Session =
  ses_connection :: socket
  session_id :: string
  max_functions :: i32
  ses_memory_size :: i32
  allocations :: "PendingAllocation list"
  allocated :: bool
  swap_in :: bool

record CProcess =
  global_process_id :: string
  cp_process_id :: string
  allocated_sessions :: i16
  cp_max_sessions :: i16
  busy :: bool
  connection :: socket
  proc_sessions :: "string list"

record Resources =
  sessions_map :: "string \<rightharpoonup> Session"
  processes :: "(string \<times> CProcess) list"

text \<open>
  The constructor sets the identifier and \<open>allocated\<close>; the two numbers and \<open>swap_in\<close> hold
  what the memory held before.
\<close>

definition Session_init :: "i32 \<times> i32 \<times> bool \<Rightarrow> string \<Rightarrow> Session" where
  "Session_init junk sid =
     \<lparr>ses_connection = None, session_id = sid, max_functions = fst junk, ses_memory_size = fst (snd junk),
      allocations = [], allocated = False, swap_in = snd (snd junk)\<rparr>"

definition CProcess_init :: "i16 \<Rightarrow> CProcess" where
  "CProcess_init n =
     \<lparr>global_process_id = '''', cp_process_id = '''', allocated_sessions = 0, cp_max_sessions = n, busy = False,
      connection = None, proc_sessions = []\<rparr>"

text \<open>Move assignment copies everything but the atomic \<open>busy\<close>.\<close>

definition CProcess_assign :: "CProcess \<Rightarrow> CProcess \<Rightarrow> CProcess" where
  "CProcess_assign this obj = obj\<lparr>busy := busy this\<rparr>"

section \<open>Operations\<close>

type_synonym placement = "string \<times> CProcess \<Rightarrow> (string \<times> CProcess) list \<Rightarrow> (string \<times> CProcess) list"

text \<open>What an insertion into a hash map promises: the same elements and the new one, in some order.\<close>

definition hash_order :: "placement \<Rightarrow> bool" where
  "hash_order place \<longleftrightarrow> (\<forall>x xs. mset (place x xs) = add_mset x (mset xs))"

definition update_process :: "string \<Rightarrow> (CProcess \<Rightarrow> CProcess) \<Rightarrow> Resources \<Rightarrow> Resources" where
  "update_process k f r =
     r\<lparr>processes := map (\<lambda>(k', p). if k' = k then (k', f p) else (k', p)) (processes r)\<rparr>"

definition get_process :: "string \<Rightarrow> Resources \<Rightarrow> CProcess option" where
  "get_process k r = map_of (processes r) k"

text \<open>\<open>processes[p.process_id] = std::move(p)\<close>: the element is created if it is missing.\<close>

definition add_process :: "placement \<Rightarrow> CProcess \<Rightarrow> Resources \<Rightarrow> string \<times> Resources" where
  "add_process place p r =
     (let k = cp_process_id p;
          r = (if get_process k r = None then r\<lparr>processes := place (k, CProcess_init 0) (processes r)\<rparr> else r)
      in (k, update_process k (\<lambda>q. CProcess_assign q p) r))"

text \<open>The argument of \<open>get_free_process\<close> has no name in the source and is not used.\<close>

definition get_free_process :: "string \<Rightarrow> Resources \<Rightarrow> string option \<times> Resources" where
  "get_free_process pid r =
     (case find (\<lambda>(k, p). sint (allocated_sessions p) < sint (cp_max_sessions p)) (processes r) of
        None \<Rightarrow> (None, r)
      | Some (k, p) \<Rightarrow>
          (Some k, update_process k (\<lambda>p. p\<lparr>allocated_sessions := allocated_sessions p + 1\<rparr>) r))"

text \<open>\<open>emplace\<close> leaves an element that is already there as it is.\<close>

definition add_session :: "i32 \<times> i32 \<times> bool \<Rightarrow> string \<Rightarrow> string \<Rightarrow> Resources \<Rightarrow> string \<times> Resources" where
  "add_session junk k sid r =
     (let r = (if sessions_map r sid = None
               then r\<lparr>sessions_map := (sessions_map r)(sid \<mapsto> Session_init junk sid)\<rparr> else r)
      in (sid, update_process k (\<lambda>p. p\<lparr>proc_sessions := proc_sessions p @ [sid]\<rparr>) r))"

definition get_session :: "string \<Rightarrow> Resources \<Rightarrow> Session option" where
  "get_session sid r = sessions_map r sid"

definition update_session :: "string \<Rightarrow> (Session \<Rightarrow> Session) \<Rightarrow> Resources \<Rightarrow> Resources" where
  "update_session sid f r =
     (case sessions_map r sid of None \<Rightarrow> r
      | Some s \<Rightarrow> r\<lparr>sessions_map := (sessions_map r)(sid \<mapsto> f s)\<rparr>)"

datatype cp_error = not_implemented

definition remove_process :: "string \<Rightarrow> Resources \<Rightarrow> cp_error + Resources" where
  "remove_process pid r = Inl not_implemented"

text \<open>The session leaves the vector of its process, and only that.\<close>

definition remove_session :: "string \<Rightarrow> string \<Rightarrow> Resources \<Rightarrow> Resources" where
  "remove_session k sid r =
     (case get_process k r of None \<Rightarrow> r
      | Some p \<Rightarrow>
          (let i = find_pos (\<lambda>q. map_option session_id (sessions_map r q) = Some sid) (proc_sessions p) in
           if i = length (proc_sessions p) then r
           else update_process k (\<lambda>p. p\<lparr>allocated_sessions := allocated_sessions p - 1,
                  proc_sessions := take i (proc_sessions p) @ drop (Suc i) (proc_sessions p)\<rparr>) r))"

section \<open>Invariant\<close>

text \<open>
  A process counts exactly the sessions in its vector and never more than its limit; every pointer
  to a session is valid, and an element knows its key.
\<close>

definition proc_ok :: "(string \<rightharpoonup> Session) \<Rightarrow> string \<Rightarrow> CProcess \<Rightarrow> bool" where
  "proc_ok m k p \<longleftrightarrow> cp_process_id p = k \<and> sint (allocated_sessions p) = int (length (proc_sessions p)) \<and>
     sint (allocated_sessions p) \<le> sint (cp_max_sessions p) \<and> set (proc_sessions p) \<subseteq> dom m"

definition res_inv :: "Resources \<Rightarrow> bool" where
  "res_inv r \<longleftrightarrow> distinct (map fst (processes r)) \<and>
     (\<forall>(k, p) \<in> set (processes r). proc_ok (sessions_map r) k p) \<and>
     (\<forall>sid s. sessions_map r sid = Some s \<longrightarrow> session_id s = sid)"

definition Resources_init :: Resources where
  "Resources_init = \<lparr>sessions_map = Map.empty, processes = []\<rparr>"

lemma res_inv_init [simp]: "res_inv Resources_init"
  by (simp add: res_inv_def Resources_init_def)

section \<open>Lemmas\<close>

lemma map_of_update:
  "map_of (map (\<lambda>(k', p). if k' = k then (k', f p) else (k', p)) xs) k'' =
     (if k'' = k then map_option f (map_of xs k) else map_of xs k'')"
  by (induction xs) auto

lemma get_process_update [simp]:
  "get_process k' (update_process k f r) = (if k' = k then map_option f (get_process k r) else get_process k' r)"
  by (simp add: get_process_def update_process_def map_of_update)

lemma update_process_sessions [simp]: "sessions_map (update_process k f r) = sessions_map r"
  by (simp add: update_process_def)

lemma update_process_keys [simp]: "map fst (processes (update_process k f r)) = map fst (processes r)"
  by (auto simp: update_process_def)

lemma get_process_update_session [simp]: "get_process k (update_session sid f r) = get_process k r"
  by (simp add: get_process_def update_session_def split: option.splits)

lemma sessions_update_session [simp]:
  "sessions_map (update_session sid f r) = (sessions_map r)(sid := map_option f (sessions_map r sid))"
  by (auto simp: update_session_def split: option.splits)

lemma get_session_eq [simp]: "get_session sid r = sessions_map r sid"
  by (simp add: get_session_def)

text \<open>The invariant, in terms of the two lookups.\<close>

lemma res_inv_lookup:
  "res_inv r \<longleftrightarrow> distinct (map fst (processes r)) \<and>
     (\<forall>k p. get_process k r = Some p \<longrightarrow> proc_ok (sessions_map r) k p) \<and>
     (\<forall>sid s. sessions_map r sid = Some s \<longrightarrow> session_id s = sid)"
proof (cases "distinct (map fst (processes r))")
  case True
  then have "get_process k r = Some p \<longleftrightarrow> (k, p) \<in> set (processes r)" for k p
    by (simp add: get_process_def)
  then show ?thesis by (auto simp: res_inv_def)
qed (simp add: res_inv_def)

lemma res_inv_update_process:
  assumes "res_inv r" and "\<And>p. get_process k r = Some p \<Longrightarrow> proc_ok (sessions_map r) k (f p)"
  shows "res_inv (update_process k f r)"
  using assms by (auto simp: res_inv_lookup)

text \<open>The part of the invariant that does not speak of the counters.\<close>

definition table_wf :: "Resources \<Rightarrow> bool" where
  "table_wf r \<longleftrightarrow> distinct (map fst (processes r)) \<and>
     (\<forall>k p. get_process k r = Some p \<longrightarrow> set (proc_sessions p) \<subseteq> dom (sessions_map r)) \<and>
     (\<forall>sid s. sessions_map r sid = Some s \<longrightarrow> session_id s = sid)"

lemma res_inv_wf: "res_inv r \<Longrightarrow> table_wf r"
  by (auto simp: res_inv_lookup table_wf_def proc_ok_def)

lemma table_wfD:
  assumes "table_wf r"
  shows "distinct (map fst (processes r))" and "sessions_map r sid = Some s \<Longrightarrow> session_id s = sid"
    and "get_process k r = Some p \<Longrightarrow> set (proc_sessions p) \<subseteq> dom (sessions_map r)"
  using assms by (auto simp: table_wf_def)

lemma proc_ok_mono: "proc_ok m k p \<Longrightarrow> dom m \<subseteq> dom m' \<Longrightarrow> proc_ok m' k p"
  unfolding proc_ok_def by blast

lemma res_inv_update_session:
  assumes "res_inv r" and "\<And>s. sessions_map r sid = Some s \<Longrightarrow> session_id (f s) = session_id s"
  shows "res_inv (update_session sid f r)"
proof -
  have "dom (sessions_map (update_session sid f r)) = dom (sessions_map r)" by auto
  moreover have "processes (update_session sid f r) = processes r"
    by (simp add: update_session_def split: option.splits)
  ultimately have "proc_ok (sessions_map (update_session sid f r)) k p" if "get_process k r = Some p" for k p
    using that assms(1) proc_ok_mono [of "sessions_map r" k p "sessions_map (update_session sid f r)"]
    unfolding res_inv_lookup by simp
  then show ?thesis
    using assms \<open>processes (update_session sid f r) = processes r\<close>
    by (auto simp: res_inv_lookup split: if_splits)
qed

lemma get_free_process_cases:
  assumes "get_free_process pid r = (res, r')"
  obtains (none) "res = None" "r' = r"
      "\<forall>(k, p) \<in> set (processes r). sint (cp_max_sessions p) \<le> sint (allocated_sessions p)"
  | (found) k p where "res = Some k" "(k, p) \<in> set (processes r)"
      "sint (allocated_sessions p) < sint (cp_max_sessions p)"
      "r' = update_process k (\<lambda>p. p\<lparr>allocated_sessions := allocated_sessions p + 1\<rparr>) r"
proof (cases "find (\<lambda>(k, p). sint (allocated_sessions p) < sint (cp_max_sessions p)) (processes r)")
  case None
  then have "\<forall>(k, p) \<in> set (processes r). sint (cp_max_sessions p) \<le> sint (allocated_sessions p)"
    by (fastforce simp: find_None_iff)
  with None assms show ?thesis by (intro none) (simp_all add: get_free_process_def)
next
  case (Some kp)
  obtain k p where kp: "kp = (k, p)" by fastforce
  with Some have "(k, p) \<in> set (processes r)" "sint (allocated_sessions p) < sint (cp_max_sessions p)"
    by (auto simp: find_Some_iff in_set_conv_nth)
  with Some kp assms show ?thesis by (intro found [of k p]) (auto simp: get_free_process_def)
qed

lemma get_process_sessions_map [simp]: "get_process k (r\<lparr>sessions_map := m\<rparr>) = get_process k r"
  by (simp add: get_process_def)

lemma add_session_simps [simp]:
  "fst (add_session junk k sid r) = sid"
  "get_process k' (snd (add_session junk k sid r)) =
     (if k' = k then map_option (\<lambda>p. p\<lparr>proc_sessions := proc_sessions p @ [sid]\<rparr>) (get_process k r) else get_process k' r)"
  "sessions_map (snd (add_session junk k sid r)) =
     (if sessions_map r sid = None then (sessions_map r)(sid \<mapsto> Session_init junk sid) else sessions_map r)"
  "map fst (processes (snd (add_session junk k sid r))) = map fst (processes r)"
  by (simp_all add: add_session_def Let_def)

text \<open>Adding a session to a process whose counter has already been increased restores the invariant.\<close>

lemma add_session_inv:
  assumes "distinct (map fst (processes r))"
    and "\<And>k' p. k' \<noteq> k \<Longrightarrow> get_process k' r = Some p \<Longrightarrow> proc_ok (sessions_map r) k' p"
    and "\<And>p. get_process k r = Some p \<Longrightarrow>
      cp_process_id p = k \<and> sint (allocated_sessions p) = int (length (proc_sessions p)) + 1 \<and>
      sint (allocated_sessions p) \<le> sint (cp_max_sessions p) \<and> set (proc_sessions p) \<subseteq> dom (sessions_map r)"
    and "\<And>sid s. sessions_map r sid = Some s \<Longrightarrow> session_id s = sid"
  shows "res_inv (snd (add_session junk k sid r))"
proof -
  let ?r = "snd (add_session junk k sid r)"
  have dom: "dom (sessions_map r) \<subseteq> dom (sessions_map ?r)" "sid \<in> dom (sessions_map ?r)" by auto
  have "proc_ok (sessions_map ?r) k' p" if "get_process k' ?r = Some p" for k' p
  proof (cases "k' = k")
    case True
    with that obtain q where q: "get_process k r = Some q" "p = q\<lparr>proc_sessions := proc_sessions q @ [sid]\<rparr>"
      by auto
    have "set (proc_sessions q) \<subseteq> dom (sessions_map ?r)" using assms(3) [OF q(1)] dom(1) by blast
    with assms(3) [OF q(1)] dom(2) q(2) True show ?thesis by (simp add: proc_ok_def del: add_session_simps)
  next
    case False
    with that assms(2) dom(1) show ?thesis by (auto intro: proc_ok_mono simp del: add_session_simps(3))
  qed
  moreover have "session_id s = sid'" if "sessions_map ?r sid' = Some s" for sid' s
    using that assms(4) by (auto simp: Session_init_def split: if_splits)
  ultimately show ?thesis using assms(1) unfolding res_inv_lookup by simp
qed

lemma free_then_add_inv:
  assumes inv: "res_inv r" and "get_free_process pid r = (Some k, r1)"
  shows "res_inv (snd (add_session junk k sid r1))"
  using assms(2)
proof (cases rule: get_free_process_cases)
  case (found k' p)
  have k': "k' = k" using found by simp
  have gp: "get_process k r = Some p" using found inv k' by (simp add: res_inv_def get_process_def)
  with inv have ok: "proc_ok (sessions_map r) k p" by (simp add: res_inv_lookup)
  have s: "sint (allocated_sessions p + 1) = sint (allocated_sessions p) + 1"
    using found(3) by (rule sint_succ16)
  show ?thesis
  proof (rule add_session_inv)
    show "distinct (map fst (processes r1))" using inv found by (simp add: res_inv_def)
    show "proc_ok (sessions_map r1) k2 q" if "k2 \<noteq> k" "get_process k2 r1 = Some q" for k2 q
      using that inv found k' by (auto simp: res_inv_lookup)
    show "cp_process_id q = k \<and> sint (allocated_sessions q) = int (length (proc_sessions q)) + 1 \<and>
      sint (allocated_sessions q) \<le> sint (cp_max_sessions q) \<and> set (proc_sessions q) \<subseteq> dom (sessions_map r1)"
      if "get_process k r1 = Some q" for q
      using that found k' gp ok s by (auto simp: proc_ok_def)
    show "session_id s = sid'" if "sessions_map r1 sid' = Some s" for sid' s
      using that inv found by (simp add: res_inv_def)
  qed
qed simp

lemma remove_session_inv:
  assumes inv: "res_inv r" shows "res_inv (remove_session k sid r)"
proof (cases "get_process k r")
  case (Some p)
  let ?P = "\<lambda>q. map_option session_id (sessions_map r q) = Some sid"
  let ?i = "find_pos ?P (proc_sessions p)"
  have ok: "proc_ok (sessions_map r) k p" using inv Some by (simp add: res_inv_lookup)
  show ?thesis
  proof (cases "?i = length (proc_sessions p)")
    case True
    with Some inv show ?thesis by (simp add: remove_session_def)
  next
    case False
    then have i: "?i < length (proc_sessions p)" using find_pos_le le_neq_implies_less by blast
    then have "0 < length (proc_sessions p)" by (rule order_le_less_trans [rotated]) simp
    then have "0 < sint (allocated_sessions p)" using ok by (simp add: proc_ok_def)
    then have s: "sint (allocated_sessions p - 1) = sint (allocated_sessions p) - 1" by (rule sint_pred16)
    have sub: "set (take ?i (proc_sessions p)) \<subseteq> dom (sessions_map r)"
      "set (drop (Suc ?i) (proc_sessions p)) \<subseteq> dom (sessions_map r)"
      using ok unfolding proc_ok_def by (auto dest!: in_set_takeD in_set_dropD)
    have "res_inv (update_process k (\<lambda>p. p\<lparr>allocated_sessions := allocated_sessions p - 1,
        proc_sessions := take ?i (proc_sessions p) @ drop (Suc ?i) (proc_sessions p)\<rparr>) r)"
      using ok i s sub by (intro res_inv_update_process inv) (auto simp: Some proc_ok_def)
    with Some False show ?thesis by (simp add: remove_session_def Let_def)
  qed
qed (use inv in \<open>simp add: remove_session_def\<close>)

lemma map_of_place:
  assumes "hash_order place" and "distinct (map fst xs)" and "k \<notin> fst ` set xs"
  shows "distinct (map fst (place (k, p) xs)) \<and> map_of (place (k, p) xs) = (map_of xs)(k \<mapsto> p)"
proof -
  have ms: "mset (place (k, p) xs) = mset ((k, p) # xs)"
    using assms(1) by (simp add: hash_order_def)
  then have "mset (map fst (place (k, p) xs)) = mset (map fst ((k, p) # xs))" by (metis mset_map)
  moreover have d: "distinct (map fst ((k, p) # xs))" using assms by simp
  ultimately have d': "distinct (map fst (place (k, p) xs))" by (metis mset_eq_imp_distinct_iff)
  moreover have "set (place (k, p) xs) = set ((k, p) # xs)" using ms by (rule mset_eq_setD)
  ultimately have "map_of (place (k, p) xs) = map_of ((k, p) # xs)"
    using d by (simp only: map_of_inject_set)
  with d' show ?thesis by simp
qed

lemma add_process_simps:
  assumes "hash_order place" and "distinct (map fst (processes r))"
  shows "fst (add_process place p r) = cp_process_id p"
    and "distinct (map fst (processes (snd (add_process place p r))))"
    and "sessions_map (snd (add_process place p r)) = sessions_map r"
    and "get_process k (snd (add_process place p r)) =
      (if k = cp_process_id p
       then Some (p\<lparr>busy := (case get_process k r of None \<Rightarrow> False | Some q \<Rightarrow> busy q)\<rparr>) else get_process k r)"
proof -
  let ?k = "cp_process_id p"
  have "?k \<notin> fst ` set (processes r)" if "get_process ?k r = None"
    using that by (simp add: get_process_def map_of_eq_None_iff)
  note pl = map_of_place [OF assms this, of "CProcess_init 0"]
  have gp: "get_process k' (r\<lparr>processes := place (?k, CProcess_init 0) (processes r)\<rparr>) =
      (if k' = ?k then Some (CProcess_init 0) else get_process k' r)" if "get_process ?k r = None" for k'
    using pl [OF that] by (simp add: get_process_def)
  show "fst (add_process place p r) = ?k" "sessions_map (snd (add_process place p r)) = sessions_map r"
    by (simp_all add: add_process_def Let_def)
  show "distinct (map fst (processes (snd (add_process place p r))))"
    using pl assms(2) by (simp add: add_process_def Let_def)
  show "get_process k (snd (add_process place p r)) =
      (if k = ?k then Some (p\<lparr>busy := (case get_process k r of None \<Rightarrow> False | Some q \<Rightarrow> busy q)\<rparr>) else get_process k r)"
    using gp by (cases "get_process ?k r") (auto simp: add_process_def Let_def CProcess_assign_def CProcess_init_def)
qed

lemma new_process_inv:
  assumes inv: "res_inv r" and place: "hash_order place"
    and "sint (allocated_sessions p) = 1" and "1 \<le> sint (cp_max_sessions p)" and "proc_sessions p = []"
  shows "res_inv (snd (add_session junk (cp_process_id p) sid (snd (add_process place p r))))"
proof (rule add_session_inv)
  have d: "distinct (map fst (processes r))" using inv by (simp add: res_inv_def)
  note ap = add_process_simps [OF place d, where p = p]
  show "distinct (map fst (processes (snd (add_process place p r))))" by (rule ap(2))
  show "proc_ok (sessions_map (snd (add_process place p r))) k q"
    if "k \<noteq> cp_process_id p" "get_process k (snd (add_process place p r)) = Some q" for k q
    using that inv by (simp add: ap res_inv_lookup)
  show "cp_process_id q = cp_process_id p \<and> sint (allocated_sessions q) = int (length (proc_sessions q)) + 1 \<and>
      sint (allocated_sessions q) \<le> sint (cp_max_sessions q) \<and>
      set (proc_sessions q) \<subseteq> dom (sessions_map (snd (add_process place p r)))"
    if "get_process (cp_process_id p) (snd (add_process place p r)) = Some q" for q
    using that assms(3-5) by (auto simp: ap)
  show "session_id s = sid'" if "sessions_map (snd (add_process place p r)) sid' = Some s" for sid' s
    using that inv by (simp add: ap res_inv_def)
qed

end
