(* ===== verification/Control_Worker.thy ===== *)
theory Control_Worker
  imports Common_Messages Resources
begin

text \<open>
  The control plane's worker: \<open>src/system/control-plane/worker.hpp\<close>, \<open>worker.cpp\<close>,
  \<open>backend.hpp\<close>, \<open>backend.cpp\<close>, the routes of \<open>http.cpp\<close> and the event loop of
  \<open>server.cpp\<close>. Redis is a parameter (\<open>redis\<close>), as are the UUIDs, the JSON and multipart
  parsers of the HTTP library and the place a hash map gives to a new element. What is written to
  the sockets is recorded in order in \<open>io\<close>; the state of the epoll instance says which
  connections are registered and which of them are armed.
\<close>

section \<open>Redis\<close>

record 'r redis =
  rget :: "'r \<Rightarrow> string \<Rightarrow> string option"
  rset :: "'r \<Rightarrow> string \<Rightarrow> string \<Rightarrow> 'r"
  sismember :: "'r \<Rightarrow> string \<Rightarrow> string \<Rightarrow> bool"
  sadd :: "'r \<Rightarrow> string \<Rightarrow> string \<Rightarrow> 'r"
  srem :: "'r \<Rightarrow> string \<Rightarrow> string \<Rightarrow> int \<times> 'r"

definition process_key :: "string \<Rightarrow> string" where
  "process_key k = ''PROCESS_'' @ k"

definition session_key :: "string \<Rightarrow> string" where
  "session_key k = ''SESSION_'' @ k"

definition alive_key :: "string \<Rightarrow> string" where
  "alive_key k = ''SESSIONS_ALIVE_'' @ k"

definition swapped_key :: "string \<Rightarrow> string" where
  "swapped_key k = ''SESSIONS_SWAPPED_'' @ k"

definition string_key :: "string \<Rightarrow> bool" where
  "string_key k \<longleftrightarrow> take 8 k = ''PROCESS_'' \<or> take 8 k = ''SESSION_''"

definition set_key :: "string \<Rightarrow> bool" where
  "set_key k \<longleftrightarrow> take 9 k = ''SESSIONS_''"

text \<open>
  What the commands do in a database whose keys hold strings and sets as this program uses them:
  \<open>strs\<close> are the strings, \<open>members\<close> the sets.
\<close>

definition redis_ok :: "'r redis \<Rightarrow> ('r \<Rightarrow> string \<rightharpoonup> string) \<Rightarrow> ('r \<Rightarrow> string \<Rightarrow> string set) \<Rightarrow> bool" where
  "redis_ok api strs members \<longleftrightarrow>
     (\<forall>s k v. string_key k \<longrightarrow> rget api s k = strs s k \<and>
        strs (rset api s k v) = (strs s)(k \<mapsto> v) \<and> members (rset api s k v) = members s) \<and>
     (\<forall>s k x. set_key k \<longrightarrow> sismember api s k x = (x \<in> members s k) \<and>
        members (sadd api s k x) = (members s)(k := insert x (members s k)) \<and> strs (sadd api s k x) = strs s \<and>
        fst (srem api s k x) = (if x \<in> members s k then 1 else 0) \<and>
        members (snd (srem api s k x)) = (members s)(k := members s k - {x}) \<and> strs (snd (srem api s k x)) = strs s)"

section \<open>State\<close>

record LocalBackend =
  controller_ip_address :: string
  controller_port :: i32
  backend_connection :: socket
  backend_req :: bytes

datatype io = Write nat bytes | Close nat

record 'r control =
  redis_st :: 'r
  resources :: Resources
  backend :: "LocalBackend option"
  io :: "io list"
  epoll :: "nat \<rightharpoonup> bool"

definition sock_write :: "socket \<Rightarrow> bytes \<Rightarrow> 'r control \<Rightarrow> 'r control" where
  "sock_write s bs c = (case s of None \<Rightarrow> c | Some h \<Rightarrow> c\<lparr>io := io c @ [Write h bs]\<rparr>)"

definition sock_close :: "socket \<Rightarrow> 'r control \<Rightarrow> 'r control" where
  "sock_close s c =
     (case s of None \<Rightarrow> c | Some h \<Rightarrow> c\<lparr>io := io c @ [Close h], epoll := (epoll c)(h := None)\<rparr>)"

datatype fault = Throws cp_error | Null_Backend

section \<open>The backend\<close>

text \<open>
  \<open>LocalBackend::create\<close>: \<open>connect\<close> is what connecting to an address and port gives, \<open>junk\<close> the
  contents of the uninitialised variables.
\<close>

definition LocalBackend_create :: "(string \<Rightarrow> i32 \<Rightarrow> socket) \<Rightarrow> i32 \<Rightarrow> string \<Rightarrow> LocalBackend option" where
  "LocalBackend_create connect junk local_server_addr =
     (let (ip_address, port_str) = split local_server_addr (CHR '':'');
          port = from_chars32 port_str junk
      in case connect ip_address port of
           None \<Rightarrow> None
         | Some h \<Rightarrow> Some \<lparr>controller_ip_address = '''', controller_port = junk, backend_connection = Some h,
                           backend_req = Request_init\<rparr>)"

datatype FunctionBackendType = LOCAL | AWS

definition Backend_construct ::
  "(string \<Rightarrow> i32 \<Rightarrow> socket) \<Rightarrow> i32 \<Rightarrow> FunctionBackendType \<Rightarrow> string \<Rightarrow> string \<Rightarrow> i32 \<Rightarrow> LocalBackend option" where
  "Backend_construct connect junk kind local_server ip port =
     (let p = (if kind = LOCAL then LocalBackend_create connect junk local_server else None)
      in map_option (\<lambda>b. b\<lparr>controller_ip_address := ip, controller_port := port\<rparr>) p)"

definition LocalBackend_allocate_process :: "string \<Rightarrow> i16 \<Rightarrow> 'r control \<Rightarrow> fault + 'r control" where
  "LocalBackend_allocate_process pid n c =
     (case backend c of None \<Rightarrow> Inl Null_Backend
      | Some b \<Rightarrow>
          (let (sz, req) = ProcessRequest_fill n (controller_port b) (controller_ip_address b) pid (backend_req b)
           in Inr (sock_write (backend_connection b) (take sz req) (c\<lparr>backend := Some (b\<lparr>backend_req := req\<rparr>)\<rparr>))))"

section \<open>Requests of clients\<close>

definition process_allocation :: "'r redis \<Rightarrow> string \<Rightarrow> string \<Rightarrow> 'r control \<Rightarrow> string \<times> 'r control" where
  "process_allocation api uuid process_name c =
     (let k = take 16 uuid in (k, c\<lparr>redis_st := rset api (redis_st c) (process_key k) process_name\<rparr>))"

text \<open>
  The first half of \<open>process_client\<close>: which session, with which limits, or the reason for refusing.
\<close>

definition client_session ::
  "'r redis \<Rightarrow> string \<Rightarrow> string \<Rightarrow> string \<Rightarrow> i32 \<Rightarrow> i32 \<Rightarrow> 'r \<Rightarrow> (string + string \<times> i32 \<times> i32 \<times> bool) \<times> 'r" where
  "client_session api uuid pid sid mf ms rs =
     (if sid \<noteq> '''' then
        if sismember api rs (alive_key pid) sid then (Inl ''Session is already alive!'', rs)
        else
          let (n, rs) = srem api rs (swapped_key pid) sid in
          if n = 1 then
            case rget api rs (session_key sid) of
              None \<Rightarrow> (Inl ''Couldn't locate session details!'', rs)
            | Some v \<Rightarrow>
                (let (mem, func) = split v (CHR '';'');
                     mf = from_chars32 func mf;
                     ms = from_chars32 mem ms;
                     ms = ms * (-1)
                 in (Inr (sid, mf, ms, True), rs))
          else (Inl ''Session ID unknown!'', rs)
      else
        let sid = take 16 uuid
        in (Inr (sid, mf, ms, False),
            rset api rs (session_key sid) (to_string32 ms @ '';'' @ to_string32 mf)))"

text \<open>Lines 119 to 126 and again 170 to 177: the session object and its first invocation.\<close>

definition setup_session ::
  "i32 \<times> i32 \<times> bool \<Rightarrow> string \<Rightarrow> string \<Rightarrow> i32 \<Rightarrow> i32 \<Rightarrow> bool \<Rightarrow> PendingAllocation \<Rightarrow> Resources \<Rightarrow> string \<times> Resources" where
  "setup_session junk k sid mf ms sw alloc r =
     (let (s, r) = add_session junk k sid r
      in (s, update_session s (\<lambda>x. x\<lparr>max_functions := mf, ses_memory_size := ms, swap_in := sw,
               allocations := (if function_name alloc \<noteq> '''' then allocations x @ [alloc] else allocations x)\<rparr>) r))"

definition send_session_request :: "string \<Rightarrow> socket \<Rightarrow> bytes \<Rightarrow> 'r control \<Rightarrow> bytes \<times> 'r control" where
  "send_session_request sid conn req c =
     (case get_session sid (resources c) of None \<Rightarrow> (req, c)
      | Some s \<Rightarrow>
          (let (sz, req) = SessionRequest_fill (session_id s) (max_functions s) (ses_memory_size s) req;
               c = sock_write conn (take sz req) c
           in (req, c\<lparr>resources := update_session sid (\<lambda>s. s\<lparr>allocated := True\<rparr>) (resources c)\<rparr>)))"

definition allocate_in_process ::
  "i32 \<times> i32 \<times> bool \<Rightarrow> string \<Rightarrow> string \<Rightarrow> i32 \<Rightarrow> i32 \<Rightarrow> bool \<Rightarrow> PendingAllocation \<Rightarrow> 'r control \<Rightarrow> 'r control" where
  "allocate_in_process junk k sid mf ms sw alloc c =
     (let (s, r) = setup_session junk k sid mf ms sw alloc (resources c);
          conn = (case get_process k r of None \<Rightarrow> None | Some p \<Rightarrow> connection p)
      in snd (send_session_request s conn Request_init (c\<lparr>resources := r\<rparr>)))"

definition max_sessions_per_process :: i16 where
  "max_sessions_per_process = 4"

definition allocate_new_process ::
  "placement \<Rightarrow> i32 \<times> i32 \<times> bool \<Rightarrow> string \<Rightarrow> string \<Rightarrow> string \<Rightarrow> i32 \<Rightarrow> i32 \<Rightarrow> bool \<Rightarrow> PendingAllocation \<Rightarrow>
     'r control \<Rightarrow> fault + 'r control" where
  "allocate_new_process place junk uuid pid sid mf ms sw alloc c =
     (let k = take 16 uuid;
          p = (CProcess_init max_sessions_per_process)\<lparr>cp_process_id := k, global_process_id := pid,
                allocated_sessions := 1\<rparr>;
          (ref, r) = add_process place p (resources c);
          (s, r) = setup_session junk ref sid mf ms sw alloc r
      in LocalBackend_allocate_process k max_sessions_per_process (c\<lparr>resources := r\<rparr>))"

text \<open>
  \<open>process_client\<close>. The inputs besides its arguments: where the hash map puts a new element, the
  contents of uninitialised memory, and the UUIDs drawn for a new session and a new process.
\<close>

record client_env =
  ce_place :: placement
  ce_junk :: "i32 \<times> i32 \<times> bool"
  ce_session_uuid :: string
  ce_process_uuid :: string

definition process_client ::
  "'r redis \<Rightarrow> client_env \<Rightarrow> string \<Rightarrow> string \<Rightarrow> string \<Rightarrow> string \<Rightarrow> i32 \<Rightarrow> i32 \<Rightarrow> string \<Rightarrow> 'r control \<Rightarrow>
     fault + (int \<times> string) \<times> 'r control" where
  "process_client api env pid sid fname fid mf ms pl c =
     (case rget api (redis_st c) (process_key pid) of
        None \<Rightarrow> Inr ((400, ''Process doesn't exist!''), c)
      | Some process_name \<Rightarrow>
          (let (res, rs) = client_session api (ce_session_uuid env) pid sid mf ms (redis_st c);
               c = c\<lparr>redis_st := rs\<rparr>
           in case res of
                Inl msg \<Rightarrow> Inr ((400, msg), c)
              | Inr (sid, mf, ms, sw) \<Rightarrow>
                  (let (free, r) = get_free_process pid (resources c);
                       c = c\<lparr>resources := r\<rparr>;
                       alloc = \<lparr>payload = pl, function_name = fname, function_id = fid\<rparr>;
                       placed = (case free of
                           Some k \<Rightarrow> Inr (allocate_in_process (ce_junk env) k sid mf ms sw alloc c)
                         | None \<Rightarrow> allocate_new_process (ce_place env) (ce_junk env) (ce_process_uuid env)
                                     pid sid mf ms sw alloc c)
                   in case placed of
                        Inl f \<Rightarrow> Inl f
                      | Inr c \<Rightarrow> Inr ((200, sid), c\<lparr>redis_st := sadd api (redis_st c) (alive_key pid) sid\<rparr>))))"

section \<open>Connections of processes and sessions\<close>

text \<open>\<open>epoll_ctl\<close> with \<open>EPOLL_CTL_ADD\<close> and \<open>EPOLL_CTL_MOD\<close>; whether the call succeeds is an input.\<close>

definition add_epoll :: "bool \<Rightarrow> nat \<Rightarrow> 'r control \<Rightarrow> bool \<times> 'r control" where
  "add_epoll ok h c = (if ok then (True, c\<lparr>epoll := (epoll c)(h \<mapsto> True)\<rparr>) else (False, c))"

definition mod_epoll :: "bool \<Rightarrow> nat \<Rightarrow> 'r control \<Rightarrow> bool \<times> 'r control" where
  "mod_epoll ok h c =
     (if ok \<and> epoll c h \<noteq> None then (True, c\<lparr>epoll := (epoll c)(h \<mapsto> True)\<rparr>) else (False, c))"

text \<open>The loop over the sessions of a process that has just connected.\<close>

fun send_requests :: "string list \<Rightarrow> socket \<Rightarrow> bytes \<Rightarrow> 'r control \<Rightarrow> 'r control" where
  "send_requests [] conn req c = c"
| "send_requests (sid # sids) conn req c =
     (let (req, c) = (case get_session sid (resources c) of
            None \<Rightarrow> (req, c)
          | Some s \<Rightarrow> if \<not> allocated s then send_session_request sid conn req c else (req, c))
      in send_requests sids conn req c)"

definition process_process :: "bool \<Rightarrow> nat \<Rightarrow> bytes \<Rightarrow> 'r control \<Rightarrow> fault + 'r control" where
  "process_process ctl_ok conn buf c =
     (let pid = ProcessMessage_process_id buf in
      case get_process pid (resources c) of
        None \<Rightarrow> Inr (sock_close (Some conn) c)
      | Some p \<Rightarrow>
          (let c = sock_close (connection p) c;
               c = c\<lparr>resources := update_process pid (\<lambda>p. p\<lparr>connection := Some conn\<rparr>) (resources c)\<rparr>;
               c = send_requests (proc_sessions p) (Some conn) Request_init c;
               (added, c) = add_epoll ctl_ok conn c
           in if \<not> added then
                let c = sock_close (Some conn) c;
                    c = c\<lparr>resources := update_process pid (\<lambda>p. p\<lparr>connection := None\<rparr>) (resources c)\<rparr>
                in case remove_process pid (resources c) of
                     Inl e \<Rightarrow> Inl (Throws e)
                   | Inr r \<Rightarrow> Inr (c\<lparr>resources := r\<rparr>)
              else Inr c))"

text \<open>The loop over the pending invocations of a session: header and payload of each.\<close>

fun send_invocations :: "PendingAllocation list \<Rightarrow> socket \<Rightarrow> bytes \<Rightarrow> 'r control \<Rightarrow> 'r control" where
  "send_invocations [] conn req c = c"
| "send_invocations (item # items) conn req c =
     (let payload_size = length (payload item);
          (_, req) = FunctionRequest_fill (function_name item) (function_id item) (word_of_nat payload_size) req;
          c = sock_write conn (take Request_EXPECTED_LENGTH req) c;
          c = sock_write conn (take payload_size (to_bytes (payload item))) c
      in send_invocations items conn req c)"

definition process_session :: "nat \<Rightarrow> bytes \<Rightarrow> 'r control \<Rightarrow> 'r control" where
  "process_session conn buf c =
     (let sid = SessionMessage_session_id buf in
      case get_session sid (resources c) of
        None \<Rightarrow> sock_close (Some conn) c
      | Some s \<Rightarrow>
          (let c = sock_close (ses_connection s) c;
               c = (if length (allocations s) = 0
                    then let (_, req) = FunctionRequest_fill '''' '''' 0 Request_init
                         in sock_write (Some conn) (take Request_EXPECTED_LENGTH req) c
                    else send_invocations (allocations s) (Some conn) Request_init c);
               c = sock_close (Some conn) c
           in c\<lparr>resources := update_session sid (\<lambda>s. s\<lparr>ses_connection := None, allocations := []\<rparr>) (resources c)\<rparr>))"

definition handle_process_closure :: "string \<Rightarrow> 'r control \<Rightarrow> fault + 'r control" where
  "handle_process_closure k c = Inl (Throws not_implemented)"

definition handle_session_closure :: "'r redis \<Rightarrow> string \<Rightarrow> i32 \<Rightarrow> string \<Rightarrow> 'r control \<Rightarrow> 'r control" where
  "handle_session_closure api k memory_size sid c =
     (let c = c\<lparr>resources := remove_session k sid (resources c)\<rparr> in
      case get_process k (resources c) of None \<Rightarrow> c
      | Some p \<Rightarrow>
          (let rs = snd (srem api (redis_st c) (alive_key (cp_process_id p)) sid);
               rs = sadd api rs (swapped_key (global_process_id p)) sid;
               rs = snd (srem api rs (alive_key (global_process_id p)) sid)
           in c\<lparr>redis_st := rs\<rparr>))"

text \<open>
  \<open>handle_message\<close>: the 24 bytes of the buffer, of which \<open>recv_data\<close> were received. The
  connection is re-armed at the end, and only there.
\<close>

definition handle_message :: "'r redis \<Rightarrow> bool \<Rightarrow> string \<Rightarrow> bytes \<Rightarrow> int \<Rightarrow> 'r control \<Rightarrow> fault + 'r control" where
  "handle_message api ctl_ok k buffer recv_data c =
     (if recv_data = 0 then handle_process_closure k c
      else if recv_data = -1 then handle_process_closure k c
      else case Header_parse buffer of
        None \<Rightarrow> Inr c
      | Some msg \<Rightarrow>
          (let c = (case msg of
                 SessionStatusMessage buf \<Rightarrow>
                   (if SessionStatusMessage_session_status buf = -1
                    then handle_session_closure api k (SessionStatusMessage_memory_size buf)
                           (SessionStatusMessage_session_id buf) c
                    else c)
               | _ \<Rightarrow> c);
               conn = (case get_process k (resources c) of None \<Rightarrow> None | Some p \<Rightarrow> connection p);
               (armed, c) = (case conn of None \<Rightarrow> (False, c) | Some h \<Rightarrow> mod_epoll ctl_ok h c)
           in if \<not> armed then
                let c = sock_close conn c;
                    c = c\<lparr>resources := update_process k (\<lambda>p. p\<lparr>connection := None\<rparr>) (resources c)\<rparr>
                in case remove_process k (resources c) of
                     Inl e \<Rightarrow> Inl (Throws e)
                   | Inr r \<Rightarrow> Inr (c\<lparr>resources := r\<rparr>)
              else Inr c))"

section \<open>Workers\<close>

record Worker =
  header :: bytes
  payload_buffer :: "int option"
  payload_buffer_len :: int

definition Worker_init :: "bytes \<Rightarrow> Worker" where
  "Worker_init junk = \<lparr>header = junk, payload_buffer = Some 1024, payload_buffer_len = 1024\<rparr>"

definition Worker_resize :: "int \<Rightarrow> Worker \<Rightarrow> Worker" where
  "Worker_resize n w =
     (if payload_buffer_len w < n \<or> payload_buffer w = None
      then w\<lparr>payload_buffer_len := n, payload_buffer := Some n\<rparr> else w)"

text \<open>One worker per thread, created at its first use; \<open>junk\<close> is its uninitialised header.\<close>

definition Workers_get :: "bytes \<Rightarrow> nat \<Rightarrow> (nat \<rightharpoonup> Worker) \<Rightarrow> Worker \<times> (nat \<rightharpoonup> Worker)" where
  "Workers_get junk thread_id ws =
     (case ws thread_id of
        Some w \<Rightarrow> (w, ws)
      | None \<Rightarrow> (let w = Worker_init junk in (w, ws(thread_id \<mapsto> w))))"

text \<open>
  \<open>Worker::worker\<close>: \<open>bs\<close> are the bytes \<open>read_n\<close> stored at the beginning of the worker's header.
\<close>

definition Worker_worker ::
  "bool \<Rightarrow> bytes \<Rightarrow> nat \<Rightarrow> nat \<Rightarrow> int \<Rightarrow> bytes \<Rightarrow> (nat \<rightharpoonup> Worker) \<times> 'r control \<Rightarrow>
     fault + (nat \<rightharpoonup> Worker) \<times> 'r control" where
  "Worker_worker ctl_ok junk thread_id conn recv_data bs st =
     (let (ws, c) = st;
          (w, ws) = Workers_get junk thread_id ws;
          w = w\<lparr>header := put 0 bs (header w)\<rparr>;
          ws = ws(thread_id \<mapsto> w)
      in if recv_data = 0 then Inr (ws, sock_close (Some conn) c)
         else if recv_data = -1 then Inr (ws, sock_close (Some conn) c)
         else case Header_parse (header w) of
           None \<Rightarrow> Inr (ws, sock_close (Some conn) c)
         | Some (ClientMessage buf) \<Rightarrow> Inr (ws, sock_close (Some conn) c)
         | Some (ProcessMessage buf) \<Rightarrow>
             (case process_process ctl_ok conn buf c of Inl f \<Rightarrow> Inl f | Inr c \<Rightarrow> Inr (ws, c))
         | Some (SessionMessage buf) \<Rightarrow> Inr (ws, process_session conn buf c)
         | Some (SessionStatusMessage buf) \<Rightarrow> Inr (ws, sock_close (Some conn) c))"

section \<open>HTTP routes\<close>

text \<open>
  What the routes use of the HTTP library: a JSON object with its string and integer members,
  \<open>None\<close> where the access throws, and the parts of a multipart body. Every exception becomes
  the answer 400.
\<close>

record json =
  js :: "string \<Rightarrow> string option"
  ji :: "string \<Rightarrow> int option"

type_synonym 'a http = "fault + (int \<times> string) \<times> 'a"

definition http_add_process ::
  "'r redis \<Rightarrow> (string \<Rightarrow> json) \<Rightarrow> string \<Rightarrow> string \<Rightarrow> 'r control \<Rightarrow> (int \<times> string) \<times> 'r control" where
  "http_add_process api load uuid body c =
     (if length body = 0 then ((400, ''Error''), c)
      else case js (load body) ''process-name'' of
        None \<Rightarrow> ((400, ''Error''), c)
      | Some name \<Rightarrow> (let (k, c) = process_allocation api uuid name c in ((200, k), c)))"

definition session_params :: "json \<Rightarrow> string \<Rightarrow> (i32 \<times> i32) option" where
  "session_params x sid =
     (if sid = '''' then
        case (ji x ''max-functions'', ji x ''memory-size'') of
          (Some mf, Some ms) \<Rightarrow> Some (word_of_int mf, word_of_int ms)
        | _ \<Rightarrow> None
      else Some (0, 0))"

definition http_add_session ::
  "'r redis \<Rightarrow> (string \<Rightarrow> json) \<Rightarrow> client_env \<Rightarrow> string \<Rightarrow> 'r control \<Rightarrow> 'r control http" where
  "http_add_session api load env body c =
     (if length body = 0 then Inr ((400, ''Error''), c)
      else let x = load body in
        case (js x ''session-id'', js x ''process-id'') of
          (Some sid, Some pid) \<Rightarrow>
            (case session_params x sid of
               None \<Rightarrow> Inr ((400, ''Error''), c)
             | Some (mf, ms) \<Rightarrow> process_client api env pid sid '''' '''' mf ms '''' c)
        | _ \<Rightarrow> Inr ((400, ''Error''), c))"

definition http_invoke ::
  "'r redis \<Rightarrow> (string \<Rightarrow> json) \<Rightarrow> (string \<Rightarrow> string list) \<Rightarrow> client_env \<Rightarrow> string \<Rightarrow> 'r control \<Rightarrow> 'r control http" where
  "http_invoke api load multipart env body c =
     (if length body = 0 then Inr ((400, ''Error''), c)
      else case multipart body of
        [part0, part1] \<Rightarrow>
          (let x = load part0 in
           case (js x ''function-name'', js x ''function-id'', js x ''session-id'', js x ''process-id'') of
             (Some fname, Some fid, Some sid, Some pid) \<Rightarrow>
               (case session_params x sid of
                  None \<Rightarrow> Inr ((400, ''Error''), c)
                | Some (mf, ms) \<Rightarrow> process_client api env pid sid fname fid mf ms part1 c)
           | _ \<Rightarrow> Inr ((400, ''Error''), c))
      | _ \<Rightarrow> Inr ((400, ''Error''), c))"

section \<open>Every handler keeps the invariant of the tables\<close>

lemma sock_write_resources [simp]:
  "resources (sock_write s bs c) = resources c" "redis_st (sock_write s bs c) = redis_st c"
  "epoll (sock_write s bs c) = epoll c" "backend (sock_write s bs c) = backend c"
  by (simp_all add: sock_write_def split: option.splits)

lemma sock_close_resources [simp]:
  "resources (sock_close s c) = resources c" "redis_st (sock_close s c) = redis_st c"
  "backend (sock_close s c) = backend c"
  by (simp_all add: sock_close_def split: option.splits)

lemma add_epoll_resources [simp]: "resources (snd (add_epoll ok h c)) = resources c"
  by (simp add: add_epoll_def)

lemma mod_epoll_resources [simp]: "resources (snd (mod_epoll ok h c)) = resources c"
  by (simp add: mod_epoll_def)

lemma setup_session_inv:
  "res_inv (snd (add_session junk k sid r)) \<Longrightarrow> res_inv (snd (setup_session junk k sid mf ms sw alloc r))"
  by (auto simp: setup_session_def split: prod.splits intro: res_inv_update_session)

lemma send_session_request_inv:
  "res_inv (resources c) \<Longrightarrow> res_inv (resources (snd (send_session_request sid conn req c)))"
  by (auto simp: send_session_request_def split: prod.splits option.splits intro: res_inv_update_session)

lemma allocate_in_process_inv:
  assumes "res_inv r" and "get_free_process pid r = (Some k, resources c)"
  shows "res_inv (resources (allocate_in_process junk k sid mf ms sw alloc c))"
proof -
  have "res_inv (snd (setup_session junk k sid mf ms sw alloc (resources c)))"
    by (rule setup_session_inv [OF free_then_add_inv [OF assms]])
  then show ?thesis
    by (auto simp: allocate_in_process_def split: prod.splits intro!: send_session_request_inv)
qed

lemma allocate_process_resources:
  "LocalBackend_allocate_process k n c = Inr c' \<Longrightarrow> resources c' = resources c \<and> redis_st c' = redis_st c"
  by (auto simp: LocalBackend_allocate_process_def Let_def split: option.splits prod.splits)

lemma allocate_new_process_inv:
  assumes "res_inv (resources c)" and "hash_order place"
    and "allocate_new_process place junk uuid pid sid mf ms sw alloc c = Inr c'"
  shows "res_inv (resources c')"
proof -
  let ?p = "(CProcess_init max_sessions_per_process)\<lparr>cp_process_id := take 16 uuid, global_process_id := pid,
      allocated_sessions := 1\<rparr>"
  have fst_add: "fst (add_process place ?p (resources c)) = cp_process_id ?p"
    using assms(1,2) by (intro add_process_simps) (simp_all add: res_inv_def)
  have "res_inv (snd (add_session junk (cp_process_id ?p) sid (snd (add_process place ?p (resources c)))))"
    using assms(1,2) by (intro new_process_inv) (simp_all add: CProcess_init_def max_sessions_per_process_def)
  from setup_session_inv [OF this] have
    "res_inv (snd (setup_session junk (cp_process_id ?p) sid mf ms sw alloc (snd (add_process place ?p (resources c)))))" .
  then show ?thesis
    using assms(3) fst_add
    by (auto simp: allocate_new_process_def Let_def dest!: allocate_process_resources split: prod.splits)
qed

text \<open>The shape of a successful or refused request.\<close>

lemma process_client_cases:
  assumes "process_client api env pid sid fname fid mf ms pl c = Inr ((code, msg), c')"
  obtains
    (no_process) "rget api (redis_st c) (process_key pid) = None" "code = 400" "c' = c"
      "msg = ''Process doesn't exist!''"
  | (refused) rs where "rget api (redis_st c) (process_key pid) \<noteq> None" "code = 400" "c' = c\<lparr>redis_st := rs\<rparr>"
      "client_session api (ce_session_uuid env) pid sid mf ms (redis_st c) = (Inl msg, rs)"
  | (existing) mf' ms' sw rs k r c1 where "rget api (redis_st c) (process_key pid) \<noteq> None" "code = 200"
      "client_session api (ce_session_uuid env) pid sid mf ms (redis_st c) = (Inr (msg, mf', ms', sw), rs)"
      "get_free_process pid (resources c) = (Some k, r)"
      "c1 = allocate_in_process (ce_junk env) k msg mf' ms' sw
         \<lparr>payload = pl, function_name = fname, function_id = fid\<rparr> (c\<lparr>redis_st := rs, resources := r\<rparr>)"
      "c' = c1\<lparr>redis_st := sadd api (redis_st c1) (alive_key pid) msg\<rparr>"
  | (fresh) mf' ms' sw rs c1 where "rget api (redis_st c) (process_key pid) \<noteq> None" "code = 200"
      "client_session api (ce_session_uuid env) pid sid mf ms (redis_st c) = (Inr (msg, mf', ms', sw), rs)"
      "get_free_process pid (resources c) = (None, resources c)"
      "allocate_new_process (ce_place env) (ce_junk env) (ce_process_uuid env) pid msg mf' ms' sw
         \<lparr>payload = pl, function_name = fname, function_id = fid\<rparr> (c\<lparr>redis_st := rs\<rparr>) = Inr c1"
      "c' = c1\<lparr>redis_st := sadd api (redis_st c1) (alive_key pid) msg\<rparr>"
proof (cases "rget api (redis_st c) (process_key pid)")
  case None
  with assms show ?thesis by (intro no_process) (simp_all add: process_client_def)
next
  case (Some name)
  obtain res rs where cs: "client_session api (ce_session_uuid env) pid sid mf ms (redis_st c) = (res, rs)" by fastforce
  obtain free r where fr: "get_free_process pid (resources c) = (free, r)" by fastforce
  show ?thesis
  proof (cases res)
    case (Inl m)
    with assms Some cs show ?thesis by (intro refused) (simp_all add: process_client_def)
  next
    case (Inr q)
    obtain s mf' ms' sw where q: "q = (s, mf', ms', sw)" using prod_cases4 by blast
    show ?thesis
    proof (cases free)
      case (Some k)
      with assms \<open>rget api _ _ = Some name\<close> cs Inr q fr show ?thesis
        by (intro existing [of mf' ms' sw rs k r]) (auto simp: process_client_def Let_def)
    next
      case None
      with fr have r: "r = resources c" by (auto elim: get_free_process_cases)
      show ?thesis
        using assms \<open>rget api _ _ = Some name\<close> cs Inr q fr None r
        by (cases "allocate_new_process (ce_place env) (ce_junk env) (ce_process_uuid env) pid s mf' ms' sw
            \<lparr>payload = pl, function_name = fname, function_id = fid\<rparr> (c\<lparr>redis_st := rs\<rparr>)")
          (auto simp: process_client_def Let_def intro!: fresh)
    qed
  qed
qed

lemma process_client_inv:
  assumes "res_inv (resources c)" and "hash_order (ce_place env)"
    and "process_client api env pid sid fname fid mf ms pl c = Inr ((code, msg), c')"
  shows "res_inv (resources c')"
  using assms(3)
proof (cases rule: process_client_cases)
  case (existing mf' ms' sw rs k r c1)
  then show ?thesis
    using allocate_in_process_inv [OF assms(1), where c = "c\<lparr>redis_st := rs, resources := r\<rparr>"] by simp
next
  case (fresh mf' ms' sw rs c1)
  then show ?thesis
    using allocate_new_process_inv [OF _ assms(2), where c = "c\<lparr>redis_st := rs\<rparr>"] assms(1) by simp
qed (use assms(1) in simp_all)

lemma send_requests_inv: "res_inv (resources c) \<Longrightarrow> res_inv (resources (send_requests sids conn req c))"
proof (induction sids arbitrary: req c)
  case (Cons sid sids)
  then show ?case
    using send_session_request_inv [of c sid conn req]
    by (auto split: option.splits prod.splits)
qed simp

lemma connection_inv:
  "res_inv r \<Longrightarrow> res_inv (update_process k (\<lambda>p. p\<lparr>connection := s\<rparr>) r)"
  by (rule res_inv_update_process, assumption) (use res_inv_lookup [of r] in \<open>force simp: proc_ok_def\<close>)

lemma process_process_inv:
  assumes "res_inv (resources c)" and "process_process ctl conn buf c = Inr c'"
  shows "res_inv (resources c')"
  using assms
  by (auto simp: process_process_def Let_def remove_process_def add_epoll_def connection_inv
      intro!: send_requests_inv split: option.splits prod.splits if_splits)

lemma send_invocations_resources [simp]: "resources (send_invocations items conn req c) = resources c"
  by (induction items arbitrary: req c) (simp_all split: prod.splits)

lemma process_session_inv:
  "res_inv (resources c) \<Longrightarrow> res_inv (resources (process_session conn buf c))"
  by (auto simp: process_session_def Let_def intro!: res_inv_update_session split: option.splits prod.splits)

lemma handle_session_closure_inv:
  "res_inv (resources c) \<Longrightarrow> res_inv (resources (handle_session_closure api k ms sid c))"
  by (simp add: handle_session_closure_def Let_def remove_session_inv split: option.splits)

lemma handle_message_inv:
  assumes "res_inv (resources c)" and "handle_message api ctl k buffer n c = Inr c'"
  shows "res_inv (resources c')"
  using assms
  by (auto simp: handle_message_def handle_process_closure_def Let_def remove_process_def mod_epoll_def
      handle_session_closure_inv split: option.splits prod.splits if_splits message.splits)

lemma Worker_worker_inv:
  assumes "res_inv (resources c)" and "Worker_worker ctl junk tid conn n bs (ws, c) = Inr (ws', c')"
  shows "res_inv (resources c')"
  using assms process_process_inv process_session_inv
  by (auto simp: Worker_worker_def Let_def split: prod.splits if_splits option.splits message.splits sum.splits)

end
