(* ===== verification/Runtime_Messages.thy ===== *)
theory Runtime_Messages
  imports Common_Messages
begin

text \<open>
  The messages of \<open>src/runtime/include/praas/messages.hpp\<close> and \<open>src/runtime/lib/messages.cpp\<close>:
  what a runtime process or session sends to the control plane (\<open>SendMessage\<close>), what it receives
  (\<open>RecvMessageBuffer\<close>), and the replies a session sends to its client
  (\<open>FunctionMessage\<close>). The two ends of each connection are written in different source files;
  the interpretations of \<open>frame_codec\<close> below show that they agree.
\<close>

section \<open>Replies of a session\<close>

datatype Status = PAYLOAD | UNKNOWN_REQUEST | OUT_OF_MEMORY | UNKNOWN_FUNCTION

fun status_code :: "Status \<Rightarrow> i16" where
  "status_code PAYLOAD = 0"
| "status_code UNKNOWN_REQUEST = 1"
| "status_code OUT_OF_MEMORY = 2"
| "status_code UNKNOWN_FUNCTION = 3"

definition FunctionMessage_fill_payload :: "i32 \<Rightarrow> string \<Rightarrow> bytes \<Rightarrow> bytes" where
  "FunctionMessage_fill_payload sz function_id data =
     (let d = put16 0 (status_code PAYLOAD) data;
          d = put16 2 (-1) d;
          d = put32 4 sz d
      in strncpy_at 8 function_id 16 d)"

definition FunctionMessage_fill_error :: "Status \<Rightarrow> string \<Rightarrow> bytes \<Rightarrow> bytes" where
  "FunctionMessage_fill_error status function_id data =
     (let d = put16 0 (status_code status) data;
          d = put16 2 (-1) d;
          d = put32 4 0 d
      in strncpy_at 8 function_id 16 d)"

definition FunctionMessage_fill_end :: "i16 \<Rightarrow> string \<Rightarrow> bytes \<Rightarrow> bytes" where
  "FunctionMessage_fill_end return_code function_id data =
     (let d = put16 0 (status_code PAYLOAD) data;
          d = put16 2 return_code d;
          d = put32 4 0 d
      in strncpy_at 8 function_id 16 d)"

section \<open>Messages to the control plane\<close>

datatype SendType = PROCESS_IDENTIFICATION | SESSION_IDENTIFICATION | SEND_SESSION_STATUS

fun send_code :: "SendType \<Rightarrow> i16" where
  "send_code PROCESS_IDENTIFICATION = 1"
| "send_code SESSION_IDENTIFICATION = 2"
| "send_code SEND_SESSION_STATUS = 3"

definition SendMessage_BUF_SIZE :: nat where
  "SendMessage_BUF_SIZE = 24"

definition SendMessage_init :: bytes where
  "SendMessage_init = replicate SendMessage_BUF_SIZE 0"

definition fill_process_identification :: "string \<Rightarrow> bytes \<Rightarrow> bytes" where
  "fill_process_identification process_id data =
     strncpy_at 2 process_id 16 (put16 0 (send_code PROCESS_IDENTIFICATION) data)"

definition fill_session_identification :: "string \<Rightarrow> bytes \<Rightarrow> bytes" where
  "fill_session_identification session_id data =
     strncpy_at 2 session_id 16 (put16 0 (send_code SESSION_IDENTIFICATION) data)"

definition fill_session_close :: "i32 \<Rightarrow> string \<Rightarrow> bytes \<Rightarrow> bytes" where
  "fill_session_close memory_size session_id data =
     (let d = put16 0 (send_code SEND_SESSION_STATUS) data;
          d = put32 2 memory_size d;
          d = put16 6 (-1) d
      in strncpy_at 8 session_id 16 d)"

definition fill_session_status :: "i32 \<Rightarrow> string \<Rightarrow> bytes \<Rightarrow> bytes" where
  "fill_session_status status session_id data =
     (let d = put16 0 (send_code SEND_SESSION_STATUS) data;
          d = put32 2 0 d;
          d = put16 6 (ucast status) d
      in strncpy_at 8 session_id 16 d)"

section \<open>Messages from the control plane\<close>

datatype RecvType = SESSION_REQUEST | INVOCATION_REQUEST

fun recv_code :: "RecvType \<Rightarrow> i16" where
  "recv_code SESSION_REQUEST = 12"
| "recv_code INVOCATION_REQUEST = 13"

definition Recv_EXPECTED_LENGTH :: nat where
  "Recv_EXPECTED_LENGTH = 39"

definition RecvMessageBuffer_init :: bytes where
  "RecvMessageBuffer_init = replicate Recv_EXPECTED_LENGTH 0"

datatype recv_message = SessionRequestMsg bytes | FunctionRequestMsg bytes

definition RecvMessageBuffer_parse :: "bytes \<Rightarrow> int \<Rightarrow> recv_message option" where
  "RecvMessageBuffer_parse data data_size =
     (if data_size \<noteq> int Recv_EXPECTED_LENGTH then None
      else let type = get16 0 data in
        if type = recv_code SESSION_REQUEST then Some (SessionRequestMsg (drop 2 data))
        else if type = recv_code INVOCATION_REQUEST then Some (FunctionRequestMsg (drop 2 data))
        else None)"

fun recv_type :: "recv_message \<Rightarrow> RecvType" where
  "recv_type (SessionRequestMsg buf) = SESSION_REQUEST"
| "recv_type (FunctionRequestMsg buf) = INVOCATION_REQUEST"

definition SessionRequestMsg_session_id :: "bytes \<Rightarrow> string" where
  "SessionRequestMsg_session_id buf = string_n 8 16 buf"

definition SessionRequestMsg_max_functions :: "bytes \<Rightarrow> i32" where
  "SessionRequestMsg_max_functions buf = get32 0 buf"

definition SessionRequestMsg_memory_size :: "bytes \<Rightarrow> i32" where
  "SessionRequestMsg_memory_size buf = get32 4 buf"

definition FunctionRequestMsg_function_name :: "bytes \<Rightarrow> string" where
  "FunctionRequestMsg_function_name buf = string_nlen 4 16 buf"

definition FunctionRequestMsg_function_id :: "bytes \<Rightarrow> string" where
  "FunctionRequestMsg_function_id buf = string_nlen 20 16 buf"

definition FunctionRequestMsg_payload :: "bytes \<Rightarrow> i32" where
  "FunctionRequestMsg_payload buf = get32 0 buf"

lemmas runtime_accessors =
  SessionRequestMsg_session_id_def SessionRequestMsg_max_functions_def
  SessionRequestMsg_memory_size_def FunctionRequestMsg_function_name_def
  FunctionRequestMsg_function_id_def FunctionRequestMsg_payload_def

section \<open>Both ends of a connection\<close>

text \<open>A session request as the control plane encodes it and a process decodes it.\<close>

fun session_request_encode :: "string \<times> i32 \<times> i32 \<Rightarrow> bytes" where
  "session_request_encode (sid, mf, ms) = snd (SessionRequest_fill sid mf ms Request_init)"

definition session_request_decode :: "bytes \<Rightarrow> (string \<times> i32 \<times> i32) option" where
  "session_request_decode data =
     (case RecvMessageBuffer_parse data (int (length data)) of
        Some (SessionRequestMsg buf) \<Rightarrow>
          Some (SessionRequestMsg_session_id buf, SessionRequestMsg_max_functions buf,
                SessionRequestMsg_memory_size buf)
      | _ \<Rightarrow> None)"

text \<open>An invocation request, with the payload size as the control plane passes it.\<close>

fun invocation_encode :: "string \<times> string \<times> i32 \<Rightarrow> bytes" where
  "invocation_encode (fname, fid, ps) = snd (FunctionRequest_fill fname fid ps Request_init)"

definition invocation_decode :: "bytes \<Rightarrow> (string \<times> string \<times> i32) option" where
  "invocation_decode data =
     (case RecvMessageBuffer_parse data (int (length data)) of
        Some (FunctionRequestMsg buf) \<Rightarrow>
          Some (FunctionRequestMsg_function_name buf, FunctionRequestMsg_function_id buf,
                FunctionRequestMsg_payload buf)
      | _ \<Rightarrow> None)"

text \<open>The messages of a process to the control plane.\<close>

datatype process_note =
    Identify_Process string
  | Identify_Session string
  | Session_Closed i32 string
  | Session_Status i16 string

fun note_encode :: "process_note \<Rightarrow> bytes" where
  "note_encode (Identify_Process pid) = fill_process_identification pid SendMessage_init"
| "note_encode (Identify_Session sid) = fill_session_identification sid SendMessage_init"
| "note_encode (Session_Closed mem sid) = fill_session_close mem sid SendMessage_init"
| "note_encode (Session_Status st sid) = fill_session_status (scast st) sid SendMessage_init"

definition note_decode :: "bytes \<Rightarrow> process_note option" where
  "note_decode data =
     (case Header_parse data of
        Some (ProcessMessage buf) \<Rightarrow> Some (Identify_Process (ProcessMessage_process_id buf))
      | Some (SessionMessage buf) \<Rightarrow> Some (Identify_Session (SessionMessage_session_id buf))
      | Some (SessionStatusMessage buf) \<Rightarrow>
          Some (if SessionStatusMessage_session_status buf = -1
                then Session_Closed (SessionStatusMessage_memory_size buf)
                       (SessionStatusMessage_session_id buf)
                else Session_Status (SessionStatusMessage_session_status buf)
                       (SessionStatusMessage_session_id buf))
      | _ \<Rightarrow> None)"

text \<open>A status of -1 is the closure mark, so an ordinary status differs from it.\<close>

fun note_valid :: "process_note \<Rightarrow> bool" where
  "note_valid (Identify_Process pid) = id16 pid"
| "note_valid (Identify_Session sid) = id16 sid"
| "note_valid (Session_Closed mem sid) = id16 sid"
| "note_valid (Session_Status st sid) = (id16 sid \<and> st \<noteq> -1)"

lemma length_SendMessage_init [simp]: "length SendMessage_init = 24"
  by (simp add: SendMessage_init_def SendMessage_BUF_SIZE_def)

lemma session_request_length: "length (session_request_encode m) = 39"
  by (cases m) (simp add: length_SessionRequest_fill)

lemma session_request_decode_encode:
  "id16 (fst m) \<Longrightarrow> session_request_decode (session_request_encode m) = Some m"
  using session_request_length [of m]
  by (cases m)
    (simp add: session_request_decode_def RecvMessageBuffer_parse_def Recv_EXPECTED_LENGTH_def
      SessionRequest_fill_def Let_def runtime_accessors message_ops field_laws sub_bytes_drop)

interpretation session_req: frame_codec 39 session_request_encode session_request_decode "\<lambda>m. id16 (fst m)"
  by unfold_locales (simp_all add: session_request_length session_request_decode_encode)

lemma note_length: "length (note_encode m) = 24"
  by (cases m)
    (simp_all add: fill_process_identification_def fill_session_identification_def
      fill_session_close_def fill_session_status_def Let_def message_ops length_put)

lemma ucast_scast_i16 [simp]: "ucast (scast (x :: i16) :: i32) = x"
  by (rule bit_word_eqI) (auto simp: bit_simps)

lemma note_decode_encode: "note_valid m \<Longrightarrow> note_decode (note_encode m) = Some m"
  by (cases m)
    (simp_all add: note_decode_def Header_parse_def Let_def fill_process_identification_def
      fill_session_identification_def fill_session_close_def fill_session_status_def
      ProcessMessage_process_id_def SessionMessage_session_id_def
      SessionStatusMessage_memory_size_def SessionStatusMessage_session_status_def
      SessionStatusMessage_session_id_def message_ops field_laws sub_bytes_drop)

interpretation pnote: frame_codec 24 note_encode note_decode note_valid
  by unfold_locales (simp_all add: note_length note_decode_encode)

lemma invocation_length: "length (invocation_encode m) = 39"
  by (cases m) (simp add: length_FunctionRequest_fill)

lemma invocation_decode_encode:
  assumes "name16 fname" and "name16 fid"
  shows "invocation_decode (invocation_encode (fname, fid, ps)) =
    Some (fname, fid, ucast (ucast ps :: i16))"
proof -
  let ?d = "invocation_encode (fname, fid, ps)"
  have two: "replicate 2 (0 :: byte) = [0, 0]" by (simp add: numeral_2_eq_2)
  have pad: "sub_bytes 4 2 Request_init = [0, 0]"
    by (simp add: sub_bytes_def Request_init_def Request_EXPECTED_LENGTH_def eval_nat_numeral)
  have "sub_bytes 2 2 ?d = le_bytes 2 (ucast ps :: i16)" and "sub_bytes 4 2 ?d = [0, 0]"
    by (simp_all add: FunctionRequest_fill_def Let_def message_ops field_laws pad)
  then have "sub_bytes 2 4 ?d = le_bytes 2 (ucast ps :: i16) @ replicate 2 0"
    using sub_bytes_add [of 2 2 2 ?d] by (simp add: two)
  then have "get32 0 (drop 2 ?d) = ucast (ucast ps :: i16)"
    by (simp add: get32_def sub_bytes_drop le_word_append le_word_le_bytes)
      (rule bit_word_eqI, auto simp: bit_simps)
  with assms invocation_length [of "(fname, fid, ps)"] show ?thesis
    by (simp add: invocation_decode_def RecvMessageBuffer_parse_def Recv_EXPECTED_LENGTH_def
        FunctionRequest_fill_def Let_def runtime_accessors message_ops field_laws sub_bytes_drop)
qed

lemma ucast_ucast_small: "ucast (ucast (ps :: i32) :: i16) = ps \<longleftrightarrow> uint ps < 65536"
proof -
  have "uint (ucast (ucast ps :: i16) :: i32) = take_bit 16 (uint ps)"
    by (simp add: unsigned_ucast_eq unsigned_take_bit_eq)
  moreover have "take_bit 16 (uint ps) = uint ps \<longleftrightarrow> uint ps < 65536"
    by (simp add: take_bit_int_eq_self_iff)
  ultimately show ?thesis by (metis word_uint_eq_iff)
qed

fun invocation_valid :: "string \<times> string \<times> i32 \<Rightarrow> bool" where
  "invocation_valid (fname, fid, ps) = (name16 fname \<and> name16 fid \<and> uint ps < 65536)"

interpretation invocation_req: frame_codec 39 invocation_encode invocation_decode invocation_valid
proof unfold_locales
  fix m assume "invocation_valid m"
  then show "invocation_decode (invocation_encode m) = Some m"
    by (cases m) (auto simp: invocation_decode_encode ucast_ucast_small [THEN iffD2]
        simp del: invocation_encode.simps)
qed (rule invocation_length)

section \<open>Properties\<close>

text \<open>
  C33: a stream of session requests written by the control plane with \<open>SessionRequest::fill\<close> is
  read by a process, 39 bytes at a time, as the same session identifiers, function limits and
  memory sizes in the same order, also for the negative sizes that mark a session to swap in.
\<close>

theorem session_request_stream:
  assumes "\<forall>m \<in> set ms. id16 (fst m)"
  shows "map session_request_decode
     (frames Recv_EXPECTED_LENGTH (length ms) (concat (map session_request_encode ms) @ rest)) = map Some ms"
  using assms session_req.decode_stream [of ms rest]
  by (simp add: Recv_EXPECTED_LENGTH_def list_all_iff)

theorem session_request_stream_witness:
  "map session_request_decode (frames Recv_EXPECTED_LENGTH
     (length [(''0123456789abcdef'', 2 :: i32, 64 :: i32), (''fedcba9876543210'', 1, -64)])
     (concat (map session_request_encode [(''0123456789abcdef'', 2, 64), (''fedcba9876543210'', 1, -64)]) @ [7])) =
   map Some [(''0123456789abcdef'', 2, 64), (''fedcba9876543210'', 1, -64)]"
  by (rule session_request_stream) (simp add: id16_def)

text \<open>
  The payload size of an invocation request survives the connection exactly when it is
  below 65536: \<open>FunctionRequest::fill\<close> stores it through a 16-bit pointer, and the session reads
  32 bits back.
\<close>

lemma invocation_payload_size:
  assumes "name16 fname" and "name16 fid"
  shows "invocation_decode (invocation_encode (fname, fid, ps)) = Some (fname, fid, ps) \<longleftrightarrow>
    uint ps < 65536"
  using assms by (simp add: invocation_decode_encode ucast_ucast_small del: invocation_encode.simps)

text \<open>
  A reply written into an uninitialised 24-byte \<open>FunctionMessage\<close> overwrites every byte,
  so that nothing of the stack reaches the client.
\<close>

lemma function_message_initialised:
  assumes "length a = 24" and "length b = 24"
  shows "FunctionMessage_fill_payload sz fid a = FunctionMessage_fill_payload sz fid b \<and>
    FunctionMessage_fill_error st fid a = FunctionMessage_fill_error st fid b \<and>
    FunctionMessage_fill_end rc fid a = FunctionMessage_fill_end rc fid b"
  using assms
  by (simp add: FunctionMessage_fill_payload_def FunctionMessage_fill_error_def
      FunctionMessage_fill_end_def Let_def message_ops put_def)

end
