(* ===== verification/Control_Server.thy ===== *)
theory Control_Server
  imports Control_Worker Runtime_Messages
begin

text \<open>
  The event loop of \<open>src/system/control-plane/server.cpp\<close> with the tasks it gives to the thread
  pool, as a machine: the loop polls, a thread of the pool runs any queued task, and the HTTP
  server's threads run the routes. A handler is one step; a handler that throws or dereferences the
  missing backend has no successor.
\<close>

section \<open>State and events\<close>

datatype task = Worker_task nat | Message_task string bytes int

record 'r server =
  control :: "'r control"
  workers :: "nat \<rightharpoonup> Worker"
  tasks :: "task list"
  srv_ending :: bool

definition server_init :: "'r \<Rightarrow> LocalBackend option \<Rightarrow> 'r server" where
  "server_init rs b =
     \<lparr>control = \<lparr>redis_st = rs, resources = Resources_init, backend = b, io = [], epoll = Map.empty\<rparr>,
      workers = Map.empty, tasks = [], srv_ending = False\<rparr>"

text \<open>
  An event of the listening socket carries the accepted connection, one of a process the bytes of
  the header on the loop's stack after \<open>read_n\<close> and its result. Delivering an event of a process
  disarms its connection, which was registered with \<open>EPOLLONESHOT\<close>.
\<close>

datatype event = Accept socket | Activity string bytes int

definition disarm :: "string \<Rightarrow> 'r control \<Rightarrow> 'r control" where
  "disarm k c =
     (case get_process k (resources c) of None \<Rightarrow> c
      | Some p \<Rightarrow> (case connection p of None \<Rightarrow> c | Some h \<Rightarrow> c\<lparr>epoll := (epoll c)(h \<mapsto> False)\<rparr>))"

fun server_event :: "event \<Rightarrow> 'r server \<Rightarrow> 'r server" where
  "server_event (Accept None) s = s"
| "server_event (Accept (Some h)) s = s\<lparr>tasks := tasks s @ [Worker_task h]\<rparr>"
| "server_event (Activity k msg recv_data) s =
     s\<lparr>control := disarm k (control s), tasks := tasks s @ [Message_task k msg recv_data]\<rparr>"

datatype poll = Events "event list" | Poll_Failed int

definition EINVAL :: int where "EINVAL = 22"

definition server_turn :: "bool \<Rightarrow> poll \<Rightarrow> 'r server \<Rightarrow> 'r server loop_result" where
  "server_turn stop p s =
     (let s = s\<lparr>srv_ending := srv_ending s \<or> stop\<rparr> in
      case p of
        Poll_Failed errno \<Rightarrow> if srv_ending s \<or> errno \<noteq> EINVAL then Break s else Continue s
      | Events es \<Rightarrow> if srv_ending s then Break s else Continue (foldl (\<lambda>s e. server_event e s) s es))"

definition Server_shutdown :: "'r server \<Rightarrow> 'r server" where
  "Server_shutdown s = s\<lparr>srv_ending := True\<rparr>"

text \<open>
  The loop over the polls that happen, each with whether an end was requested meanwhile, and \<open>start\<close>
  with the results of opening the socket and of the two epoll calls. The tasks run beside it.
\<close>

fun server_loop :: "(bool \<times> poll) list \<Rightarrow> 'r server \<Rightarrow> 'r server" where
  "server_loop [] s = s"
| "server_loop ((stop, p) # ps) s =
     (if srv_ending s then s
      else case server_turn stop p s of Break s' \<Rightarrow> s' | Continue s' \<Rightarrow> server_loop ps s')"

definition Server_start :: "bool \<Rightarrow> bool \<Rightarrow> bool \<Rightarrow> (bool \<times> poll) list \<Rightarrow> 'r server \<Rightarrow> 'r server" where
  "Server_start listening epoll_ok add_ok ps s =
     (if \<not> listening \<or> \<not> epoll_ok \<or> \<not> add_ok then s else server_loop ps s)"

text \<open>A thread runs a task: what it reads and what \<open>epoll_ctl\<close> returns are inputs.\<close>

record task_env =
  te_ctl :: bool
  te_junk :: bytes
  te_thread :: nat
  te_recv :: int
  te_bytes :: bytes

fun run_task :: "'r redis \<Rightarrow> task_env \<Rightarrow> task \<Rightarrow> 'r server \<Rightarrow> fault + 'r server" where
  "run_task api e (Worker_task conn) s =
     (case Worker_worker (te_ctl e) (te_junk e) (te_thread e) conn (te_recv e) (te_bytes e) (workers s, control s) of
        Inl f \<Rightarrow> Inl f
      | Inr (ws, c) \<Rightarrow> Inr (s\<lparr>workers := ws, control := c\<rparr>))"
| "run_task api e (Message_task k msg n) s =
     (case handle_message api (te_ctl e) k msg n (control s) of
        Inl f \<Rightarrow> Inl f
      | Inr c \<Rightarrow> Inr (s\<lparr>workers := snd (Workers_get (te_junk e) (te_thread e) (workers s)), control := c\<rparr>))"

datatype request = Add_Process string | Add_Session string | Invoke string

fun run_route ::
  "'r redis \<Rightarrow> (string \<Rightarrow> json) \<Rightarrow> (string \<Rightarrow> string list) \<Rightarrow> client_env \<Rightarrow> request \<Rightarrow> 'r control \<Rightarrow> 'r control http" where
  "run_route api load multipart env (Add_Process body) c = Inr (http_add_process api load (ce_process_uuid env) body c)"
| "run_route api load multipart env (Add_Session body) c = http_add_session api load env body c"
| "run_route api load multipart env (Invoke body) c = http_invoke api load multipart env body c"

section \<open>The machine\<close>

text \<open>\<open>epoll_wait\<close> reports a process only while its connection is armed.\<close>

definition only_armed :: "poll \<Rightarrow> 'r control \<Rightarrow> bool" where
  "only_armed p c \<longleftrightarrow>
     (case p of Poll_Failed _ \<Rightarrow> True
      | Events es \<Rightarrow> list_all (\<lambda>e. case e of Accept _ \<Rightarrow> True
          | Activity k _ _ \<Rightarrow> (case get_process k (resources c) of None \<Rightarrow> False
              | Some q \<Rightarrow> (case connection q of None \<Rightarrow> False | Some h \<Rightarrow> epoll c h = Some True))) es)"

inductive server_step ::
  "'r redis \<Rightarrow> (string \<Rightarrow> json) \<Rightarrow> (string \<Rightarrow> string list) \<Rightarrow> 'r server \<Rightarrow> 'r server \<Rightarrow> bool"
  for api load multipart where
  poll: "\<not> srv_ending s \<Longrightarrow> only_armed p (control s) \<Longrightarrow> server_turn stop p s = Continue s' \<Longrightarrow> server_step api load multipart s s'"
| last_poll: "\<not> srv_ending s \<Longrightarrow> server_turn stop p s = Break s' \<Longrightarrow> server_step api load multipart s s'"
| task: "tasks s = xs @ t # ys \<Longrightarrow> run_task api e t (s\<lparr>tasks := xs @ ys\<rparr>) = Inr s' \<Longrightarrow>
     server_step api load multipart s s'"
| route: "hash_order (ce_place env) \<Longrightarrow> run_route api load multipart env req (control s) = Inr (answer, c) \<Longrightarrow>
     server_step api load multipart s (s\<lparr>control := c\<rparr>)"
| shutdown: "server_step api load multipart s (Server_shutdown s)"

inductive_cases server_stepE: "server_step api load multipart s t"

lemma disarm_resources [simp]: "resources (disarm k c) = resources c" "io (disarm k c) = io c"
  by (simp_all add: disarm_def split: option.splits)

lemma server_event_resources [simp]: "resources (control (server_event e s)) = resources (control s)"
  by (cases "(e, s)" rule: server_event.cases) simp_all

lemma server_events_resources [simp]:
  "resources (control (foldl (\<lambda>s e. server_event e s) s es)) = resources (control s)"
  by (induction es arbitrary: s) simp_all

lemma server_turn_resources:
  "server_turn stop p s = Continue s' \<or> server_turn stop p s = Break s' \<Longrightarrow>
     resources (control s') = resources (control s)"
  by (auto simp: server_turn_def Let_def split: poll.splits if_splits)

lemma run_task_inv:
  assumes "res_inv (resources (control s))" and "run_task api e t s = Inr s'"
  shows "res_inv (resources (control s'))"
proof (cases t)
  case (Worker_task conn)
  with assms show ?thesis by (auto split: sum.splits dest: Worker_worker_inv)
next
  case (Message_task k msg n)
  with assms show ?thesis by (auto split: sum.splits dest: handle_message_inv)
qed

lemma run_route_inv:
  assumes "res_inv (resources c)" and "hash_order (ce_place env)"
    and "run_route api load multipart env req c = Inr ((code, msg), c')"
  shows "res_inv (resources c')"
proof (cases req)
  case (Add_Process body)
  with assms show ?thesis
    by (auto simp: http_add_process_def process_allocation_def Let_def split: if_splits option.splits)
next
  case (Add_Session body)
  with assms process_client_inv [OF assms(1,2)] show ?thesis
    by (auto simp: http_add_session_def Let_def split: if_splits option.splits prod.splits)
next
  case (Invoke body)
  with assms process_client_inv [OF assms(1,2)] show ?thesis
    by (auto simp: http_invoke_def Let_def split: if_splits option.splits prod.splits list.splits)
qed

lemma server_step_inv:
  "server_step api load multipart s t \<Longrightarrow> res_inv (resources (control s)) \<Longrightarrow> res_inv (resources (control t))"
proof (induction rule: server_step.induct)
  case (task s xs t ys e s')
  then show ?case using run_task_inv [of "s\<lparr>tasks := xs @ ys\<rparr>" api e t s'] by simp
next
  case (route env req s answer c)
  then show ?case using run_route_inv [of "control s"] by (cases answer) simp
next
  case (shutdown s)
  then show ?case by (simp add: Server_shutdown_def)
qed (metis server_turn_resources)+

interpretation srv: invariant_machine "server_step api load multipart" "\<lambda>s. res_inv (resources (control s))"
  for api load multipart
  by unfold_locales (rule server_step_inv)

section \<open>A database for the witnesses\<close>

type_synonym map_db = "(string \<rightharpoonup> string) \<times> (string \<Rightarrow> string set)"

definition map_redis :: "map_db redis" where
  "map_redis = \<lparr>rget = (\<lambda>s k. fst s k), rset = (\<lambda>s k v. ((fst s)(k \<mapsto> v), snd s)),
     sismember = (\<lambda>s k x. x \<in> snd s k), sadd = (\<lambda>s k x. (fst s, (snd s)(k := insert x (snd s k)))),
     srem = (\<lambda>s k x. (if x \<in> snd s k then 1 else 0, (fst s, (snd s)(k := snd s k - {x}))))\<rparr>"

lemma map_redis_ok: "redis_ok map_redis fst snd"
  by (simp add: redis_ok_def map_redis_def)

lemma keys_kinds [simp]:
  "string_key (process_key k)" "string_key (session_key k)" "set_key (alive_key k)" "set_key (swapped_key k)"
  by (simp_all add: string_key_def set_key_def process_key_def session_key_def alive_key_def swapped_key_def)

lemma keys_differ [simp]:
  "alive_key a \<noteq> swapped_key b" "swapped_key b \<noteq> alive_key a" "process_key a \<noteq> session_key b"
  "alive_key a = alive_key b \<longleftrightarrow> a = b" "swapped_key a = swapped_key b \<longleftrightarrow> a = b"
  "session_key a = session_key b \<longleftrightarrow> a = b" "process_key a = process_key b \<longleftrightarrow> a = b"
  by (simp_all add: process_key_def session_key_def alive_key_def swapped_key_def)

lemma hash_order_Cons [simp]: "hash_order (#)"
  by (simp add: hash_order_def)

section \<open>Properties\<close>

text \<open>
  C1: in every state the control plane reaches by handling requests, connections and messages one at a
  time, in any order, the counter of a process is the number of its sessions and does not exceed its limit,
  no two processes share an identifier and every pointer to a session is valid.
\<close>

theorem control_capacity:
  assumes "reaches (server_step api load multipart) (server_init rs b) s"
    and "(k, p) \<in> set (processes (resources (control s)))"
  shows "sint (allocated_sessions p) = int (length (proc_sessions p)) \<and>
    int (length (proc_sessions p)) \<le> sint (cp_max_sessions p) \<and>
    get_process k (resources (control s)) = Some p \<and>
    (\<forall>sid \<in> set (proc_sessions p). \<exists>ses. get_session sid (resources (control s)) = Some ses \<and> session_id ses = sid)"
proof -
  have "res_inv (resources (control (server_init rs b)))" by (simp add: server_init_def)
  with srv.reaches_inv [OF assms(1)] have inv: "res_inv (resources (control s))" by blast
  then have ok: "proc_ok (sessions_map (resources (control s))) k p"
    and get: "get_process k (resources (control s)) = Some p"
    using assms(2) by (auto simp: res_inv_def get_process_def)
  have "\<exists>ses. sessions_map (resources (control s)) sid = Some ses \<and> session_id ses = sid"
    if "sid \<in> set (proc_sessions p)" for sid
  proof -
    have "sid \<in> dom (sessions_map (resources (control s)))" using that ok unfolding proc_ok_def by blast
    with inv show ?thesis by (auto simp: res_inv_def)
  qed
  with ok get show ?thesis by (simp add: proc_ok_def)
qed

text \<open>A control plane with a backend, an empty database but for one process name, and its first request.\<close>

definition demo_backend :: LocalBackend where
  "demo_backend = \<lparr>controller_ip_address = ''127.0.0.1'', controller_port = 8000, backend_connection = Some 1,
     backend_req = Request_init\<rparr>"

definition demo_env :: client_env where
  "demo_env = \<lparr>ce_place = (#), ce_junk = (0, 0, False), ce_session_uuid = ''0123456789abcdef-0'',
     ce_process_uuid = ''fedcba9876543210-0''\<rparr>"

definition demo_json :: json where
  "demo_json = \<lparr>js = [''process-name'' \<mapsto> ''name'', ''session-id'' \<mapsto> '''', ''process-id'' \<mapsto> ''fedcba9876543210''],
     ji = [''max-functions'' \<mapsto> 1, ''memory-size'' \<mapsto> 64]\<rparr>"

definition demo_db :: map_db where
  "demo_db = ([process_key ''fedcba9876543210'' \<mapsto> ''name'', process_key ''tenant-b'' \<mapsto> ''name''], \<lambda>_. {})"

lemma demo_request:
  "\<exists>c p. run_route map_redis (\<lambda>_. demo_json) (\<lambda>_. []) demo_env (Add_Session ''x'')
      (control (server_init demo_db (Some demo_backend))) = Inr ((200, ''0123456789abcdef''), c) \<and>
    processes (resources c) = [(''fedcba9876543210'', p)] \<and> proc_sessions p = [''0123456789abcdef'']"
  by (simp add: http_add_session_def session_params_def demo_json_def demo_env_def server_init_def Resources_init_def
      process_client_def client_session_def demo_db_def map_redis_def get_free_process_def allocate_new_process_def
      setup_session_def add_session_def add_process_def get_process_def update_process_def update_session_def
      LocalBackend_allocate_process_def demo_backend_def CProcess_init_def CProcess_assign_def
      case_prod_beta Let_def)

theorem control_capacity_witness:
  "\<exists>s p. reaches (server_step map_redis (\<lambda>_. demo_json) (\<lambda>_. [])) (server_init demo_db (Some demo_backend)) s \<and>
     (''fedcba9876543210'', p) \<in> set (processes (resources (control s))) \<and>
     sint (allocated_sessions p) = 1"
proof -
  let ?s = "server_init demo_db (Some demo_backend)"
  obtain c p where r: "run_route map_redis (\<lambda>_. demo_json) (\<lambda>_. []) demo_env (Add_Session ''x'') (control ?s) =
      Inr ((200, ''0123456789abcdef''), c)"
    and p: "processes (resources c) = [(''fedcba9876543210'', p)]" "proc_sessions p = [''0123456789abcdef'']"
    using demo_request by blast
  have "hash_order (ce_place demo_env)" by (simp add: demo_env_def)
  from reaches_step [where step = "server_step map_redis (\<lambda>_. demo_json) (\<lambda>_. [])",
      OF reaches_refl server_step.route [OF this r]]
  have s: "reaches (server_step map_redis (\<lambda>_. demo_json) (\<lambda>_. [])) ?s (?s\<lparr>control := c\<rparr>)" .
  from control_capacity [OF s, of "''fedcba9876543210''" p] s p show ?thesis by force
qed

section \<open>What a connecting process and a connecting session receive\<close>

definition session_msg :: "Resources \<Rightarrow> string \<Rightarrow> bytes" where
  "session_msg r sid =
     (case sessions_map r sid of None \<Rightarrow> []
      | Some s \<Rightarrow> session_request_encode (session_id s, max_functions s, ses_memory_size s))"

definition unallocated :: "Resources \<Rightarrow> string \<Rightarrow> bool" where
  "unallocated r sid \<longleftrightarrow> (case sessions_map r sid of None \<Rightarrow> False | Some s \<Rightarrow> \<not> allocated s)"

text \<open>A request packet whose bytes behind the session fields are still zero, as between two \<open>fill\<close>s.\<close>

definition clean_req :: "bytes \<Rightarrow> bool" where
  "clean_req req \<longleftrightarrow> length req = 39 \<and> drop 26 req = replicate 13 0"

lemma clean_init [simp]: "clean_req Request_init"
  by (simp add: clean_req_def Request_init_def Request_EXPECTED_LENGTH_def)

lemma clean_fill:
  assumes "clean_req req"
  shows "snd (SessionRequest_fill sid mf ms req) = session_request_encode (sid, mf, ms)"
    and "clean_req (snd (SessionRequest_fill sid mf ms req))"
  using assms clean_init by (simp_all add: SessionRequest_fill_bytes clean_req_def)

lemma send_session_request_simps:
  assumes "sessions_map (resources c) sid = Some s" and "clean_req req"
  shows "send_session_request sid (Some conn) req c =
    (session_msg (resources c) sid,
     c\<lparr>io := io c @ [Write conn (session_msg (resources c) sid)],
       resources := update_session sid (\<lambda>s. s\<lparr>allocated := True\<rparr>) (resources c)\<rparr>)"
    and "clean_req (session_msg (resources c) sid)"
proof -
  let ?e = "session_request_encode (session_id s, max_functions s, ses_memory_size s)"
  have m: "session_msg (resources c) sid = ?e" using assms(1) by (simp add: session_msg_def)
  show "clean_req (session_msg (resources c) sid)"
    using clean_fill [OF assms(2), of "session_id s" "max_functions s" "ses_memory_size s"] m by simp
  have f: "SessionRequest_fill (session_id s) (max_functions s) (ses_memory_size s) req = (39, ?e)"
    using clean_fill(1) [OF assms(2)] fst_fill(2) Request_EXPECTED_LENGTH_def by (metis prod.collapse)
  have "take 39 ?e = ?e" using session_request_length by (metis order_refl take_all)
  then show "send_session_request sid (Some conn) req c =
    (session_msg (resources c) sid,
     c\<lparr>io := io c @ [Write conn (session_msg (resources c) sid)],
       resources := update_session sid (\<lambda>s. s\<lparr>allocated := True\<rparr>) (resources c)\<rparr>)"
    using assms(1) m by (simp add: send_session_request_def f sock_write_def del: session_request_encode.simps)
qed

lemma send_requests_none:
  "\<forall>sid \<in> set sids. \<not> unallocated (resources c) sid \<Longrightarrow> send_requests sids conn req c = c"
  by (induction sids arbitrary: req) (auto simp: unallocated_def split: option.splits)

lemma update_session_overwritten [simp]:
  "(update_session sid f r)\<lparr>sessions_map := m\<rparr> = r\<lparr>sessions_map := m\<rparr>"
  by (simp add: update_session_def split: option.splits)

lemma send_requests_spec:
  assumes "distinct sids" and "clean_req req" and "set sids \<subseteq> dom (sessions_map (resources c))"
  shows "send_requests sids (Some conn) req c =
    c\<lparr>io := io c @ map (\<lambda>sid. Write conn (session_msg (resources c) sid)) (filter (unallocated (resources c)) sids),
      resources := (resources c)\<lparr>sessions_map := (\<lambda>sid. if sid \<in> set sids
         then map_option (\<lambda>s. s\<lparr>allocated := True\<rparr>) (sessions_map (resources c) sid)
         else sessions_map (resources c) sid)\<rparr>\<rparr>"
  using assms
proof (induction sids arbitrary: req c)
  case Nil
  then show ?case by simp
next
  case (Cons sid sids)
  then obtain s where s: "sessions_map (resources c) sid = Some s" by auto
  have other: "sid' \<noteq> sid" if "sid' \<in> set sids" for sid' using Cons.prems that by auto
  show ?case
  proof (cases "allocated s")
    case True
    then have "(\<lambda>sid'. if sid' \<in> set sids then map_option (\<lambda>s. s\<lparr>allocated := True\<rparr>) (sessions_map (resources c) sid')
          else sessions_map (resources c) sid') =
      (\<lambda>sid'. if sid' \<in> set (sid # sids) then map_option (\<lambda>s. s\<lparr>allocated := True\<rparr>) (sessions_map (resources c) sid')
          else sessions_map (resources c) sid')"
      using s Cons.prems(1) by auto
    with True s Cons show ?thesis by (simp add: unallocated_def)
  next
    case False
    let ?r = "update_session sid (\<lambda>s. s\<lparr>allocated := True\<rparr>) (resources c)"
    let ?c = "c\<lparr>io := io c @ [Write conn (session_msg (resources c) sid)], resources := ?r\<rparr>"
    have step: "send_requests (sid # sids) (Some conn) req c =
        send_requests sids (Some conn) (session_msg (resources c) sid) ?c"
      using False s send_session_request_simps(1) [OF s Cons.prems(2)] by simp
    have "set sids \<subseteq> dom (sessions_map (resources ?c))" using Cons.prems(3) by auto
    note IH = Cons.IH [OF _ send_session_request_simps(2) [OF s Cons.prems(2)] this]
    have same: "session_msg ?r sid' = session_msg (resources c) sid'"
        "unallocated ?r sid' = unallocated (resources c) sid'" if "sid' \<in> set sids" for sid'
      using other [OF that] by (simp_all add: session_msg_def unallocated_def)
    have m1: "map (\<lambda>sid. Write conn (session_msg ?r sid)) (filter (unallocated ?r) sids) =
        map (\<lambda>sid. Write conn (session_msg (resources c) sid)) (filter (unallocated (resources c)) sids)"
      using same by (simp cong: filter_cong)
    have m2: "(\<lambda>sid'. if sid' \<in> set sids
          then map_option (\<lambda>s. s\<lparr>allocated := True\<rparr>) (sessions_map ?r sid') else sessions_map ?r sid') =
        (\<lambda>sid'. if sid' \<in> set (sid # sids)
          then map_option (\<lambda>s. s\<lparr>allocated := True\<rparr>) (sessions_map (resources c) sid') else sessions_map (resources c) sid')"
      using other by (intro ext) auto
    have "unallocated (resources c) sid" using s False by (simp add: unallocated_def)
    moreover have "resources ?c = ?r" "io ?c = io c @ [Write conn (session_msg (resources c) sid)]" "distinct sids"
      using Cons.prems(1) by simp_all
    note rc = this
    ultimately show ?thesis unfolding step IH [OF rc(3)] rc(1,2) m1 m2 by simp
  qed
qed

lemma session_view_update_process [simp]:
  "session_msg (update_process k f r) = session_msg r" "unallocated (update_process k f r) = unallocated r"
  by (simp_all add: session_msg_def unallocated_def fun_eq_iff)

lemma sock_close_io: "io (sock_close s c) = io c @ (case s of None \<Rightarrow> [] | Some h \<Rightarrow> [Close h])"
  by (simp add: sock_close_def split: option.splits)

lemma connecting_process_gets_requests_lemma:
  assumes "get_process (ProcessMessage_process_id buf) (resources c) = Some p"
    and "distinct (proc_sessions p)" and "set (proc_sessions p) \<subseteq> dom (sessions_map (resources c))"
  shows "\<exists>c'. process_process True conn buf c = Inr c' \<and>
    io c' = io c @ (case connection p of None \<Rightarrow> [] | Some h \<Rightarrow> [Close h]) @
      map (\<lambda>sid. Write conn (session_msg (resources c) sid)) (filter (unallocated (resources c)) (proc_sessions p)) \<and>
    (\<forall>sid \<in> set (proc_sessions p). \<not> unallocated (resources c') sid) \<and> epoll c' conn = Some True"
proof -
  let ?pid = "ProcessMessage_process_id buf"
  let ?c = "(sock_close (connection p) c)\<lparr>resources := update_process ?pid (\<lambda>p. p\<lparr>connection := Some conn\<rparr>) (resources c)\<rparr>"
  have "set (proc_sessions p) \<subseteq> dom (sessions_map (resources ?c))" using assms(3) by simp
  note sent = send_requests_spec [OF assms(2) clean_init this, of conn]
  show ?thesis
    using assms(1)
    by (simp add: process_process_def add_epoll_def sent sock_close_io Let_def)
      (auto simp: unallocated_def split: option.splits)
qed

text \<open>
  C26: a process that connects and identifies itself is sent one request for each of its sessions
  that none was sent for yet, in the order in which they were added, with the limits the control
  plane stored; afterwards none of its sessions waits for a request, and its connection is armed.
\<close>

theorem connecting_process_gets_requests:
  assumes "get_process (ProcessMessage_process_id buf) (resources c) = Some p"
    and "distinct (proc_sessions p)" and "set (proc_sessions p) \<subseteq> dom (sessions_map (resources c))"
  shows "\<exists>c'. process_process True conn buf c = Inr c' \<and>
    io c' = io c @ (case connection p of None \<Rightarrow> [] | Some h \<Rightarrow> [Close h]) @
      map (\<lambda>sid. Write conn (session_msg (resources c) sid)) (filter (unallocated (resources c)) (proc_sessions p)) \<and>
    (\<forall>sid \<in> set (proc_sessions p). \<not> unallocated (resources c') sid) \<and> epoll c' conn = Some True"
  using assms by (rule connecting_process_gets_requests_lemma)

theorem connecting_process_gets_requests_witness:
  "\<exists>(c :: unit control) p c'. get_process ''fedcba9876543210'' (resources c) = Some p \<and>
     process_process True 7 (to_bytes ''fedcba9876543210'') c = Inr c' \<and>
     length (io c') = length (io c) + 1"
proof -
  let ?buf = "to_bytes ''fedcba9876543210''"
  let ?p = "(CProcess_init 4)\<lparr>proc_sessions := [''0123456789abcdef'']\<rparr>"
  let ?c = "\<lparr>redis_st = (), resources = \<lparr>sessions_map = [''0123456789abcdef'' \<mapsto> Session_init (1, 64, False) ''0123456789abcdef''],
      processes = [(''fedcba9876543210'', ?p)]\<rparr>, backend = None, io = [], epoll = Map.empty\<rparr>"
  have id: "ProcessMessage_process_id ?buf = ''fedcba9876543210''"
    by (simp add: ProcessMessage_process_id_def string_n_def sub_bytes_def)
  have "get_process (ProcessMessage_process_id ?buf) (resources ?c) = Some ?p" "distinct (proc_sessions ?p)"
    "set (proc_sessions ?p) \<subseteq> dom (sessions_map (resources ?c))"
    unfolding id by (simp_all add: get_process_def)
  from connecting_process_gets_requests [OF this, of 7] obtain c' where c': "process_process True 7 ?buf ?c = Inr c'"
    "io c' = io ?c @ (case connection ?p of None \<Rightarrow> [] | Some h \<Rightarrow> [Close h]) @
      map (\<lambda>sid. Write 7 (session_msg (resources ?c) sid)) (filter (unallocated (resources ?c)) (proc_sessions ?p))"
    by blast
  moreover have "get_process ''fedcba9876543210'' (resources ?c) = Some ?p" by (simp add: get_process_def)
  moreover have "length (io c') = length (io ?c) + 1"
    using c'(2) by (simp add: unallocated_def Session_init_def CProcess_init_def)
  ultimately show ?thesis by blast
qed

section \<open>Requests that are never sent\<close>

lemma allocate_in_unconnected:
  assumes "get_process k (resources c) = Some p" and "connection p = None"
  shows "io (allocate_in_process junk k sid mf ms sw alloc c) = io c"
    and "\<not> unallocated (resources (allocate_in_process junk k sid mf ms sw alloc c)) sid"
proof -
  obtain s r where sr: "setup_session junk k sid mf ms sw alloc (resources c) = (s, r)" by fastforce
  have s: "s = sid" using sr by (auto simp: setup_session_def split: prod.splits dest: arg_cong [where f = fst])
  have "get_process k r = Some (p\<lparr>proc_sessions := proc_sessions p @ [sid]\<rparr>)"
    using sr assms(1) by (auto simp: setup_session_def split: prod.splits dest!: arg_cong [where f = snd])
  then have "(case get_process k r of None \<Rightarrow> None | Some p \<Rightarrow> connection p) = None"
    using assms(2) by simp
  then show "io (allocate_in_process junk k sid mf ms sw alloc c) = io c"
    "\<not> unallocated (resources (allocate_in_process junk k sid mf ms sw alloc c)) sid"
    by (auto simp: allocate_in_process_def sr s send_session_request_def sock_write_def unallocated_def
        split: option.splits prod.splits)
qed

lemma allocate_in_process_process:
  assumes "get_process k (resources c) = Some p"
  shows "get_process k (resources (allocate_in_process junk k sid mf ms sw alloc c)) =
    Some (p\<lparr>proc_sessions := proc_sessions p @ [sid]\<rparr>)"
proof -
  obtain s r where sr: "setup_session junk k sid mf ms sw alloc (resources c) = (s, r)" by fastforce
  have "get_process k r = Some (p\<lparr>proc_sessions := proc_sessions p @ [sid]\<rparr>)"
    using sr assms by (auto simp: setup_session_def split: prod.splits dest!: arg_cong [where f = snd])
  then show ?thesis
    by (auto simp: allocate_in_process_def sr send_session_request_def split: option.splits prod.splits)
qed

lemma get_free_process_lookup:
  assumes "distinct (map fst (processes r))" and "get_free_process pid r = (Some k, r')"
    and "get_process k r = Some p"
  shows "get_process k r' = Some (p\<lparr>allocated_sessions := allocated_sessions p + 1\<rparr>)"
    and "sessions_map r' = sessions_map r"
  using assms(2,3) by (auto elim!: get_free_process_cases)

text \<open>
  C37: a request placed in a process that was started but has not connected yet is lost. The
  client is answered 200 and the session is in the table, but no byte is sent, and when the process
  connects it is sent the requests of its other sessions only.
\<close>

theorem request_to_unconnected_process_lost:
  assumes "res_inv (resources c)" and "hash_order (ce_place env)"
    and "process_client api env pid sid fname fid mf ms pl c = Inr ((200, new), c')"
    and "get_free_process pid (resources c) = (Some k, r)"
    and "get_process k (resources c) = Some p" and "connection p = None" and "distinct (new # proc_sessions p)"
    and "ProcessMessage_process_id buf = k"
  shows "io c' = io c \<and> get_session new (resources c') \<noteq> None \<and>
    (\<exists>c''. process_process True conn buf c' = Inr c'' \<and>
       io c'' = io c' @ map (\<lambda>sid. Write conn (session_msg (resources c') sid))
         (filter (\<lambda>sid. sid \<noteq> new \<and> unallocated (resources c') sid) (proc_sessions p @ [new])))"
proof -
  have d: "distinct (map fst (processes (resources c)))" using assms(1) by (simp add: res_inv_def)
  from assms(3) obtain mf' ms' sw rs st where c': "c' = (allocate_in_process (ce_junk env) k new mf' ms' sw
         \<lparr>payload = pl, function_name = fname, function_id = fid\<rparr> (c\<lparr>redis_st := rs, resources := r\<rparr>))\<lparr>redis_st := st\<rparr>"
  proof (cases rule: process_client_cases)
    case (existing mf' ms' sw rs k' r' c1)
    with assms(4) show ?thesis by (intro that) simp
  qed (use assms(4) in simp_all)
  let ?c = "c\<lparr>redis_st := rs, resources := r\<rparr>" and ?p = "p\<lparr>allocated_sessions := allocated_sessions p + 1\<rparr>"
  let ?p' = "?p\<lparr>proc_sessions := proc_sessions p @ [new]\<rparr>"
  have p: "get_process k (resources ?c) = Some ?p" and conn: "connection ?p = None"
    using get_free_process_lookup(1) [OF d assms(4,5)] assms(6) by simp_all
  note un = allocate_in_unconnected [OF p conn] and pr = allocate_in_process_process [OF p]
  have io: "io c' = io c" and na: "\<not> unallocated (resources c') new"
    and p': "get_process (ProcessMessage_process_id buf) (resources c') = Some ?p'"
    unfolding c' assms(8) by (simp_all add: un pr)
  have inv: "res_inv (resources c')" by (rule process_client_inv [OF assms(1-3)])
  then have "proc_ok (sessions_map (resources c')) (ProcessMessage_process_id buf) ?p'"
    using p' by (simp add: res_inv_lookup)
  then have dom: "set (proc_sessions ?p') \<subseteq> dom (sessions_map (resources c'))" by (simp add: proc_ok_def)
  have "filter (unallocated (resources c')) (proc_sessions ?p') =
      filter (\<lambda>sid. sid \<noteq> new \<and> unallocated (resources c') sid) (proc_sessions p @ [new])"
    using na by (auto intro!: filter_cong)
  with connecting_process_gets_requests_lemma [OF p' _ dom, of conn] io dom na assms(6,7) show ?thesis
    by auto
qed

text \<open>A control plane with one process that has one session and is not connected.\<close>

definition demo_process :: CProcess where
  "demo_process = (CProcess_init 4)\<lparr>cp_process_id := ''pppppppppppppppp'', global_process_id := ''fedcba9876543210'',
     allocated_sessions := 1, proc_sessions := [''ssssssssssssssss'']\<rparr>"

definition demo_control :: "map_db control" where
  "demo_control = \<lparr>redis_st = demo_db,
     resources = \<lparr>sessions_map = [''ssssssssssssssss'' \<mapsto> Session_init (1, 64, False) ''ssssssssssssssss''],
       processes = [(''pppppppppppppppp'', demo_process)]\<rparr>,
     backend = Some demo_backend, io = [], epoll = Map.empty\<rparr>"

lemma demo_inv: "res_inv (resources demo_control)"
  by (simp add: demo_control_def demo_process_def res_inv_def proc_ok_def CProcess_init_def Session_init_def)

lemma demo_free:
  "\<exists>r. get_free_process pid (resources demo_control) = (Some ''pppppppppppppppp'', r)"
  by (simp add: demo_control_def demo_process_def get_free_process_def CProcess_init_def)

theorem request_to_unconnected_process_lost_witness:
  "\<exists>c'. process_client map_redis demo_env ''fedcba9876543210'' '''' ''f'' ''1'' 1 64 ''x'' demo_control =
     Inr ((200, ''0123456789abcdef''), c') \<and> io c' = io demo_control \<and>
     get_session ''0123456789abcdef'' (resources c') \<noteq> None"
proof -
  let ?k = "''pppppppppppppppp''"
  obtain r where r: "get_free_process ''fedcba9876543210'' (resources demo_control) = (Some ?k, r)"
    using demo_free by blast
  have p: "get_process ?k (resources demo_control) = Some demo_process"
    by (simp add: demo_control_def get_process_def)
  obtain c' where c': "process_client map_redis demo_env ''fedcba9876543210'' '''' ''f'' ''1'' 1 64 ''x'' demo_control =
      Inr ((200, ''0123456789abcdef''), c')"
    using r by (simp add: process_client_def client_session_def map_redis_def demo_db_def demo_env_def Let_def
        demo_control_def)
  have "hash_order (ce_place demo_env)" "connection demo_process = None" "distinct (''0123456789abcdef'' # proc_sessions demo_process)"
    "ProcessMessage_process_id (to_bytes ?k) = ?k"
    by (simp_all add: demo_env_def demo_process_def CProcess_init_def ProcessMessage_process_id_def string_n_def sub_bytes_def)
  from request_to_unconnected_process_lost [OF demo_inv this(1) c' r p this(2-4), of 7] c' show ?thesis
    by blast
qed

section \<open>Swapping through Redis\<close>

lemma redis_laws:
  assumes "redis_ok api strs members"
  shows "string_key k \<Longrightarrow> rget api s k = strs s k"
    and "string_key k \<Longrightarrow> strs (rset api s k v) = (strs s)(k \<mapsto> v)"
    and "string_key k \<Longrightarrow> members (rset api s k v) = members s"
    and "set_key k \<Longrightarrow> sismember api s k x = (x \<in> members s k)"
    and "set_key k \<Longrightarrow> members (sadd api s k x) = (members s)(k := insert x (members s k))"
    and "set_key k \<Longrightarrow> strs (sadd api s k x) = strs s"
    and "set_key k \<Longrightarrow> fst (srem api s k x) = (if x \<in> members s k then 1 else 0)"
    and "set_key k \<Longrightarrow> members (snd (srem api s k x)) = (members s)(k := members s k - {x})"
    and "set_key k \<Longrightarrow> strs (snd (srem api s k x)) = strs s"
  using assms unfolding redis_ok_def by blast+

lemma client_session_new:
  "client_session api u pid '''' mf ms rs =
     (Inr (take 16 u, mf, ms, False),
      rset api rs (session_key (take 16 u)) (to_string32 ms @ '';'' @ to_string32 mf))"
  by (simp add: client_session_def Let_def)

lemma config_split:
  "split (to_string32 ms @ '';'' @ to_string32 mf) (CHR '';'') = (to_string32 ms, to_string32 mf)"
proof -
  have "\<not> is_digit (CHR '';'')" by (simp add: is_digit_def)
  then have "CHR '';'' \<notin> set (to_string32 ms)" by (simp add: to_string32_def int_string_no)
  then show ?thesis using split_append by simp
qed

lemma client_session_swapped:
  assumes "redis_ok api strs members" and "sid \<noteq> ''''"
    and "sid \<notin> members rs (alive_key pid)" and "sid \<in> members rs (swapped_key pid)"
    and "strs rs (session_key sid) = Some (to_string32 ms0 @ '';'' @ to_string32 mf0)"
  shows "\<exists>rs'. client_session api u pid sid mf ms rs = (Inr (sid, mf0, ms0 * (-1), True), rs')"
proof -
  note l = redis_laws [OF assms(1)]
  obtain n rs1 where s: "srem api rs (swapped_key pid) sid = (n, rs1)" by fastforce
  have "n = 1" using l(7) [of "swapped_key pid" rs sid] s assms(4) by simp
  moreover have "strs rs1 = strs rs" using l(9) [of "swapped_key pid" rs sid] s by simp
  ultimately show ?thesis
    using assms(2,3,5) s l(1,4)
    by (simp add: client_session_def config_split [simplified] from_chars_to_string32)
qed

lemma client_session_alive:
  assumes "redis_ok api strs members" and "sid \<noteq> ''''" and "sid \<in> members rs (alive_key pid)"
  shows "client_session api u pid sid mf ms rs = (Inl ''Session is already alive!'', rs)"
  using assms redis_laws(4) [OF assms(1)] by (simp add: client_session_def)

lemma allocate_in_process_redis [simp]:
  "redis_st (allocate_in_process junk k sid mf ms sw alloc c) = redis_st c"
  by (auto simp: allocate_in_process_def send_session_request_def split: option.splits prod.splits)

lemma allocate_new_process_redis:
  "allocate_new_process place junk uuid pid sid mf ms sw alloc c = Inr c' \<Longrightarrow> redis_st c' = redis_st c"
  by (auto simp: allocate_new_process_def Let_def dest!: allocate_process_resources split: prod.splits)

lemma process_client_redis:
  assumes "process_client api env pid sid fname fid mf ms pl c = Inr ((200, new), c')"
  obtains mf' ms' sw rs where
    "client_session api (ce_session_uuid env) pid sid mf ms (redis_st c) = (Inr (new, mf', ms', sw), rs)"
    and "redis_st c' = sadd api rs (alive_key pid) new"
    and "rget api (redis_st c) (process_key pid) \<noteq> None"
  using assms
  by (cases rule: process_client_cases) (auto dest!: allocate_new_process_redis)

text \<open>The session object after a request, whichever process it went to.\<close>

definition has_limits :: "Resources \<Rightarrow> string \<Rightarrow> i32 \<Rightarrow> i32 \<Rightarrow> bool \<Rightarrow> bool" where
  "has_limits r sid mf ms sw \<longleftrightarrow>
     (\<exists>s. get_session sid r = Some s \<and> max_functions s = mf \<and> ses_memory_size s = ms \<and> swap_in s = sw)"

lemma setup_session_limits:
  "has_limits (snd (setup_session junk k sid mf ms sw alloc r)) sid mf ms sw"
proof -
  obtain s where "sessions_map (snd (add_session junk k sid r)) sid = Some s"
    by (cases "sessions_map r sid") auto
  then show ?thesis by (simp add: setup_session_def has_limits_def case_prod_beta)
qed

lemma send_session_request_limits:
  "has_limits (resources c) sid mf ms sw \<Longrightarrow>
     has_limits (resources (snd (send_session_request sid' conn req c))) sid mf ms sw"
  by (auto simp: send_session_request_def has_limits_def split: option.splits prod.splits)

lemma fst_setup_session [simp]: "fst (setup_session junk k sid mf ms sw alloc r) = sid"
  by (auto simp: setup_session_def split: prod.splits dest: arg_cong [where f = fst])

lemma process_client_limits:
  assumes "process_client api env pid sid fname fid mf ms pl c = Inr ((200, new), c')"
    and "client_session api (ce_session_uuid env) pid sid mf ms (redis_st c) = (Inr (new, mf', ms', sw), rs)"
  shows "has_limits (resources c') new mf' ms' sw"
  using assms(1)
proof (cases rule: process_client_cases)
  case (existing mf2 ms2 sw2 rs2 k r c1)
  then show ?thesis
    using assms(2) by (simp add: allocate_in_process_def case_prod_beta Let_def
        send_session_request_limits setup_session_limits)
next
  case (fresh mf2 ms2 sw2 rs2 c1)
  from allocate_process_resources [OF fresh(5) [unfolded allocate_new_process_def Let_def case_prod_beta]]
  show ?thesis using assms(2) fresh(3,6) by (simp add: setup_session_limits)
qed simp_all

lemma remove_session_process:
  assumes "get_process k r = Some p"
  shows "\<exists>p'. get_process k (remove_session k sid r) = Some p' \<and> global_process_id p' = global_process_id p \<and>
    cp_process_id p' = cp_process_id p \<and> connection p' = connection p"
  using assms by (auto simp: remove_session_def Let_def)

lemma remove_session_map [simp]: "sessions_map (remove_session k sid r) = sessions_map r"
  by (simp add: remove_session_def Let_def split: option.splits)

text \<open>What the closure of a session does to the sets of the process it ran in.\<close>

lemma closure_redis:
  assumes "redis_ok api strs members" and "get_process k (resources c) = Some p"
  shows "strs (redis_st (handle_session_closure api k n sid c)) = strs (redis_st c)"
    and "sid \<notin> members (redis_st (handle_session_closure api k n sid c)) (alive_key (global_process_id p))"
    and "sid \<in> members (redis_st (handle_session_closure api k n sid c)) (swapped_key (global_process_id p))"
    and "g \<noteq> cp_process_id p \<Longrightarrow> g \<noteq> global_process_id p \<Longrightarrow>
      members (redis_st (handle_session_closure api k n sid c)) (alive_key g) = members (redis_st c) (alive_key g)"
proof -
  obtain p' where "get_process k (remove_session k sid (resources c)) = Some p'"
    and "global_process_id p' = global_process_id p" "cp_process_id p' = cp_process_id p"
    using remove_session_process [OF assms(2)] by blast
  then have rs: "redis_st (handle_session_closure api k n sid c) =
      snd (srem api (sadd api (snd (srem api (redis_st c) (alive_key (cp_process_id p)) sid))
         (swapped_key (global_process_id p)) sid) (alive_key (global_process_id p)) sid)"
    by (simp add: handle_session_closure_def Let_def)
  note l = redis_laws [OF assms(1)]
  show "strs (redis_st (handle_session_closure api k n sid c)) = strs (redis_st c)"
    "sid \<notin> members (redis_st (handle_session_closure api k n sid c)) (alive_key (global_process_id p))"
    "sid \<in> members (redis_st (handle_session_closure api k n sid c)) (swapped_key (global_process_id p))"
    unfolding rs by (simp_all add: l)
  show "members (redis_st (handle_session_closure api k n sid c)) (alive_key g) = members (redis_st c) (alive_key g)"
    if "g \<noteq> cp_process_id p" "g \<noteq> global_process_id p"
    unfolding rs using that by (simp add: l)
qed

text \<open>
  C14: the limits of a session survive being swapped out. A client creates a session; the process
  it runs in belongs to the client's process and reports its closure; the same client asks for
  the session again. Then it is answered 200 with the same identifier, and the session object
  has the function limit it was created with and the negated memory size, which is how a session
  to swap in is marked.
\<close>

theorem swapped_session_keeps_limits:
  assumes "redis_ok api strs members"
    and "process_client api env pid '''' fname fid mf ms pl c = Inr ((200, sid), c1)" and "sid \<noteq> ''''"
    and "get_process k (resources c1) = Some p" and "global_process_id p = pid"
    and "process_client api env2 pid sid fname2 fid2 mf2 ms2 pl2 (handle_session_closure api k n sid c1) =
      Inr ((code, msg), c3)"
  shows "code = 200 \<and> msg = sid \<and> has_limits (resources c3) sid mf (ms * (-1)) True"
proof -
  let ?c2 = "handle_session_closure api k n sid c1"
  note l = redis_laws [OF assms(1)] and cl = closure_redis [OF assms(1,4)]
  obtain rs where sid: "sid = take 16 (ce_session_uuid env)"
    and rs: "rs = rset api (redis_st c) (session_key sid) (to_string32 ms @ '';'' @ to_string32 mf)"
    and c1: "redis_st c1 = sadd api rs (alive_key pid) sid" and ex: "strs (redis_st c) (process_key pid) \<noteq> None"
    using assms(2) by (rule process_client_redis) (auto simp: client_session_new l(1))
  have "strs (redis_st ?c2) = (strs (redis_st c))(session_key sid \<mapsto> to_string32 ms @ '';'' @ to_string32 mf)"
    unfolding cl(1) c1 rs by (simp add: l)
  then have cfg: "strs (redis_st ?c2) (session_key sid) = Some (to_string32 ms @ '';'' @ to_string32 mf)"
    and name: "rget api (redis_st ?c2) (process_key pid) \<noteq> None"
    using ex by (simp_all add: l(1))
  obtain rs2 where cs: "client_session api (ce_session_uuid env2) pid sid mf2 ms2 (redis_st ?c2) =
      (Inr (sid, mf, ms * (-1), True), rs2)"
    using client_session_swapped [OF assms(1,3) _ _ cfg] cl(2,3) assms(5) by blast
  from assms(6) have "code = 200 \<and> msg = sid"
    by (cases rule: process_client_cases) (use name cs in simp_all)
  with process_client_limits [OF _ cs] assms(6) show ?thesis by simp
qed

text \<open>
  A swapped session that is requested again when every process is full is lost. The closure
  of a session leaves its object in the table, with \<open>allocated\<close> set; a process started for it
  later, once connected, is sent no request for it.
\<close>

lemma swapped_session_request_lost:
  assumes "res_inv (resources c)" and "hash_order (ce_place env)"
    and "get_session sid (resources c) = Some s" and "allocated s"
    and "process_client api env pid sid fname fid mf ms pl c = Inr ((200, sid), c')"
    and "get_free_process pid (resources c) = (None, r)"
    and "ProcessMessage_process_id buf = take 16 (ce_process_uuid env)"
  shows "get_session sid (resources (handle_session_closure api k n sid c0)) = get_session sid (resources c0) \<and>
    (\<exists>p c''. get_process (take 16 (ce_process_uuid env)) (resources c') = Some p \<and> proc_sessions p = [sid] \<and>
       process_process True conn buf c' = Inr c'' \<and> io c'' = io c')"
proof
  show "get_session sid (resources (handle_session_closure api k n sid c0)) = get_session sid (resources c0)"
    by (simp add: handle_session_closure_def Let_def split: option.splits)
  let ?k = "take 16 (ce_process_uuid env)"
  let ?p = "\<lambda>pid. (CProcess_init max_sessions_per_process)\<lparr>cp_process_id := ?k, global_process_id := pid,
      allocated_sessions := 1\<rparr>"
  have inv': "res_inv (resources c')" by (rule process_client_inv [OF assms(1,2,5)])
  from assms(5) have "get_process ?k (resources c') = Some ((?p pid)\<lparr>proc_sessions := [sid],
      busy := (case get_process ?k (resources c) of None \<Rightarrow> False | Some q \<Rightarrow> busy q)\<rparr>) \<and>
    \<not> unallocated (resources c') sid"
  proof (cases rule: process_client_cases)
    case (fresh mf' ms' sw rs c1)
    have d: "distinct (map fst (processes (resources c)))" using assms(1) by (simp add: res_inv_def)
    note ap = add_process_simps [OF assms(2) d]
    from allocate_process_resources [OF fresh(5) [unfolded allocate_new_process_def Let_def case_prod_beta]] fresh(6)
    show ?thesis
      using assms(3,4)
      by (simp add: setup_session_def case_prod_beta ap unallocated_def CProcess_init_def split: option.splits)
  qed (use assms(6) in simp_all)
  then have p: "get_process (ProcessMessage_process_id buf) (resources c') = Some ((?p pid)\<lparr>proc_sessions := [sid],
      busy := (case get_process ?k (resources c) of None \<Rightarrow> False | Some q \<Rightarrow> busy q)\<rparr>)" (is "_ = Some ?q")
    and u: "\<not> unallocated (resources c') sid" using assms(7) by simp_all
  have "proc_ok (sessions_map (resources c')) (ProcessMessage_process_id buf) ?q"
    using inv' p unfolding res_inv_lookup by blast
  then have dom: "set (proc_sessions ?q) \<subseteq> dom (sessions_map (resources c'))" unfolding proc_ok_def by blast
  from connecting_process_gets_requests_lemma [OF p _ dom, of conn] p u assms(7)
  show "\<exists>p c''. get_process ?k (resources c') = Some p \<and> proc_sessions p = [sid] \<and>
      process_process True conn buf c' = Inr c'' \<and> io c'' = io c'"
    by (auto simp: CProcess_init_def)
qed

lemma process_client_returns:
  assumes "backend c \<noteq> None"
  shows "\<exists>code msg c'. process_client api env pid sid fname fid mf ms pl c = Inr ((code, msg), c')"
  using assms
  by (auto simp: process_client_def allocate_new_process_def LocalBackend_allocate_process_def Let_def
      split: option.splits sum.splits prod.splits)

text \<open>
  C38: \<open>get_free_process\<close> ignores which process the client asked for. A session placed in a
  process of another client's process is, after it closes, still listed as alive for its own client,
  who is refused from then on, and listed as swapped for the other, who can bring it back.
\<close>

theorem session_in_foreign_process:
  assumes "redis_ok api strs members"
    and "process_client api env pid '''' fname fid mf ms pl c = Inr ((200, sid), c1)" and "sid \<noteq> ''''"
    and "get_process k (resources c1) = Some p" and "global_process_id p \<noteq> pid" and "cp_process_id p \<noteq> pid"
  shows "process_client api env2 pid sid fname2 fid2 mf2 ms2 pl2 (handle_session_closure api k n sid c1) =
      Inr ((400, ''Session is already alive!''), handle_session_closure api k n sid c1) \<and>
    (\<exists>rs'. client_session api u (global_process_id p) sid mf2 ms2 (redis_st (handle_session_closure api k n sid c1)) =
      (Inr (sid, mf, ms * (-1), True), rs'))"
proof -
  let ?c2 = "handle_session_closure api k n sid c1"
  note l = redis_laws [OF assms(1)] and cl = closure_redis [OF assms(1,4)]
  obtain rs where rs: "rs = rset api (redis_st c) (session_key sid) (to_string32 ms @ '';'' @ to_string32 mf)"
    and c1: "redis_st c1 = sadd api rs (alive_key pid) sid" and ex: "strs (redis_st c) (process_key pid) \<noteq> None"
    using assms(2) by (rule process_client_redis) (auto simp: client_session_new l(1))
  have strs: "strs (redis_st ?c2) = (strs (redis_st c))(session_key sid \<mapsto> to_string32 ms @ '';'' @ to_string32 mf)"
    unfolding cl(1) c1 rs by (simp add: l)
  then have cfg: "strs (redis_st ?c2) (session_key sid) = Some (to_string32 ms @ '';'' @ to_string32 mf)" by simp
  have name: "rget api (redis_st ?c2) (process_key pid) \<noteq> None" using strs ex by (simp add: l(1))
  have "sid \<in> members (redis_st ?c2) (alive_key pid)"
    using cl(4) [of pid] assms(5,6) by (simp add: c1 l)
  then have alive: "client_session api (ce_session_uuid env2) pid sid mf2 ms2 (redis_st ?c2) =
      (Inl ''Session is already alive!'', redis_st ?c2)"
    by (rule client_session_alive [OF assms(1,3)])
  have "process_client api env2 pid sid fname2 fid2 mf2 ms2 pl2 ?c2 = Inr ((400, ''Session is already alive!''), ?c2)"
    using name by (auto simp: process_client_def alive)
  with client_session_swapped [OF assms(1,3) cl(2,3) cfg] show ?thesis by blast
qed

lemma demo_client:
  assumes "pid \<in> {''fedcba9876543210'', ''tenant-b''}"
  shows "\<exists>c1 p. process_client map_redis demo_env pid '''' ''f'' ''1'' 1 64 ''x'' demo_control =
      Inr ((200, ''0123456789abcdef''), c1) \<and>
    get_process ''pppppppppppppppp'' (resources c1) = Some p \<and> global_process_id p = ''fedcba9876543210'' \<and>
    cp_process_id p = ''pppppppppppppppp'' \<and> backend c1 \<noteq> None"
  using assms
  by (auto simp: process_client_def client_session_def demo_env_def map_redis_def demo_control_def demo_db_def
      get_free_process_def demo_process_def CProcess_init_def allocate_in_process_def setup_session_def
      add_session_def get_process_def update_process_def update_session_def send_session_request_def sock_write_def
      case_prod_beta Let_def)

theorem swapped_session_keeps_limits_witness:
  "\<exists>c1 c3. process_client map_redis demo_env ''fedcba9876543210'' '''' ''f'' ''1'' 1 64 ''x'' demo_control =
      Inr ((200, ''0123456789abcdef''), c1) \<and>
    process_client map_redis demo_env ''fedcba9876543210'' ''0123456789abcdef'' '''' '''' 0 0 ''''
      (handle_session_closure map_redis ''pppppppppppppppp'' 65536 ''0123456789abcdef'' c1) =
      Inr ((200, ''0123456789abcdef''), c3) \<and>
    has_limits (resources c3) ''0123456789abcdef'' 1 (64 * (-1)) True"
proof -
  let ?s = "''0123456789abcdef''" and ?pid = "''fedcba9876543210''" and ?k = "''pppppppppppppppp''"
  obtain c1 p where c1: "process_client map_redis demo_env ?pid '''' ''f'' ''1'' 1 64 ''x'' demo_control = Inr ((200, ?s), c1)"
    and p: "get_process ?k (resources c1) = Some p" "global_process_id p = ?pid" and b: "backend c1 \<noteq> None"
    using demo_client [of ?pid] by auto
  let ?c2 = "handle_session_closure map_redis ?k 65536 ?s c1"
  have "backend ?c2 \<noteq> None" using b by (simp add: handle_session_closure_def Let_def split: option.splits)
  then obtain code msg c3 where c3: "process_client map_redis demo_env ?pid ?s '''' '''' 0 0 '''' ?c2 = Inr ((code, msg), c3)"
    using process_client_returns by blast
  from swapped_session_keeps_limits [OF map_redis_ok c1 _ p c3] c1 c3 show ?thesis by auto
qed

theorem session_in_foreign_process_witness:
  "\<exists>c1. process_client map_redis demo_env ''tenant-b'' '''' ''f'' ''1'' 1 64 ''x'' demo_control =
      Inr ((200, ''0123456789abcdef''), c1) \<and>
    process_client map_redis demo_env ''tenant-b'' ''0123456789abcdef'' '''' '''' 0 0 ''''
      (handle_session_closure map_redis ''pppppppppppppppp'' 0 ''0123456789abcdef'' c1) =
      Inr ((400, ''Session is already alive!''), handle_session_closure map_redis ''pppppppppppppppp'' 0 ''0123456789abcdef'' c1)"
proof -
  let ?s = "''0123456789abcdef''" and ?pid = "''tenant-b''" and ?k = "''pppppppppppppppp''"
  obtain c1 p where c1: "process_client map_redis demo_env ?pid '''' ''f'' ''1'' 1 64 ''x'' demo_control = Inr ((200, ?s), c1)"
    and p: "get_process ?k (resources c1) = Some p" "global_process_id p \<noteq> ?pid" "cp_process_id p \<noteq> ?pid"
    using demo_client [of ?pid] by auto
  from session_in_foreign_process [OF map_redis_ok c1 _ p, of demo_env "''''" "''''" 0 0 "''''" 0] c1 show ?thesis
    by blast
qed

section \<open>Requests and their answers\<close>

lemma client_session_result:
  assumes "redis_ok api strs members"
  shows "(\<exists>msg rs'. client_session api u pid sid mf ms rs = (Inl msg, rs')) \<longleftrightarrow>
      sid \<noteq> '''' \<and> (sid \<in> members rs (alive_key pid) \<or> sid \<notin> members rs (swapped_key pid) \<or> strs rs (session_key sid) = None)"
    and "client_session api u pid sid mf ms rs = (res, rs') \<Longrightarrow> members rs' (alive_key g) = members rs (alive_key g)"
    and "client_session api u pid sid mf ms rs = (Inr (new, mf', ms', sw), rs') \<Longrightarrow> sid \<noteq> '''' \<Longrightarrow> new = sid"
proof -
  note l = redis_laws [OF assms]
  obtain n rs1 where s: "srem api rs (swapped_key pid) sid = (n, rs1)" by fastforce
  have n: "n = (if sid \<in> members rs (swapped_key pid) then 1 else 0)"
    and m: "members rs1 = (members rs)(swapped_key pid := members rs (swapped_key pid) - {sid})" "strs rs1 = strs rs"
    using l(7-9) [of "swapped_key pid" rs sid] s by simp_all
  show "(\<exists>msg rs'. client_session api u pid sid mf ms rs = (Inl msg, rs')) \<longleftrightarrow>
      sid \<noteq> '''' \<and> (sid \<in> members rs (alive_key pid) \<or> sid \<notin> members rs (swapped_key pid) \<or> strs rs (session_key sid) = None)"
    using n m s by (auto simp: client_session_def l(1,4) Let_def split: option.splits prod.splits)
  show "members rs' (alive_key g) = members rs (alive_key g)"
    if "client_session api u pid sid mf ms rs = (res, rs')"
    using that n m s by (auto simp: client_session_def l(1,3,4) Let_def split: option.splits prod.splits if_splits)
  show "new = sid" if "client_session api u pid sid mf ms rs = (Inr (new, mf', ms', sw), rs')" "sid \<noteq> ''''"
    using that s by (auto simp: client_session_def Let_def split: option.splits prod.splits if_splits)
qed

text \<open>
  C15: a client is answered 400 exactly when its process is unknown or it names a session that is
  alive, was not swapped out, or has no stored configuration, and 200 otherwise. A refusal
  changes no table, sends nothing and marks no session as alive; with 200 the session in the answer,
  the one asked for if one was, is marked as alive.
\<close>

theorem client_answer:
  assumes "redis_ok api strs members"
    and "process_client api env pid sid fname fid mf ms pl c = Inr ((code, msg), c')"
  shows "code = (if strs (redis_st c) (process_key pid) = None \<or>
      sid \<noteq> '''' \<and> (sid \<in> members (redis_st c) (alive_key pid) \<or> sid \<notin> members (redis_st c) (swapped_key pid) \<or>
        strs (redis_st c) (session_key sid) = None) then 400 else 200) \<and>
    (code = 400 \<longrightarrow> resources c' = resources c \<and> io c' = io c \<and>
       members (redis_st c') (alive_key g) = members (redis_st c) (alive_key g)) \<and>
    (code = 200 \<longrightarrow> msg \<in> members (redis_st c') (alive_key pid) \<and> (sid \<noteq> '''' \<longrightarrow> msg = sid))"
proof -
  note l = redis_laws [OF assms(1)] and r = client_session_result [OF assms(1)]
  from assms(2) show ?thesis
  proof (cases rule: process_client_cases)
    case no_process
    then show ?thesis by (simp add: l(1))
  next
    case (refused rs)
    with r(1) [of "ce_session_uuid env" pid sid mf ms "redis_st c"] r(2) [OF refused(4), of g] show ?thesis
      by (auto simp: l(1))
  next
    case (existing mf' ms' sw rs k r c1)
    with r(1) [of "ce_session_uuid env" pid sid mf ms "redis_st c"] r(3) [OF existing(3)] show ?thesis
      by (auto simp: l)
  next
    case (fresh mf' ms' sw rs c1)
    with r(1) [of "ce_session_uuid env" pid sid mf ms "redis_st c"] r(3) [OF fresh(3)] show ?thesis
      by (auto simp: l)
  qed
qed

theorem client_answer_witness:
  "\<exists>c'. process_client map_redis demo_env ''tenant-b'' '''' ''f'' ''1'' 1 64 ''x'' demo_control =
     Inr ((200, ''0123456789abcdef''), c') \<and> ''0123456789abcdef'' \<in> snd (redis_st c') (alive_key ''tenant-b'')"
proof -
  obtain c' where c': "process_client map_redis demo_env ''tenant-b'' '''' ''f'' ''1'' 1 64 ''x'' demo_control =
      Inr ((200, ''0123456789abcdef''), c')"
    using demo_client [of "''tenant-b''"] by auto
  from client_answer [OF map_redis_ok c'] c' show ?thesis by auto
qed

section \<open>Invocations handed to a session\<close>

definition alloc_msgs :: "nat \<Rightarrow> PendingAllocation \<Rightarrow> io list" where
  "alloc_msgs conn a =
     [Write conn (invocation_encode (function_name a, function_id a, word_of_nat (length (payload a)))),
      Write conn (to_bytes (payload a))]"

definition clean_inv :: "bytes \<Rightarrow> bool" where
  "clean_inv req \<longleftrightarrow> length req = 39 \<and> take 2 (drop 4 req) = [0, 0] \<and> drop 38 req = [0]"

lemma clean_inv_init [simp]: "clean_inv Request_init"
  by (simp add: clean_inv_def Request_init_def Request_EXPECTED_LENGTH_def eval_nat_numeral)

lemma clean_inv_fill:
  assumes "clean_inv req"
  shows "snd (FunctionRequest_fill fn fid ps req) = invocation_encode (fn, fid, ps)"
    and "clean_inv (snd (FunctionRequest_fill fn fid ps req))"
proof -
  have l: "38 \<le> length req" "38 \<le> length Request_init" using assms by (simp_all add: clean_inv_def)
  show "snd (FunctionRequest_fill fn fid ps req) = invocation_encode (fn, fid, ps)"
    using assms clean_inv_init by (simp add: FunctionRequest_fill_bytes l clean_inv_def)
  show "clean_inv (snd (FunctionRequest_fill fn fid ps req))"
    using assms by (simp add: FunctionRequest_fill_bytes l clean_inv_def)
qed

lemma send_invocations_io:
  "clean_inv req \<Longrightarrow> io (send_invocations items (Some conn) req c) = io c @ concat (map (alloc_msgs conn) items)"
proof (induction items arbitrary: req c)
  case (Cons a items)
  let ?ps = "word_of_nat (length (payload a)) :: i32"
  let ?e = "invocation_encode (function_name a, function_id a, ?ps)"
  have f: "FunctionRequest_fill (function_name a) (function_id a) ?ps req = (39, ?e)"
    using clean_inv_fill(1) [OF Cons.prems] fst_fill(3) Request_EXPECTED_LENGTH_def by (metis prod.collapse)
  have "take 39 ?e = ?e" using invocation_length by (metis order_refl take_all)
  moreover have "clean_inv ?e" using clean_inv_fill [OF Cons.prems] by metis
  ultimately show ?case
    using Cons.IH [of ?e] by (simp add: f Let_def sock_write_def alloc_msgs_def Request_EXPECTED_LENGTH_def
        del: invocation_encode.simps)
qed simp

text \<open>
  C27: a session that connects is sent every pending invocation in the order in which the clients
  asked for them, each as a header and its payload, then the connection is closed and nothing is
  pending; a header is decoded by the session as the name, the identifier and the size of the
  payload that follows, for names and identifiers of at most 16 characters and payloads below
  65536 bytes.
\<close>

theorem connecting_session_gets_invocations:
  assumes "get_session (SessionMessage_session_id buf) (resources c) = Some s" and "allocations s \<noteq> []"
    and "ses_connection s = None"
  shows "io (process_session conn buf c) = io c @ concat (map (alloc_msgs conn) (allocations s)) @ [Close conn] \<and>
    (\<exists>s'. get_session (SessionMessage_session_id buf) (resources (process_session conn buf c)) = Some s' \<and>
       allocations s' = []) \<and>
    (\<forall>a \<in> set (allocations s). name16 (function_name a) \<and> name16 (function_id a) \<and> length (payload a) < 65536 \<longrightarrow>
       invocation_decode (invocation_encode (function_name a, function_id a, word_of_nat (length (payload a)))) =
         Some (function_name a, function_id a, word_of_nat (length (payload a))))"
proof -
  have "invocation_valid (fn, fid, word_of_nat n)" if "name16 fn" "name16 fid" "n < 65536" for fn fid n
    using that by (simp add: unsigned_of_nat take_bit_nat_eq_self)
  then have "invocation_decode (invocation_encode (fn, fid, word_of_nat n)) = Some (fn, fid, word_of_nat n)"
    if "name16 fn" "name16 fid" "n < 65536" for fn fid n
    using that invocation_req.decode_encode by blast
  then show ?thesis
    using assms
    by (simp add: process_session_def Let_def sock_close_io send_invocations_io del: invocation_encode.simps)
qed

theorem connecting_session_gets_invocations_witness:
  "io (process_session 5 (to_bytes ''ssssssssssssssss'')
     (demo_control\<lparr>resources := update_session ''ssssssssssssssss''
        (\<lambda>s. s\<lparr>allocations := [\<lparr>payload = ''x'', function_name = ''f'', function_id = ''1''\<rparr>]\<rparr>) (resources demo_control)\<rparr>)) =
   alloc_msgs 5 \<lparr>payload = ''x'', function_name = ''f'', function_id = ''1''\<rparr> @ [Close 5]"
proof -
  let ?a = "\<lparr>payload = ''x'', function_name = ''f'', function_id = ''1''\<rparr>"
  let ?c = "demo_control\<lparr>resources := update_session ''ssssssssssssssss'' (\<lambda>s. s\<lparr>allocations := [?a]\<rparr>) (resources demo_control)\<rparr>"
  have "SessionMessage_session_id (to_bytes ''ssssssssssssssss'') = ''ssssssssssssssss''"
    by (simp add: SessionMessage_session_id_def string_n_def sub_bytes_def)
  then obtain s where s: "get_session (SessionMessage_session_id (to_bytes ''ssssssssssssssss'')) (resources ?c) = Some s"
    "allocations s = [?a]" "ses_connection s = None"
    by (simp add: demo_control_def Session_init_def)
  from connecting_session_gets_invocations [OF s(1) _ s(3), of 5] s(2) show ?thesis
    by (simp add: demo_control_def)
qed

section \<open>Short and unreadable messages\<close>

lemma send_requests_processes [simp]:
  "get_process k (resources (send_requests sids conn req c)) = get_process k (resources c)"
proof (induction sids arbitrary: req c)
  case (Cons sid sids)
  have "get_process k (resources (snd (send_session_request sid conn req c))) = get_process k (resources c)"
    by (simp add: send_session_request_def split: option.splits prod.splits)
  with Cons show ?case by (auto split: option.splits prod.splits)
qed simp

text \<open>
  C39: the size of what \<open>read_n\<close> delivered is not compared with the size of a header, and the
  buffer belongs to the thread. A peer that sends the two bytes of a process identification and
  closes its side is taken for the process whose identification that thread read before: its
  connection replaces that of the process.
\<close>

theorem short_header_takes_over_process:
  assumes "ws tid = Some w" and "length (header w) = Header_BUF_SIZE"
    and "ProcessMessage_process_id (drop 2 (header w)) = k"
    and "get_process k (resources c) = Some p"
  shows "\<exists>ws' c' p'. Worker_worker True junk tid conn 2 [1, 0] (ws, c) = Inr (ws', c') \<and>
    get_process k (resources c') = Some p' \<and> connection p' = Some conn"
proof -
  have h: "put 0 [1, 0] (header w) = [1, 0] @ drop 2 (header w)"
    by (simp add: put_def numeral_2_eq_2)
  have "get16 0 ([1, 0] @ drop 2 (header w)) = 1"
    by (simp add: get16_def sub_bytes_def numeral_2_eq_2)
  then have "Header_parse (put 0 [1, 0] (header w)) = Some (ProcessMessage (drop 2 (header w)))"
    by (simp add: h Header_parse_def Let_def)
  then show ?thesis
    using assms by (simp add: Worker_worker_def Workers_get_def process_process_def add_epoll_def Let_def)
qed

theorem short_header_takes_over_process_witness:
  "\<exists>ws' c' p'. Worker_worker True [] 0 9 2 [1, 0]
     ([0 \<mapsto> Worker_init (note_encode (Identify_Process ''pppppppppppppppp''))], demo_control) = Inr (ws', c') \<and>
     get_process ''pppppppppppppppp'' (resources c') = Some p' \<and> connection p' = Some 9"
proof (rule short_header_takes_over_process)
  let ?w = "Worker_init (note_encode (Identify_Process ''pppppppppppppppp''))"
  have "note_decode (note_encode (Identify_Process ''pppppppppppppppp'')) = Some (Identify_Process ''pppppppppppppppp'')"
    by (rule note_decode_encode) (simp add: id16_def)
  then show "ProcessMessage_process_id (drop 2 (header ?w)) = ''pppppppppppppppp''"
    by (auto simp: note_decode_def Header_parse_def Let_def Worker_init_def simp del: note_encode.simps
        split: if_splits option.splits message.splits)
  show "get_process ''pppppppppppppppp'' (resources demo_control) = Some demo_process"
    by (simp add: demo_control_def get_process_def)
  show "length (header ?w) = Header_BUF_SIZE"
    using note_length by (simp add: Worker_init_def Header_BUF_SIZE_def del: note_encode.simps)
qed simp

text \<open>
  After a message of a process that has none of the four known types, the connection of the
  process is left disarmed, so that nothing it sends later is reported.
\<close>

lemma unreadable_message_disarms:
  assumes "get_process k (resources (control s)) = Some p" and "connection p = Some h"
    and "Header_parse msg = None" and "n \<noteq> 0" and "n \<noteq> -1"
  shows "\<exists>s'. run_task api e (Message_task k msg n) (server_event (Activity k msg n) s) = Inr s' \<and>
    epoll (control s') h = Some False \<and>
    \<not> only_armed (Events [Activity k msg2 n2]) (control s')"
  using assms by (simp add: handle_message_def disarm_def only_armed_def get_process_def)

end
