(* ===== verification/Shared_Memory.thy ===== *)
theory Shared_Memory
  imports Interfaces
begin

text \<open>
  The swappers of \<open>src/runtime/include/praas/swapper.hpp\<close> and \<open>src/runtime/lib/swapper.cpp\<close>,
  the class \<open>SharedMemory\<close> of \<open>src/runtime/include/praas/session.hpp\<close> and
  \<open>src/runtime/lib/session.cpp\<close>, and \<open>SessionFork\<close>, which a process keeps per session.
  The POSIX objects they use are an explicit state: the named shared memory objects and the
  mappings. The AWS SDK is a parameter (\<open>s3\<close>); which system calls fail is an input
  (\<open>shm_env\<close>).
\<close>

section \<open>Swappers\<close>

text \<open>
  The two calls of the S3 client. \<open>GetObject\<close> is given the memory behind the response stream and
  returns its new contents.
\<close>

record 's s3 =
  PutObject :: "'s \<Rightarrow> string \<Rightarrow> string \<Rightarrow> bytes \<Rightarrow> bool \<times> 's"
  GetObject :: "'s \<Rightarrow> string \<Rightarrow> string \<Rightarrow> bytes \<Rightarrow> bool \<times> bytes"

text \<open>
  What the code relies on of the service: a successful put stores the object under its bucket and
  key and touches no other, a failed one stores nothing, and a successful get found an object under
  exactly that bucket and key and delivered its bytes.
\<close>

definition s3_ok :: "'s s3 \<Rightarrow> ('s \<Rightarrow> string \<times> string \<rightharpoonup> bytes) \<Rightarrow> bool" where
  "s3_ok api stored \<longleftrightarrow>
     (\<forall>s b k d. stored (snd (PutObject api s b k d)) =
        (if fst (PutObject api s b k d) then (stored s)((b, k) \<mapsto> d) else stored s)) \<and>
     (\<forall>s b k m. fst (GetObject api s b k m) \<longrightarrow>
        (\<exists>d. stored s (b, k) = Some d \<and> (length d = length m \<longrightarrow> snd (GetObject api s b k m) = d)))"

record S3Swapper =
  s3_client :: bool
  enabled :: bool
  user_s3_bucket :: "string option"

definition DEFAULT_S3_BUCKET :: string where
  "DEFAULT_S3_BUCKET = ''praas-swapping''"

definition S3Swapper_init :: S3Swapper where
  "S3Swapper_init = \<lparr>s3_client = False, enabled = False, user_s3_bucket = None\<rparr>"

definition S3Swapper_is_enabled :: "S3Swapper \<Rightarrow> bool" where
  "S3Swapper_is_enabled sw = enabled sw"

text \<open>\<open>getenv("SWAPPING_S3_BUCKET")\<close> is the argument.\<close>

definition S3Swapper_enable_swapping :: "string option \<Rightarrow> S3Swapper \<Rightarrow> bool \<times> S3Swapper" where
  "S3Swapper_enable_swapping bucket_env sw =
     (True, sw\<lparr>user_s3_bucket := bucket_env, s3_client := True, enabled := True\<rparr>)"

definition S3Swapper_shutdown_swapping :: "S3Swapper \<Rightarrow> S3Swapper" where
  "S3Swapper_shutdown_swapping sw = sw\<lparr>s3_client := False, enabled := False\<rparr>"

definition bucket_of :: "S3Swapper \<Rightarrow> string" where
  "bucket_of sw = (case user_s3_bucket sw of Some b \<Rightarrow> b | None \<Rightarrow> DEFAULT_S3_BUCKET)"

definition S3Swapper_swap :: "'s s3 \<Rightarrow> S3Swapper \<Rightarrow> string \<Rightarrow> bytes \<Rightarrow> 's \<Rightarrow> bool \<times> 's" where
  "S3Swapper_swap api sw session_id memory st =
     (if \<not> s3_client sw then (False, st)
      else PutObject api st (bucket_of sw) session_id memory)"

definition S3Swapper_swap_in :: "'s s3 \<Rightarrow> S3Swapper \<Rightarrow> string \<Rightarrow> bytes \<Rightarrow> 's \<Rightarrow> bool \<times> bytes" where
  "S3Swapper_swap_in api sw session_id memory st =
     (if \<not> s3_client sw then (False, memory)
      else GetObject api st (bucket_of sw) session_id memory)"

text \<open>
  The disk swapper writes a file named after the session below its location and reports success
  without looking at the stream's state; a file that cannot be opened is not written. Its
  \<open>swap_in\<close> is not implemented and reports failure.
\<close>

record DiskSwapper =
  user_location :: "string option"
  disk_enabled :: bool

definition DiskSwapper_DEFAULT_LOCATION :: string where
  "DiskSwapper_DEFAULT_LOCATION = ''/praas-swapping''"

definition DiskSwapper_enable_swapping :: "string option \<Rightarrow> DiskSwapper \<Rightarrow> bool \<times> DiskSwapper" where
  "DiskSwapper_enable_swapping location_env sw =
     (True, sw\<lparr>user_location := location_env, disk_enabled := True\<rparr>)"

definition DiskSwapper_shutdown_swapping :: "DiskSwapper \<Rightarrow> DiskSwapper" where
  "DiskSwapper_shutdown_swapping sw = sw\<lparr>disk_enabled := False\<rparr>"

text \<open>\<open>std::filesystem::path::operator/=\<close>: an absolute operand replaces the path.\<close>

definition path_append :: "string \<Rightarrow> string \<Rightarrow> string" where
  "path_append p q =
     (case q of c # _ \<Rightarrow> if c = CHR ''/'' then q
        else if p = [] \<or> last p = CHR ''/'' then p @ q else p @ ''/'' @ q
      | [] \<Rightarrow> if p = [] \<or> last p = CHR ''/'' then p else p @ ''/'')"

definition DiskSwapper_swap ::
  "(string \<Rightarrow> bool) \<Rightarrow> DiskSwapper \<Rightarrow> string \<Rightarrow> bytes \<Rightarrow> (string \<rightharpoonup> bytes) \<Rightarrow> bool \<times> (string \<rightharpoonup> bytes)" where
  "DiskSwapper_swap writable sw session_id memory files =
     (if \<not> disk_enabled sw then (False, files)
      else let path = path_append (case user_location sw of Some l \<Rightarrow> l
                        | None \<Rightarrow> DiskSwapper_DEFAULT_LOCATION) session_id
           in (True, if writable path then files(path \<mapsto> memory) else files))"

definition DiskSwapper_swap_in :: "DiskSwapper \<Rightarrow> string \<Rightarrow> bytes \<Rightarrow> bool \<times> bytes" where
  "DiskSwapper_swap_in sw session_id memory = (False, memory)"

section \<open>POSIX shared memory\<close>

record os =
  segments :: "string \<rightharpoonup> bytes"
  mappings :: "nat \<rightharpoonup> string"
  next_map :: nat

text \<open>Which of the three calls succeed, and the descriptor \<open>shm_open\<close> returns if it does.\<close>

record shm_env =
  open_ok :: bool
  trunc_ok :: bool
  map_ok :: bool
  new_fd :: int

definition resize_segment :: "string \<Rightarrow> nat \<Rightarrow> os \<Rightarrow> os" where
  "resize_segment name n os =
     (case segments os name of None \<Rightarrow> os
      | Some bs \<Rightarrow> os\<lparr>segments := (segments os)(name \<mapsto> take n bs @ replicate (n - length bs) 0)\<rparr>)"

definition map_segment :: "string \<Rightarrow> os \<Rightarrow> ptr \<times> os" where
  "map_segment name os =
     (Some (next_map os), os\<lparr>mappings := (mappings os)(next_map os \<mapsto> name), next_map := Suc (next_map os)\<rparr>)"

definition unmap :: "ptr \<Rightarrow> os \<Rightarrow> os" where
  "unmap p os = (case p of None \<Rightarrow> os | Some a \<Rightarrow> os\<lparr>mappings := (mappings os)(a := None)\<rparr>)"

definition shm_unlink :: "string \<Rightarrow> os \<Rightarrow> os" where
  "shm_unlink name os = os\<lparr>segments := (segments os)(name := None)\<rparr>"

section \<open>SharedMemory\<close>

record SharedMemory =
  shm_size :: i32
  fd :: int
  path :: string
  shm_ptr :: ptr
  shm_owned :: bool

definition SharedMemory_default :: SharedMemory where
  "SharedMemory_default = \<lparr>shm_size = -1, fd = -1, path = '''', shm_ptr = None, shm_owned = False\<rparr>"

text \<open>
  The move constructor and the move assignment: the new object and what is left of the source. The
  assignment overwrites the fields of its target without releasing what they held.
\<close>

definition SharedMemory_move :: "SharedMemory \<Rightarrow> SharedMemory \<times> SharedMemory" where
  "SharedMemory_move obj = (obj, SharedMemory_default)"

definition SharedMemory_assign :: "SharedMemory \<Rightarrow> SharedMemory \<Rightarrow> SharedMemory \<times> SharedMemory" where
  "SharedMemory_assign this obj =
     (this\<lparr>shm_size := shm_size obj, fd := fd obj, path := path obj, shm_ptr := shm_ptr obj,
           shm_owned := shm_owned obj\<rparr>,
      obj\<lparr>shm_size := -1, fd := -1, path := '''', shm_ptr := None, shm_owned := False\<rparr>)"

definition SharedMemory_destroy :: "SharedMemory \<Rightarrow> os \<Rightarrow> os" where
  "SharedMemory_destroy m os =
     (let os1 = (if shm_ptr m \<noteq> None then unmap (shm_ptr m) os else os)
      in if shm_owned m \<and> fd m \<noteq> -1 then shm_unlink (c_str (path m)) os1 else os1)"

definition SharedMemory_create ::
  "'s s3 \<Rightarrow> S3Swapper \<Rightarrow> 's \<Rightarrow> shm_env \<Rightarrow> string \<Rightarrow> i32 \<Rightarrow> os \<Rightarrow> SharedMemory option \<times> os" where
  "SharedMemory_create api s3_swapper st env sid sz os =
     (let session_id = ''/'' @ sid; name = c_str session_id in
      if \<not> open_ok env then (None, os)
      else
        let os = (if segments os name = None then os\<lparr>segments := (segments os)(name \<mapsto> [])\<rparr> else os);
            swap_in = (sint sz < 0);
            sz = (if swap_in then sz * (-1) else sz);
            sz = sz * 1024
        in if \<not> trunc_ok env \<or> sint sz < 0 then (None, os)
        else
          let os = resize_segment name (nat (sint sz)) os in
          if \<not> map_ok env \<or> sz = 0 then (None, os)
          else
            let (p, os) = map_segment name os;
                mem = (case segments os name of Some bs \<Rightarrow> bs | None \<Rightarrow> []);
                (swapped, mem') = (if swap_in then S3Swapper_swap_in api s3_swapper session_id mem st
                                   else (True, mem))
            in if \<not> swapped then (None, shm_unlink name (unmap p os))
               else (Some \<lparr>shm_size = sz, fd = new_fd env, path = session_id, shm_ptr = p, shm_owned = True\<rparr>,
                     os\<lparr>segments := (segments os)(name \<mapsto> mem')\<rparr>))"

definition SharedMemory_open :: "shm_env \<Rightarrow> string \<Rightarrow> i32 \<Rightarrow> os \<Rightarrow> SharedMemory option \<times> os" where
  "SharedMemory_open env sid sz os =
     (let session_id = ''/'' @ sid; name = c_str session_id in
      if \<not> open_ok env \<or> segments os name = None then (None, os)
      else if \<not> map_ok env \<or> sint sz \<le> 0 then (None, os)
      else let (p, os) = map_segment name os
           in (Some \<lparr>shm_size = sz, fd = new_fd env, path = session_id, shm_ptr = p, shm_owned = False\<rparr>, os))"

text \<open>The bytes of a session's shared memory, through its mapping.\<close>

definition memory_contents :: "SharedMemory \<Rightarrow> os \<Rightarrow> bytes" where
  "memory_contents m os =
     (case shm_ptr m of None \<Rightarrow> []
      | Some a \<Rightarrow> (case mappings os a of None \<Rightarrow> []
          | Some name \<Rightarrow> (case segments os name of None \<Rightarrow> []
              | Some bs \<Rightarrow> take (nat (sint (shm_size m))) bs)))"

text \<open>
  A function of the user stores into the shared memory of its session through the mapping: the first
  bytes, as many as it stores and at most the size it was told.
\<close>

definition shm_store :: "SharedMemory \<Rightarrow> bytes \<Rightarrow> os \<Rightarrow> os" where
  "shm_store m d os =
     (case shm_ptr m of None \<Rightarrow> os
      | Some a \<Rightarrow> (case mappings os a of None \<Rightarrow> os
          | Some name \<Rightarrow> (case segments os name of None \<Rightarrow> os
              | Some bs \<Rightarrow> os\<lparr>segments := (segments os)(name \<mapsto> put 0 (take (min (nat (sint (shm_size m))) (length bs)) d) bs)\<rparr>)))"

section \<open>SessionFork\<close>

record SessionFork =
  memory :: SharedMemory
  fork_session_id :: string
  fork_max_functions :: i32
  memory_size :: i32
  child_pid :: int

definition SessionFork_init :: "string \<Rightarrow> i32 \<Rightarrow> i32 \<Rightarrow> SessionFork" where
  "SessionFork_init sid mf ms =
     \<lparr>memory = SharedMemory_default, fork_session_id = sid, fork_max_functions = mf, memory_size = ms,
      child_pid = -1\<rparr>"

text \<open>The command line the forked child executes.\<close>

definition session_argv :: "string \<Rightarrow> string \<Rightarrow> string \<Rightarrow> i32 \<Rightarrow> i32 \<Rightarrow> string list" where
  "session_argv controller_address hole_puncher_address sid shm_bytes mf =
     [''/dev-praas/bin/runtime_session'',
      ''--control-plane-addr'', c_str controller_address,
      ''--hole-puncher-addr'', c_str hole_puncher_address,
      ''--session-id'', c_str sid,
      ''--shared-memory-size'', to_string32 shm_bytes,
      ''--max-functions'', to_string32 mf,
      ''-v'']"

text \<open>
  \<open>fork\<close> in the parent: \<open>pid\<close> is what \<open>vfork\<close> returns, -1 when it fails. The third result
  is the command line of the child, if one was started.
\<close>

definition SessionFork_fork ::
  "'s s3 \<Rightarrow> S3Swapper \<Rightarrow> 's \<Rightarrow> shm_env \<Rightarrow> int \<Rightarrow> string \<Rightarrow> string \<Rightarrow> SessionFork \<Rightarrow> os \<Rightarrow>
     bool \<times> SessionFork \<times> string list option \<times> os" where
  "SessionFork_fork api sw st env pid controller_address hole_puncher_address this os =
     (let (shm, os') = SharedMemory_create api sw st env (fork_session_id this) (memory_size this) os in
      case shm of
        None \<Rightarrow> (False, this, None, os')
      | Some m \<Rightarrow>
          (True, this\<lparr>child_pid := pid, memory := fst (SharedMemory_assign (memory this) m)\<rparr>,
           (if pid = -1 then None
            else Some (session_argv controller_address hole_puncher_address (fork_session_id this)
                         (shm_size m) (fork_max_functions this))),
           os'))"

text \<open>The implicit move assignment of \<open>SessionFork\<close>: the target, and what is left of the source.\<close>

definition SessionFork_assign :: "SessionFork \<Rightarrow> SessionFork \<Rightarrow> SessionFork \<times> SessionFork" where
  "SessionFork_assign this obj =
     (let (m, rest) = SharedMemory_assign (memory this) (memory obj)
      in (obj\<lparr>memory := m\<rparr>, obj\<lparr>memory := rest, fork_session_id := ''''\<rparr>))"

section \<open>Lemmas\<close>

definition shm_bytes :: "i32 \<Rightarrow> i32" where
  "shm_bytes kb = (if sint kb < 0 then kb * (-1) else kb) * 1024"

lemma create_Some:
  assumes "SharedMemory_create api sw st env sid kb os = (Some m, os')"
  shows "shm_size m = shm_bytes kb" and "0 < sint (shm_bytes kb)" and "path m = ''/'' @ sid"
    and "\<exists>a. shm_ptr m = Some a \<and> mappings os' a = Some (c_str (''/'' @ sid))"
    and "\<exists>bs. segments os' (c_str (''/'' @ sid)) = Some bs \<and>
      (0 \<le> sint kb \<longrightarrow> length bs = nat (sint (shm_bytes kb)))"
    and "sint kb < 0 \<Longrightarrow> \<exists>mem. fst (S3Swapper_swap_in api sw (''/'' @ sid) mem st)"
proof -
  have pos: "0 < sint x" if "\<not> sint x < 0" "x \<noteq> 0" for x :: i32
    using that by (metis linorder_neqE_linordered_idom signed_eq_0_iff)
  note d = assms [unfolded SharedMemory_create_def Let_def map_segment_def resize_segment_def]
  show "shm_size m = shm_bytes kb" "path m = ''/'' @ sid"
    using d by (auto simp: shm_bytes_def split: if_splits prod.splits)
  show "0 < sint (shm_bytes kb)"
    using d by (auto simp: shm_bytes_def intro!: pos split: if_splits)
  show "\<exists>a. shm_ptr m = Some a \<and> mappings os' a = Some (c_str (''/'' @ sid))"
    using d by (auto split: if_splits prod.splits option.splits)
  show "\<exists>bs. segments os' (c_str (''/'' @ sid)) = Some bs \<and>
      (0 \<le> sint kb \<longrightarrow> length bs = nat (sint (shm_bytes kb)))"
    using d by (auto simp: shm_bytes_def split: if_splits prod.splits option.splits)
  show "\<exists>mem. fst (S3Swapper_swap_in api sw (''/'' @ sid) mem st)" if "sint kb < 0"
    using d that by (auto split: if_splits prod.splits) (metis fst_conv)+
qed

lemma sint_shm_bytes:
  assumes "\<bar>sint kb\<bar> < 2 ^ 21"
  shows "sint (shm_bytes kb) = \<bar>sint kb\<bar> * 1024"
proof -
  have "shm_bytes kb = word_of_int (\<bar>sint kb\<bar> * 1024)"
    by (simp add: shm_bytes_def)
  moreover have "sint (word_of_int (\<bar>sint kb\<bar> * 1024) :: i32) = \<bar>sint kb\<bar> * 1024"
    unfolding int_word_sint using assms by simp
  ultimately show ?thesis by simp
qed

text \<open>A concrete S3 service for the witnesses: objects in a map, every call succeeds if it can.\<close>

definition map_s3 :: "(string \<times> string \<rightharpoonup> bytes) s3" where
  "map_s3 = \<lparr>PutObject = (\<lambda>s b k d. (True, s((b, k) \<mapsto> d))),
     GetObject = (\<lambda>s b k m. case s (b, k) of None \<Rightarrow> (False, m) | Some d \<Rightarrow> (True, d))\<rparr>"

definition good_env :: shm_env where
  "good_env = \<lparr>open_ok = True, trunc_ok = True, map_ok = True, new_fd = 3\<rparr>"

definition empty_os :: os where
  "empty_os = \<lparr>segments = Map.empty, mappings = Map.empty, next_map = 0\<rparr>"

lemma map_s3_ok: "s3_ok map_s3 (\<lambda>s. s)"
  by (auto simp: s3_ok_def map_s3_def split: option.splits)

section \<open>Properties\<close>

text \<open>
  A shared memory that \<open>create\<close> returns for a size of less than \<open>2 ^ 21\<close> KiB, negative
  for a swapped session, has exactly its absolute value times 1024 bytes, is mapped, and, unless
  it was swapped in, its object has that many bytes.
\<close>

lemma shared_memory_size:
  assumes "SharedMemory_create api sw st env sid kb os = (Some m, os')" and "\<bar>sint kb\<bar> < 2 ^ 21"
  shows "sint (shm_size m) = \<bar>sint kb\<bar> * 1024 \<and>
    (\<exists>a. shm_ptr m = Some a \<and> mappings os' a = Some (c_str (''/'' @ sid))) \<and>
    (\<exists>bs. segments os' (c_str (''/'' @ sid)) = Some bs \<and>
       (0 \<le> sint kb \<longrightarrow> int (length bs) = \<bar>sint kb\<bar> * 1024))"
  using create_Some(1,4,5) [OF assms(1)] sint_shm_bytes [OF assms(2)] by auto

text \<open>
  Memory that \<open>S3Swapper::swap\<close> stored under a key is what a successful
  \<open>swap_in\<close> under the same key delivers, also after memory was swapped under other keys.
\<close>

lemma swap_roundtrip:
  assumes "s3_ok api stored"
    and "S3Swapper_swap api sw k d st = (True, st1)"
    and "S3Swapper_swap api sw k2 d2 st1 = (r, st2)" and "k2 \<noteq> k"
    and "length mem = length d" and "S3Swapper_swap_in api sw k mem st2 = (True, mem')"
  shows "mem' = d"
proof -
  have "stored st1 (bucket_of sw, k) = Some d"
    using assms(1,2) by (auto simp: s3_ok_def S3Swapper_swap_def split: if_splits) (metis fst_conv fun_upd_same snd_conv)
  moreover have "stored st2 (bucket_of sw, k) = stored st1 (bucket_of sw, k)"
    using assms(1,3,4) unfolding s3_ok_def S3Swapper_swap_def
    by (cases "s3_client sw") (auto, metis fun_upd_other prod.inject snd_conv)
  moreover have "\<exists>e. stored st2 (bucket_of sw, k) = Some e \<and> (length e = length mem \<longrightarrow> mem' = e)"
    using assms(1,6) unfolding s3_ok_def S3Swapper_swap_in_def
    by (metis Pair_inject fst_conv snd_conv)
  ultimately show ?thesis using assms(5) by auto
qed

end
