(* ===== verification/Process_Runtime.thy ===== *)
theory Process_Runtime
  imports Runtime_Messages Shared_Memory
begin

text \<open>
  The runtime process of \<open>src/runtime/include/praas/process.hpp\<close> and
  \<open>src/runtime/lib/process.cpp\<close>: it connects to the control plane, answers session requests by
  forking sessions, and reacts to the end of a session by swapping its memory out and notifying the
  control plane. What the socket delivers and what the system calls return is an input of each
  operation; what is written to the socket is an output.
\<close>

section \<open>State\<close>

datatype ErrorCode = SUCCESS | NO_MORE_CAPACITY | SESSION_CONFLICT | UNKNOWN_FAILURE

fun error_code :: "ErrorCode \<Rightarrow> i32" where
  "error_code SUCCESS = 0"
| "error_code NO_MORE_CAPACITY = 1"
| "error_code SESSION_CONFLICT = 2"
| "error_code UNKNOWN_FAILURE = 3"

record Process =
  ending :: bool
  max_sessions :: i16
  process_id :: string
  hole_puncher_address :: string
  sessions :: "SessionFork list"
  socket_open :: bool
  swapper :: S3Swapper

definition Process_init :: "string \<Rightarrow> string \<Rightarrow> i16 \<Rightarrow> Process" where
  "Process_init pid hp n =
     \<lparr>ending = False, max_sessions = n, process_id = pid, hole_puncher_address = hp, sessions = [],
      socket_open = False, swapper = S3Swapper_init\<rparr>"

section \<open>Erasing an element of the vector of sessions\<close>

text \<open>
  \<open>std::vector::erase\<close>: every later element is move-assigned one place down, then the last
  element is destroyed.
\<close>

fun shift_down :: "SessionFork \<Rightarrow> SessionFork list \<Rightarrow> SessionFork list \<times> SessionFork" where
  "shift_down x [] = ([], x)"
| "shift_down x (y # ys) =
     (let (x', y') = SessionFork_assign x y; (zs, lst) = shift_down y' ys in (x' # zs, lst))"

definition vector_erase :: "SessionFork list \<Rightarrow> nat \<Rightarrow> os \<Rightarrow> SessionFork list \<times> os" where
  "vector_erase xs i os =
     (let (zs, lst) = shift_down (xs ! i) (drop (Suc i) xs)
      in (take i xs @ zs, SharedMemory_destroy (memory lst) os))"

section \<open>Operations\<close>

text \<open>\<open>connect\<close>: whether the TCP connection succeeds is the input.\<close>

definition Process_connect :: "bool \<Rightarrow> Process \<Rightarrow> bool \<times> Process" where
  "Process_connect accepted p = (if accepted then (True, p\<lparr>socket_open := True\<rparr>) else (False, p))"

definition Process_create ::
  "string option \<Rightarrow> bool \<Rightarrow> string \<Rightarrow> string \<Rightarrow> i16 \<Rightarrow> bool \<Rightarrow> Process option" where
  "Process_create bucket_env accepted pid hp n enable_swapping =
     (let dest = Process_init pid hp n;
          (ok, sw) = (if enable_swapping then S3Swapper_enable_swapping bucket_env (swapper dest)
                      else (True, swapper dest));
          dest = dest\<lparr>swapper := sw\<rparr>
      in if enable_swapping \<and> \<not> ok then None
         else let (conn, dest) = Process_connect accepted dest
              in if \<not> conn then None else Some dest)"

text \<open>
  \<open>static_cast<size_t>\<close> of the signed 16-bit limit: a negative limit becomes a huge one.
\<close>

definition max_sessions_size :: "Process \<Rightarrow> nat" where
  "max_sessions_size p = unat (scast (max_sessions p) :: 64 word)"

definition allocate_session ::
  "'s s3 \<Rightarrow> 's \<Rightarrow> shm_env \<Rightarrow> int \<Rightarrow> string \<Rightarrow> bytes \<Rightarrow> Process \<Rightarrow> os \<Rightarrow>
     ErrorCode \<times> Process \<times> string list option \<times> os" where
  "allocate_session api st env pid peer msg p os =
     (if length (sessions p) \<ge> max_sessions_size p then (NO_MORE_CAPACITY, p, None, os)
      else if find (\<lambda>s. fork_session_id s = SessionRequestMsg_session_id msg) (sessions p) \<noteq> None
      then (SESSION_CONFLICT, p, None, os)
      else
        let s = SessionFork_init (SessionRequestMsg_session_id msg) (SessionRequestMsg_max_functions msg)
                  (SessionRequestMsg_memory_size msg);
            (ret, s, argv, os) = SessionFork_fork api (swapper p) st env pid peer (hole_puncher_address p) s os
        in (if ret then SUCCESS else UNKNOWN_FAILURE, p\<lparr>sessions := sessions p @ [s]\<rparr>, argv, os))"

text \<open>
  \<open>session_deleted\<close>, run on a thread of its own after \<open>SIGCHLD\<close>. \<open>None\<close> as the message when
  the process id belongs to no session.
\<close>

definition session_deleted ::
  "'s s3 \<Rightarrow> int \<Rightarrow> Process \<Rightarrow> 's \<Rightarrow> os \<Rightarrow> bytes option \<times> Process \<times> 's \<times> os" where
  "session_deleted api pid p st os =
     (let i = find_pos (\<lambda>s. child_pid s = pid) (sessions p) in
      if i = length (sessions p) then (None, p, st, os)
      else
        let s = sessions p ! i;
            st' = (if S3Swapper_is_enabled (swapper p)
                   then snd (S3Swapper_swap api (swapper p) (fork_session_id s) (memory_contents (memory s) os) st)
                   else st);
            swapped_memory = (if S3Swapper_is_enabled (swapper p) then shm_size (memory s) else 0);
            (ss, os') = vector_erase (sessions p) i os
        in (Some (fill_session_close swapped_memory (fork_session_id s) SendMessage_init),
            p\<lparr>sessions := ss\<rparr>, st', os'))"

definition Process_shutdown :: "Process \<Rightarrow> Process" where
  "Process_shutdown p = p\<lparr>ending := True, socket_open := False\<rparr>"

section \<open>The request loop\<close>

text \<open>
  One turn of the loop of \<open>start\<close>: what \<open>read_n\<close> returned and left in the buffer, whether
  \<open>_ending\<close> was set meanwhile, and what the system calls of an allocation would return.
\<close>

record turn =
  t_ending :: bool
  t_size :: int
  t_data :: bytes
  t_env :: shm_env
  t_pid :: int

definition process_turn ::
  "'s s3 \<Rightarrow> 's \<Rightarrow> string \<Rightarrow> turn \<Rightarrow> Process \<Rightarrow> os \<Rightarrow> (Process \<times> os \<times> bytes list) loop_result" where
  "process_turn api st peer t p os =
     (if t_ending t then Break (p\<lparr>ending := True\<rparr>, os, [])
      else if t_size t = -1 then Continue (p, os, [])
      else if t_size t = 0 then Break (p, os, [])
      else case RecvMessageBuffer_parse (t_data t) (t_size t) of
        None \<Rightarrow> Continue (p, os, [])
      | Some (SessionRequestMsg msg) \<Rightarrow>
          (let (result, p', argv, os') = allocate_session api st (t_env t) (t_pid t) peer msg p os
           in Continue (p', os', [fill_session_status (scast (ucast (error_code result) :: i16))
                (SessionRequestMsg_session_id msg) SendMessage_init]))
      | Some (FunctionRequestMsg msg) \<Rightarrow> Continue (p, os, []))"

text \<open>The loop over the turns that happen; the written messages, in order.\<close>

fun process_loop ::
  "'s s3 \<Rightarrow> 's \<Rightarrow> string \<Rightarrow> turn list \<Rightarrow> Process \<Rightarrow> os \<Rightarrow> Process \<times> os \<times> bytes list" where
  "process_loop api st peer [] p os = (p, os, [])"
| "process_loop api st peer (t # ts) p os =
     (if ending p then (p, os, [])
      else case process_turn api st peer t p os of
        Break r \<Rightarrow> r
      | Continue (p', os', out) \<Rightarrow>
          (let (p'', os'', outs) = process_loop api st peer ts p' os' in (p'', os'', out @ outs)))"

definition Process_start ::
  "'s s3 \<Rightarrow> 's \<Rightarrow> string \<Rightarrow> turn list \<Rightarrow> Process \<Rightarrow> os \<Rightarrow> Process \<times> os \<times> bytes list" where
  "Process_start api st peer ts p os =
     (if \<not> socket_open p then (p, os, [])
      else let (p', os', outs) = process_loop api st peer ts p os
           in (p', os', fill_process_identification (process_id p) SendMessage_init # outs))"

section \<open>Lemmas\<close>

lemma SharedMemory_assign_eq:
  "SharedMemory_assign this obj = (obj, SharedMemory_default)"
  by (simp add: SharedMemory_assign_def SharedMemory_default_def)

lemma SessionFork_assign_eq:
  "SessionFork_assign this obj = (obj, obj\<lparr>memory := SharedMemory_default, fork_session_id := ''''\<rparr>)"
  by (simp add: SessionFork_assign_def SharedMemory_assign_eq)

lemma shift_down_eq: "fst (shift_down x ys) = ys"
  by (induction ys arbitrary: x) (simp_all add: SessionFork_assign_eq split: prod.splits, metis fst_conv)

lemma shift_down_last: "ys \<noteq> [] \<Longrightarrow> memory (snd (shift_down x ys)) = SharedMemory_default"
proof (induction ys arbitrary: x)
  case (Cons y ys)
  then show ?case by (cases ys) (simp_all add: SessionFork_assign_eq split: prod.splits)
qed simp

lemma destroy_default [simp]: "SharedMemory_destroy SharedMemory_default os = os"
  by (simp add: SharedMemory_destroy_def SharedMemory_default_def)

lemma vector_erase_eq:
  assumes "i < length xs"
  shows "vector_erase xs i os =
    (take i xs @ drop (Suc i) xs,
     if Suc i = length xs then SharedMemory_destroy (memory (xs ! i)) os else os)"
proof (cases "Suc i = length xs")
  case True
  then show ?thesis by (simp add: vector_erase_def)
next
  case False
  with assms have "drop (Suc i) xs \<noteq> []" by simp
  then show ?thesis
    using False shift_down_eq [of "xs ! i" "drop (Suc i) xs"] shift_down_last [of "drop (Suc i) xs" "xs ! i"]
    by (cases "shift_down (xs ! i) (drop (Suc i) xs)") (simp add: vector_erase_def)
qed

section \<open>The invariant of a process\<close>

definition proc_inv :: "Process \<Rightarrow> bool" where
  "proc_inv p \<longleftrightarrow> distinct (map fork_session_id (sessions p)) \<and> length (sessions p) \<le> max_sessions_size p"

text \<open>
  The threads of a process: the loop takes a turn, or a child exits and its handler runs. Both
  hold \<open>_sessions_mutex\<close> while they look at and change the sessions. The receive buffer of the
  loop is the array of \<open>RecvMessageBuffer\<close>, so that it always has 39 bytes.
\<close>

inductive proc_step ::
  "'s s3 \<Rightarrow> string \<Rightarrow> Process \<times> 's \<times> os \<Rightarrow> Process \<times> 's \<times> os \<Rightarrow> bool" for api peer where
  turn: "\<not> ending p \<Longrightarrow> length (t_data t) = Recv_EXPECTED_LENGTH \<Longrightarrow>
     process_turn api st peer t p os = Continue (p', os', out) \<Longrightarrow>
     proc_step api peer (p, st, os) (p', st, os')"
| last_turn: "\<not> ending p \<Longrightarrow> length (t_data t) = Recv_EXPECTED_LENGTH \<Longrightarrow>
     process_turn api st peer t p os = Break (p', os', out) \<Longrightarrow>
     proc_step api peer (p, st, os) (p', st, os')"
| child_exit: "session_deleted api pid p st os = (msg, p', st', os') \<Longrightarrow>
     proc_step api peer (p, st, os) (p', st', os')"
| stop: "proc_step api peer (p, st, os) (Process_shutdown p, st, os)"

inductive_cases proc_stepE: "proc_step api peer (p, st, os) c"

lemma max_sessions_size_nonneg:
  "0 \<le> sint (max_sessions p) \<Longrightarrow> max_sessions_size p = nat (sint (max_sessions p))"
  by (simp add: max_sessions_size_def unat_scast64)

lemma find_None: "find P xs = None \<longleftrightarrow> (\<forall>x \<in> set xs. \<not> P x)"
  by (auto simp: find_None_iff)

lemma fork_cases:
  assumes "SessionFork_fork api sw st env pid a h s os = (ret, s', argv, os')"
  obtains
    (no_memory) "\<not> ret" "s' = s" "argv = None"
      "SharedMemory_create api sw st env (fork_session_id s) (memory_size s) os = (None, os')"
  | (forked) m where "ret" "s' = s\<lparr>child_pid := pid, memory := m\<rparr>"
      "argv = (if pid = -1 then None
         else Some (session_argv a h (fork_session_id s) (shm_size m) (fork_max_functions s)))"
      "SharedMemory_create api sw st env (fork_session_id s) (memory_size s) os = (Some m, os')"
proof (cases "SharedMemory_create api sw st env (fork_session_id s) (memory_size s) os")
  case (Pair shm os2)
  show ?thesis
  proof (cases shm)
    case None
    with Pair assms show ?thesis by (intro no_memory) (simp_all add: SessionFork_fork_def)
  next
    case (Some m)
    with Pair assms show ?thesis
      by (intro forked [of m]) (simp_all add: SessionFork_fork_def SharedMemory_assign_eq)
  qed
qed

abbreviation requested :: "bytes \<Rightarrow> SessionFork" where
  "requested msg \<equiv> SessionFork_init (SessionRequestMsg_session_id msg)
     (SessionRequestMsg_max_functions msg) (SessionRequestMsg_memory_size msg)"

lemma requested_fields [simp]:
  "fork_session_id (requested msg) = SessionRequestMsg_session_id msg"
  "fork_max_functions (requested msg) = SessionRequestMsg_max_functions msg"
  "memory_size (requested msg) = SessionRequestMsg_memory_size msg"
  "child_pid (requested msg) = -1"
  by (simp_all add: SessionFork_init_def)

lemma allocate_session_cases:
  assumes "allocate_session api st env pid peer msg p os = (r, p', argv, os')"
  obtains
    (full) "r = NO_MORE_CAPACITY" "max_sessions_size p \<le> length (sessions p)" "p' = p" "argv = None" "os' = os"
  | (conflict) "r = SESSION_CONFLICT" "length (sessions p) < max_sessions_size p"
      "SessionRequestMsg_session_id msg \<in> fork_session_id ` set (sessions p)" "p' = p" "argv = None" "os' = os"
  | (forked) ret s where "r = (if ret then SUCCESS else UNKNOWN_FAILURE)"
      "length (sessions p) < max_sessions_size p"
      "SessionRequestMsg_session_id msg \<notin> fork_session_id ` set (sessions p)"
      "SessionFork_fork api (swapper p) st env pid peer (hole_puncher_address p) (requested msg) os = (ret, s, argv, os')"
      "p' = p\<lparr>sessions := sessions p @ [s]\<rparr>"
proof (cases "max_sessions_size p \<le> length (sessions p)")
  case True
  with assms show ?thesis by (intro full) (simp_all add: allocate_session_def)
next
  case False
  let ?f = "find (\<lambda>s. fork_session_id s = SessionRequestMsg_session_id msg) (sessions p)"
  show ?thesis
  proof (cases "?f = None")
    case True
    obtain ret s v o2 where f:
      "SessionFork_fork api (swapper p) st env pid peer (hole_puncher_address p) (requested msg) os = (ret, s, v, o2)"
      using prod_cases4 by blast
    have "SessionRequestMsg_session_id msg \<notin> fork_session_id ` set (sessions p)"
      using True by (auto simp: find_None)
    with True False f assms show ?thesis
      by (intro forked [of ret s]) (simp_all add: allocate_session_def)
  next
    case Found: False
    then have "SessionRequestMsg_session_id msg \<in> fork_session_id ` set (sessions p)"
      by (auto simp: find_None) (metis image_eqI)
    with False Found assms show ?thesis by (intro conflict) (simp_all add: allocate_session_def)
  qed
qed

lemma max_sessions_size_sessions [simp]: "max_sessions_size (p\<lparr>sessions := ss\<rparr>) = max_sessions_size p"
  by (simp add: max_sessions_size_def)

lemma allocate_session_inv:
  assumes "proc_inv p" and "allocate_session api st env pid peer msg p os = (r, p', argv, os')"
  shows "proc_inv p'"
  using assms(2)
proof (cases rule: allocate_session_cases)
  case (forked ret s)
  from forked(4) have "fork_session_id s = SessionRequestMsg_session_id msg"
    by (cases rule: fork_cases) simp_all
  with forked assms(1) show ?thesis by (auto simp: proc_inv_def)
qed (use assms(1) in simp_all)

lemma distinct_map_erase:
  assumes "distinct (map f xs)" shows "distinct (map f (take i xs @ drop (Suc i) xs))"
proof (cases "i < length xs")
  case True
  then have "map f xs = map f (take i xs) @ f (xs ! i) # map f (drop (Suc i) xs)"
    by (metis id_take_nth_drop list.simps(9) map_append)
  with assms show ?thesis by simp
qed (use assms in simp)

lemma session_deleted_sessions:
  "sessions (fst (snd (session_deleted api pid p st os))) =
     (let i = find_pos (\<lambda>s. child_pid s = pid) (sessions p) in
      take i (sessions p) @ drop (Suc i) (sessions p))"
proof (cases "find_pos (\<lambda>s. child_pid s = pid) (sessions p) = length (sessions p)")
  case True
  then show ?thesis by (simp add: session_deleted_def)
next
  case False
  then have "find_pos (\<lambda>s. child_pid s = pid) (sessions p) < length (sessions p)"
    using find_pos_le le_neq_implies_less by blast
  then show ?thesis by (simp add: session_deleted_def Let_def vector_erase_eq)
qed

lemma session_deleted_limit [simp]:
  "max_sessions_size (fst (snd (session_deleted api pid p st os))) = max_sessions_size p"
  by (auto simp: session_deleted_def max_sessions_size_def Let_def split: prod.splits)

lemma session_deleted_inv:
  assumes "proc_inv p" shows "proc_inv (fst (snd (session_deleted api pid p st os)))"
  using assms find_pos_le [of "\<lambda>s. child_pid s = pid" "sessions p"]
  by (auto simp: proc_inv_def session_deleted_sessions Let_def distinct_map_erase simp del: map_append find_pos_le)

lemma proc_inv_ending [simp]: "proc_inv (p\<lparr>ending := b\<rparr>) = proc_inv p"
  by (simp add: proc_inv_def max_sessions_size_def)

lemma process_turn_inv:
  assumes "proc_inv p"
    and "process_turn api st peer t p os = Continue (p', os', out) \<or>
      process_turn api st peer t p os = Break (p', os', out)"
  shows "proc_inv p'"
  using assms
  by (auto simp: process_turn_def dest: allocate_session_inv
      split: if_splits option.splits recv_message.splits prod.splits)

lemma proc_step_inv: "proc_step api peer c d \<Longrightarrow> proc_inv (fst c) \<Longrightarrow> proc_inv (fst d)"
proof (induction rule: proc_step.induct)
  case (child_exit pid p st os msg p' st' os')
  then show ?case using session_deleted_inv [of p api pid st os] by simp
next
  case (stop p st os)
  then show ?case by (simp add: proc_inv_def Process_shutdown_def max_sessions_size_def)
qed (auto dest: process_turn_inv)

interpretation proc: invariant_machine "proc_step api peer" "\<lambda>c. proc_inv (fst c)" for api peer
  by unfold_locales (rule proc_step_inv)

lemma allocate_session_limit:
  assumes "allocate_session api st env pid peer msg p os = (r, p', argv, os')"
  shows "max_sessions p' = max_sessions p" and "ending p' = ending p"
  using assms by (cases rule: allocate_session_cases; simp)+

lemma proc_step_limit: "proc_step api peer c d \<Longrightarrow> max_sessions (fst d) = max_sessions (fst c)"
proof (induction rule: proc_step.induct)
  case (child_exit pid p st os msg p' st' os')
  then show ?case by (auto simp: session_deleted_def Let_def split: if_splits prod.splits)
next
  case (stop p st os)
  then show ?case by (simp add: Process_shutdown_def)
qed (auto simp: process_turn_def dest: allocate_session_limit
      split: if_splits option.splits recv_message.splits prod.splits)

interpretation proc_limit: invariant_machine "proc_step api peer" "\<lambda>c. max_sessions (fst c) = n" for api peer n
  by unfold_locales (simp add: proc_step_limit)

lemma Process_create_fields:
  assumes "Process_create bucket accepted pid hp n sw = Some p"
  shows "sessions p = []" and "max_sessions p = n" and "\<not> ending p"
  using assms
  by (auto simp: Process_create_def Process_connect_def Process_init_def S3Swapper_enable_swapping_def Let_def
      split: if_splits)

section \<open>Properties\<close>

text \<open>
  C8: in every state that a process created by \<open>Process::create\<close> can reach, with swapping or without it, with
  requests and exits of its children in any order, no two sessions carry the same identifier and, for a limit
  that is not negative, their number never exceeds it.
\<close>

theorem process_sessions_bounded:
  assumes "0 \<le> sint n" and "Process_create bucket accepted pid hp n sw = Some p0"
    and "reaches (proc_step api peer) (p0, st0, os0) (p, st, os)"
  shows "distinct (map fork_session_id (sessions p)) \<and> int (length (sessions p)) \<le> sint n"
proof -
  have "proc_inv p" and "max_sessions p = n"
    using proc.reaches_inv [OF assms(3)] proc_limit.reaches_inv [OF assms(3), of n] Process_create_fields [OF assms(2)]
    by (simp_all add: proc_inv_def)
  with assms(1) max_sessions_size_nonneg [of p] show ?thesis by (auto simp: proc_inv_def)
qed

text \<open>
  C29: \<open>allocate_session\<close> refuses with \<open>NO_MORE_CAPACITY\<close> exactly when the limit is reached, and
  with \<open>SESSION_CONFLICT\<close> exactly when it is not and the identifier is in use; in both cases
  nothing changes. Otherwise one session with the requested parameters is added, and the result is
  \<open>SUCCESS\<close> exactly when its shared memory could be created.
\<close>

theorem allocate_session_spec:
  assumes "allocate_session api st env pid peer msg p os = (r, p', argv, os')"
  shows "(r = NO_MORE_CAPACITY \<longleftrightarrow> max_sessions_size p \<le> length (sessions p)) \<and>
    (r = SESSION_CONFLICT \<longleftrightarrow> length (sessions p) < max_sessions_size p \<and>
       SessionRequestMsg_session_id msg \<in> fork_session_id ` set (sessions p)) \<and>
    (r \<in> {NO_MORE_CAPACITY, SESSION_CONFLICT} \<longrightarrow> p' = p \<and> os' = os \<and> argv = None) \<and>
    (r \<in> {SUCCESS, UNKNOWN_FAILURE} \<longrightarrow>
       (\<exists>s. p' = p\<lparr>sessions := sessions p @ [s]\<rparr> \<and>
          fork_session_id s = SessionRequestMsg_session_id msg \<and>
          fork_max_functions s = SessionRequestMsg_max_functions msg \<and>
          memory_size s = SessionRequestMsg_memory_size msg) \<and>
       (r = SUCCESS \<longleftrightarrow> fst (SharedMemory_create api (swapper p) st env (SessionRequestMsg_session_id msg)
          (SessionRequestMsg_memory_size msg) os) \<noteq> None))"
  using assms
proof (cases rule: allocate_session_cases)
  case (forked ret s)
  from forked(4) show ?thesis
    by (cases rule: fork_cases) (use forked in \<open>auto intro!: exI [of _ s]\<close>)
qed auto

theorem allocate_session_spec_witness:
  "fst (allocate_session map_s3 Map.empty good_env 7 ''c'' (drop 2 (session_request_encode (''0123456789abcdef'', 1, 1)))
     (Process_init ''p'' ''h'' 0) empty_os) = NO_MORE_CAPACITY"
proof -
  let ?p = "Process_init ''p'' ''h'' 0"
  let ?m = "drop 2 (session_request_encode (''0123456789abcdef'', 1, 1))"
  obtain r p' argv os' where a: "allocate_session map_s3 Map.empty good_env 7 ''c'' ?m ?p empty_os = (r, p', argv, os')"
    using prod_cases4 by blast
  have "max_sessions_size ?p = 0" by (simp add: max_sessions_size_def Process_init_def)
  with allocate_session_spec [OF a] a show ?thesis by (simp add: Process_init_def)
qed

text \<open>
  A session whose shared memory could not be created is reported as
  \<open>UNKNOWN_FAILURE\<close> but stays in the table of the process. It keeps its place there whatever
  child exits later, and the same request, repeated, is refused with \<open>SESSION_CONFLICT\<close> or
  \<open>NO_MORE_CAPACITY\<close> and never retried.
\<close>

lemma failed_session_occupies_slot:
  assumes "allocate_session api st env pid peer msg p os = (UNKNOWN_FAILURE, p', argv, os')"
  shows "\<exists>s \<in> set (sessions p'). fork_session_id s = SessionRequestMsg_session_id msg \<and>
     (\<forall>child st2 os2. 0 < child \<longrightarrow> s \<in> set (sessions (fst (snd (session_deleted api child p' st2 os2))))) \<and>
     fst (allocate_session api st3 env3 pid3 peer msg p' os3) \<in> {SESSION_CONFLICT, NO_MORE_CAPACITY}"
proof -
  let ?s = "requested msg"
  have p': "sessions p' = sessions p @ [?s]"
    using assms
  proof (cases rule: allocate_session_cases)
    case (forked ret s)
    from forked(4) show ?thesis by (cases rule: fork_cases) (use forked in auto)
  qed simp_all
  have "?s \<in> set (sessions (fst (snd (session_deleted api child p' st2 os2))))" if "0 < child" for child st2 os2
  proof -
    let ?P = "\<lambda>s. child_pid s = child"
    have "find_pos ?P (sessions p') \<noteq> length (sessions p)"
    proof
      assume e: "find_pos ?P (sessions p') = length (sessions p)"
      then have "?P (sessions p' ! length (sessions p))"
        using find_pos_nth [of ?P "sessions p'"] p' by simp
      with that show False by (simp add: p')
    qed
    then consider "find_pos ?P (sessions p') < length (sessions p)"
      | "find_pos ?P (sessions p') = Suc (length (sessions p))"
      using find_pos_le [of ?P "sessions p'"] by (force simp: p')
    then show ?thesis
      by cases (simp_all add: session_deleted_sessions Let_def p')
  qed
  moreover have "fork_session_id ?s = SessionRequestMsg_session_id msg" by simp
  moreover from this have
    "fst (allocate_session api st3 env3 pid3 peer msg p' os3) \<in> {SESSION_CONFLICT, NO_MORE_CAPACITY}"
    by (simp add: allocate_session_def p' find_None)
  moreover have "?s \<in> set (sessions p')" by (simp add: p')
  ultimately show ?thesis by blast
qed

text \<open>
  When a child exits, the control plane receives one message, which it decodes as the closure
  of exactly that session, with the number of swapped bytes; the session leaves the table and
  every other one stays, in order.
\<close>

lemma session_exit_notice:
  assumes "i < length (sessions p)" and "child_pid (sessions p ! i) = pid"
    and "\<forall>j<i. child_pid (sessions p ! j) \<noteq> pid" and "id16 (fork_session_id (sessions p ! i))"
  shows "\<exists>msg p' st' os'. session_deleted api pid p st os = (Some msg, p', st', os') \<and>
    note_decode msg = Some (Session_Closed
      (if S3Swapper_is_enabled (swapper p) then shm_size (memory (sessions p ! i)) else 0)
      (fork_session_id (sessions p ! i))) \<and>
    sessions p' = take i (sessions p) @ drop (Suc i) (sessions p)"
proof -
  let ?s = "sessions p ! i"
  let ?n = "if S3Swapper_is_enabled (swapper p) then shm_size (memory ?s) else 0"
  have pos: "find_pos (\<lambda>s. child_pid s = pid) (sessions p) = i"
    using assms(1-3) by (intro find_posI) auto
  have "note_decode (note_encode (Session_Closed ?n (fork_session_id ?s))) =
      Some (Session_Closed ?n (fork_session_id ?s))"
    by (rule pnote.decode_encode) (simp add: assms(4))
  then show ?thesis
    using assms(1) by (simp add: session_deleted_def pos Let_def vector_erase_eq)
qed

text \<open>
  The memory of a session that ended is unmapped and unlinked only when the session is the
  last of the vector. Otherwise \<open>erase\<close> overwrites it by move assignment, which does not release
  what it overwrites: no mapping and no shared memory object is released.
\<close>

lemma session_memory_release:
  assumes "i < length (sessions p)" and "child_pid (sessions p ! i) = pid"
    and "\<forall>j<i. child_pid (sessions p ! j) \<noteq> pid"
    and "memory (sessions p ! i) = m" and "shm_ptr m = Some a" and "shm_owned m" and "fd m \<noteq> -1"
  shows "let os' = snd (snd (snd (session_deleted api pid p st os))) in
    if Suc i = length (sessions p)
    then mappings os' a = None \<and> segments os' (c_str (path m)) = None
    else os' = os"
proof -
  have "find_pos (\<lambda>s. child_pid s = pid) (sessions p) = i"
    using assms(1-3) by (intro find_posI) auto
  then show ?thesis
    using assms by (simp add: session_deleted_def Let_def vector_erase_eq SharedMemory_destroy_def
        unmap_def shm_unlink_def)
qed

text \<open>
  A request for which the shared memory exists but \<open>vfork\<close> fails is answered with
  \<open>SUCCESS\<close> although no session was started; the entry it leaves behind has the process id -1.
\<close>

lemma vfork_failure_reported_as_success:
  assumes "length (sessions p) < max_sessions_size p"
    and "SessionRequestMsg_session_id msg \<notin> fork_session_id ` set (sessions p)"
    and "SharedMemory_create api (swapper p) st env (SessionRequestMsg_session_id msg)
      (SessionRequestMsg_memory_size msg) os = (Some m, os')"
  shows "\<exists>p'. allocate_session api st env (-1) peer msg p os = (SUCCESS, p', None, os') \<and>
    child_pid (last (sessions p')) = -1"
proof -
  have "find (\<lambda>s. fork_session_id s = SessionRequestMsg_session_id msg) (sessions p) = None"
    using assms(2) unfolding find_None by (metis imageI)
  then show ?thesis
    using assms(1,3) by (simp add: allocate_session_def SessionFork_fork_def Let_def)
qed

text \<open>
  A turn that does not end the loop, and the session request that it delivers, if \<open>read_n\<close> returned a
  whole message and it is one; a failed read, a short one and any other message deliver none.
\<close>

definition ongoing :: "turn \<Rightarrow> bool" where
  "ongoing t \<longleftrightarrow> \<not> t_ending t \<and> t_size t \<noteq> 0"

definition turn_request :: "turn \<Rightarrow> (string \<times> i32 \<times> i32) option" where
  "turn_request t = (if t_size t = int Recv_EXPECTED_LENGTH then session_request_decode (t_data t) else None)"

fun turn_requests :: "turn list \<Rightarrow> (shm_env \<times> string \<times> i32 \<times> i32) list" where
  "turn_requests [] = []"
| "turn_requests (t # ts) =
     (if \<not> ongoing t then []
      else case turn_request t of None \<Rightarrow> turn_requests ts | Some m \<Rightarrow> (t_env t, m) # turn_requests ts)"

text \<open>
  The codes that a table with room for \<open>n\<close> sessions and the identifiers \<open>ids\<close> in it answers to a sequence of
  requests. A request that is neither refused for lack of room nor for its identifier enters the table, and
  its code says whether its memory was made: it was when the system calls succeed on a positive number of
  bytes, except that a swapped session, whose size is negative, also has to be fetched.
\<close>

definition memory_made :: "shm_env \<Rightarrow> i32 \<Rightarrow> bool" where
  "memory_made env kb \<longleftrightarrow> open_ok env \<and> trunc_ok env \<and> map_ok env \<and> 0 < sint (shm_bytes kb)"

fun statuses_ok :: "nat \<Rightarrow> string list \<Rightarrow> (shm_env \<times> string \<times> i32 \<times> i32) list \<Rightarrow> ErrorCode list \<Rightarrow> bool" where
  "statuses_ok n ids [] rs \<longleftrightarrow> rs = []"
| "statuses_ok n ids (m # ms) [] \<longleftrightarrow> False"
| "statuses_ok n ids ((env, sid, mf, kb) # ms) (r # rs) \<longleftrightarrow>
     (if n \<le> length ids then r = NO_MORE_CAPACITY \<and> statuses_ok n ids ms rs
      else if sid \<in> set ids then r = SESSION_CONFLICT \<and> statuses_ok n ids ms rs
      else (r = SUCCESS \<and> memory_made env kb \<or> r = UNKNOWN_FAILURE \<and> (sint kb < 0 \<or> \<not> memory_made env kb)) \<and>
        statuses_ok n (ids @ [sid]) ms rs)"

lemma parse_session_request:
  assumes "id16 (fst m)"
  obtains buf where "RecvMessageBuffer_parse (session_request_encode m) (int Recv_EXPECTED_LENGTH) =
      Some (SessionRequestMsg buf)"
    and "(SessionRequestMsg_session_id buf, SessionRequestMsg_max_functions buf, SessionRequestMsg_memory_size buf) = m"
  using session_request_decode_encode [OF assms] session_request_length [of m]
  by (auto simp: session_request_decode_def Recv_EXPECTED_LENGTH_def split: option.splits recv_message.splits)

lemma status_reply:
  assumes "id16 sid"
  shows "note_decode (fill_session_status (scast (ucast (error_code r) :: i16)) sid SendMessage_init) =
    Some (Session_Status (ucast (error_code r)) sid)"
proof -
  have "note_valid (Session_Status (ucast (error_code r)) sid)"
    using assms by (cases r) simp_all
  from pnote.decode_encode [OF this] show ?thesis by simp
qed

lemma turn_request_result:
  assumes "ongoing t" and "turn_request t = Some m" and "length (t_data t) = Recv_EXPECTED_LENGTH" and "id16 (fst m)"
  obtains buf r p' argv os' out where "process_turn api st peer t p os = Continue (p', os', [out])"
    and "note_decode out = Some (Session_Status (ucast (error_code r)) (fst m))"
    and "allocate_session api st (t_env t) (t_pid t) peer buf p os = (r, p', argv, os')"
    and "(SessionRequestMsg_session_id buf, SessionRequestMsg_max_functions buf, SessionRequestMsg_memory_size buf) = m"
proof -
  have sz: "t_size t = int Recv_EXPECTED_LENGTH" and d: "session_request_decode (t_data t) = Some m"
    using assms(2) by (simp_all add: turn_request_def split: if_splits)
  from d obtain buf where b: "RecvMessageBuffer_parse (t_data t) (int Recv_EXPECTED_LENGTH) = Some (SessionRequestMsg buf)"
    and m: "(SessionRequestMsg_session_id buf, SessionRequestMsg_max_functions buf, SessionRequestMsg_memory_size buf) = m"
    by (auto simp: session_request_decode_def assms(3) split: option.splits recv_message.splits)
  obtain r p' argv os' where a: "allocate_session api st (t_env t) (t_pid t) peer buf p os = (r, p', argv, os')"
    using prod_cases4 by blast
  let ?out = "fill_session_status (scast (ucast (error_code r) :: i16)) (fst m) SendMessage_init"
  have "process_turn api st peer t p os = Continue (p', os', [?out])"
    using assms(1) b sz m a by (auto simp: process_turn_def ongoing_def Recv_EXPECTED_LENGTH_def)
  from this status_reply [OF assms(4)] a m show ?thesis by (rule that)
qed

lemma other_turn:
  assumes "ongoing t" and "turn_request t = None" and "length (t_data t) = Recv_EXPECTED_LENGTH"
  shows "process_turn api st peer t p os = Continue (p, os, [])"
proof (cases "t_size t = int Recv_EXPECTED_LENGTH")
  case True
  with assms show ?thesis
    by (auto simp: process_turn_def ongoing_def turn_request_def session_request_decode_def
        split: option.splits recv_message.splits)
qed (use assms(1) in \<open>simp add: process_turn_def ongoing_def RecvMessageBuffer_parse_def\<close>)

lemma create_memory_made:
  assumes "SharedMemory_create api sw st env sid kb os = (shm, os')"
  shows "shm \<noteq> None \<Longrightarrow> memory_made env kb" and "memory_made env kb \<Longrightarrow> 0 \<le> sint kb \<Longrightarrow> shm \<noteq> None"
proof -
  assume "shm \<noteq> None"
  with assms create_Some(2) [of api sw st env sid kb os] show "memory_made env kb"
    by (auto simp: memory_made_def SharedMemory_create_def Let_def split: if_splits)
next
  assume "memory_made env kb" "0 \<le> sint kb"
  with assms show "shm \<noteq> None"
    by (auto simp: memory_made_def shm_bytes_def SharedMemory_create_def Let_def split: if_splits prod.splits)
qed

text \<open>One request of \<open>allocate_session\<close> is answered as the table answers it.\<close>

lemma allocate_session_status:
  assumes "allocate_session api st env pid peer buf p os = (r, p', argv, os')"
    and "(SessionRequestMsg_session_id buf, SessionRequestMsg_max_functions buf, SessionRequestMsg_memory_size buf) = m"
    and "statuses_ok (max_sessions_size p') (map fork_session_id (sessions p')) ms rs"
  shows "statuses_ok (max_sessions_size p) (map fork_session_id (sessions p)) ((env, m) # ms) (r # rs)"
  using assms(1)
proof (cases rule: allocate_session_cases)
  case (forked ret s)
  obtain shm o2 where c: "SharedMemory_create api (swapper p) st env (SessionRequestMsg_session_id buf)
      (SessionRequestMsg_memory_size buf) os = (shm, o2)" by (cases rule: prod.exhaust)
  from forked(4) have "fork_session_id s = SessionRequestMsg_session_id buf \<and> ret = (shm \<noteq> None)"
    by (cases rule: fork_cases) (use c in simp_all)
  with forked create_memory_made [OF c] assms(2,3) show ?thesis
    by (auto simp: max_sessions_size_sessions not_less)
qed (use assms(2,3) in auto)

text \<open>
  C19: the loop of a process answers every session request that arrives complete, in order, with exactly one
  status message, which the control plane decodes as a status of that session, and it writes nothing else;
  failed reads, short reads and other messages may come in between, until a turn that ends the loop. The code
  is 1 when the table is full, 2 when it has room but has the identifier already, and otherwise the session
  enters the table and the code is 0 when its memory was made and 3 when not.
\<close>

theorem every_request_answered:
  assumes "\<forall>t \<in> set ts. length (t_data t) = Recv_EXPECTED_LENGTH"
    and "\<forall>t \<in> set ts. \<forall>m. turn_request t = Some m \<longrightarrow> id16 (fst m)" and "\<not> ending p"
  shows "\<exists>rs. statuses_ok (max_sessions_size p) (map fork_session_id (sessions p)) (turn_requests ts) rs \<and>
    map note_decode (snd (snd (process_loop api st peer ts p os))) =
      map2 (\<lambda>r m. Some (Session_Status (ucast (error_code r)) (fst (snd m)))) rs (turn_requests ts)"
  using assms
proof (induction ts arbitrary: p os)
  case (Cons t ts)
  show ?case
  proof (cases "ongoing t")
    case False
    then show ?thesis using Cons.prems(3) by (auto simp: process_turn_def ongoing_def)
  next
    case on: True
    show ?thesis
    proof (cases "turn_request t")
      case None
      with on Cons show ?thesis by (simp add: other_turn case_prod_beta)
    next
      case (Some m)
      obtain buf r p' argv os' out where t: "process_turn api st peer t p os = Continue (p', os', [out])"
        and o: "note_decode out = Some (Session_Status (ucast (error_code r)) (fst m))"
        and a: "allocate_session api st (t_env t) (t_pid t) peer buf p os = (r, p', argv, os')"
        and m: "(SessionRequestMsg_session_id buf, SessionRequestMsg_max_functions buf, SessionRequestMsg_memory_size buf) = m"
        using turn_request_result [OF on Some] Cons.prems(1,2) Some by (metis list.set_intros(1))
      from Cons.prems(3) allocate_session_limit [OF a] obtain rs where rs: "statuses_ok (max_sessions_size p') (map fork_session_id (sessions p')) (turn_requests ts) rs"
        "map note_decode (snd (snd (process_loop api st peer ts p' os'))) =
           map2 (\<lambda>r m. Some (Session_Status (ucast (error_code r)) (fst (snd m)))) rs (turn_requests ts)"
        using Cons.IH [of p' os'] Cons.prems(1,2) by auto
      from allocate_session_status [OF a m rs(1)] rs(2) t o on Some Cons.prems(3) show ?thesis
        by (intro exI [of _ "r # rs"]) (simp add: case_prod_beta del: statuses_ok.simps)
    qed
  qed
qed simp

text \<open>A process that swaps, a turn that delivers a request and one in which the read fails.\<close>

definition swapping_process :: Process where
  "swapping_process = Process_init ''p'' ''h'' 4 \<lparr>socket_open := True,
     swapper := snd (S3Swapper_enable_swapping (Some ''bucket'') S3Swapper_init)\<rparr>"

definition demo_turn :: "string \<Rightarrow> turn" where
  "demo_turn sid = \<lparr>t_ending = False, t_size = 39, t_data = session_request_encode (sid, 1, 1), t_env = good_env, t_pid = 7\<rparr>"

definition failed_turn :: turn where
  "failed_turn = \<lparr>t_ending = False, t_size = -1, t_data = replicate 39 0, t_env = good_env, t_pid = 7\<rparr>"

lemma swapping_process_created: "Process_create (Some ''bucket'') True ''p'' ''h'' 4 True = Some swapping_process"
  by (simp add: Process_create_def Process_connect_def S3Swapper_enable_swapping_def swapping_process_def Let_def
      Process_init_def)

lemma swapping_process_fields [simp]:
  "sessions swapping_process = []" "max_sessions_size swapping_process = 4" "\<not> ending swapping_process"
  by (simp_all add: swapping_process_def Process_init_def max_sessions_size_def)

lemma demo_turns:
  "ongoing (demo_turn sid)" "length (t_data (demo_turn sid)) = Recv_EXPECTED_LENGTH" "t_env (demo_turn sid) = good_env"
  "id16 sid \<Longrightarrow> turn_request (demo_turn sid) = Some (sid, 1, 1)"
  "ongoing failed_turn" "length (t_data failed_turn) = Recv_EXPECTED_LENGTH" "turn_request failed_turn = None"
  using session_request_decode_encode [of "(sid, 1, 1)"] session_request_length [of "(sid, 1, 1)"]
  by (simp_all add: ongoing_def turn_request_def demo_turn_def failed_turn_def Recv_EXPECTED_LENGTH_def)

lemma demo_memory_made: "memory_made good_env 1"
  by (simp add: memory_made_def good_env_def shm_bytes_def)

theorem every_request_answered_witness:
  "map note_decode (snd (snd (process_loop map_s3 Map.empty ''c''
     [demo_turn ''0123456789abcdef'', failed_turn, demo_turn ''0123456789abcdef''] swapping_process empty_os))) =
   [Some (Session_Status 0 ''0123456789abcdef''), Some (Session_Status 2 ''0123456789abcdef'')]"
proof -
  have i: "id16 ''0123456789abcdef''" by (simp add: id16_def)
  let ?ts = "[demo_turn ''0123456789abcdef'', failed_turn, demo_turn ''0123456789abcdef'']"
  have "\<exists>rs. statuses_ok (max_sessions_size swapping_process) (map fork_session_id (sessions swapping_process)) (turn_requests ?ts) rs \<and>
    map note_decode (snd (snd (process_loop map_s3 Map.empty ''c'' ?ts swapping_process empty_os))) =
      map2 (\<lambda>r m. Some (Session_Status (ucast (error_code r)) (fst (snd m)))) rs (turn_requests ?ts)"
    by (rule every_request_answered) (auto simp: demo_turns(2,6,7) demo_turns(4) [OF i] i)
  then obtain rs where "statuses_ok 4 [] (turn_requests ?ts) rs"
    and rs: "map note_decode (snd (snd (process_loop map_s3 Map.empty ''c'' ?ts swapping_process empty_os))) =
      map2 (\<lambda>r m. Some (Session_Status (ucast (error_code r)) (fst (snd m)))) rs (turn_requests ?ts)" by auto
  then have "rs = [SUCCESS, SESSION_CONFLICT]"
    using demo_memory_made by (cases rs; cases "tl rs") (auto simp: demo_turns(1,3,5,7) demo_turns(4) [OF i])
  with rs show ?thesis by (simp add: demo_turns(1,3,5,7) demo_turns(4) [OF i])
qed

text \<open>After its first request the process has the session of that request.\<close>

lemma swapping_process_runs:
  "\<exists>p os. reaches (proc_step map_s3 ''c'') (swapping_process, Map.empty, empty_os) (p, Map.empty, os) \<and>
     map fork_session_id (sessions p) = [''0123456789abcdef'']"
proof -
  let ?t = "demo_turn ''0123456789abcdef''"
  have i: "id16 ''0123456789abcdef''" by (simp add: id16_def)
  obtain buf r p argv os out where t: "process_turn map_s3 Map.empty ''c'' ?t swapping_process empty_os = Continue (p, os, [out])"
    and "note_decode out = Some (Session_Status (ucast (error_code r)) (fst (''0123456789abcdef'', 1 :: i32, 1 :: i32)))"
    and a: "allocate_session map_s3 Map.empty (t_env ?t) (t_pid ?t) ''c'' buf swapping_process empty_os = (r, p, argv, os)"
    and m: "(SessionRequestMsg_session_id buf, SessionRequestMsg_max_functions buf, SessionRequestMsg_memory_size buf) =
      (''0123456789abcdef'', 1, 1)"
    by (rule turn_request_result [OF demo_turns(1) demo_turns(4) [OF i] demo_turns(2)]) (simp add: i)
  from a have "map fork_session_id (sessions p) = [''0123456789abcdef'']"
  proof (cases rule: allocate_session_cases)
    case (forked ret s)
    from forked(4) have "fork_session_id s = SessionRequestMsg_session_id buf" by (cases rule: fork_cases) simp_all
    with forked(5) m show ?thesis by simp
  qed simp_all
  moreover have "reaches (proc_step map_s3 ''c'') (swapping_process, Map.empty, empty_os) (p, Map.empty, os)"
    by (rule reaches_step [where step = "proc_step map_s3 ''c''", OF reaches_refl proc_step.turn [OF _ demo_turns(2) t]]) simp
  ultimately show ?thesis by (intro exI conjI)
qed

theorem process_sessions_bounded_witness:
  "\<exists>p os. reaches (proc_step map_s3 ''c'') (swapping_process, Map.empty, empty_os) (p, Map.empty, os) \<and>
     sessions p \<noteq> [] \<and> distinct (map fork_session_id (sessions p)) \<and> int (length (sessions p)) \<le> 4"
proof -
  obtain p os where r: "reaches (proc_step map_s3 ''c'') (swapping_process, Map.empty, empty_os) (p, Map.empty, os)"
    and n: "sessions p \<noteq> []" using swapping_process_runs by fastforce
  from process_sessions_bounded [OF _ swapping_process_created r] r n show ?thesis by auto
qed

section \<open>Swapping a session in\<close>

text \<open>
  \<open>session_deleted\<close> stores the memory of a session under its 16-character identifier, whereas
  \<open>SharedMemory::create\<close> asks for it under the name of the shared memory object, which has a
  slash in front.
\<close>

definition short_keys :: "('s \<Rightarrow> string \<times> string \<rightharpoonup> bytes) \<Rightarrow> Process \<times> 's \<times> os \<Rightarrow> bool" where
  "short_keys stored c \<longleftrightarrow>
     (\<forall>s \<in> set (sessions (fst c)). length (fork_session_id s) \<le> 16) \<and>
     (\<forall>b k. stored (fst (snd c)) (b, k) \<noteq> None \<longrightarrow> length k \<le> 16)"

lemma session_id_length: "length (SessionRequestMsg_session_id buf) \<le> 16"
  by (simp add: SessionRequestMsg_session_id_def string_n_def sub_bytes_def)

lemma allocate_session_ids:
  assumes "allocate_session api st env pid peer msg p os = (r, p', argv, os')"
    and "s \<in> set (sessions p')"
  shows "s \<in> set (sessions p) \<or> fork_session_id s = SessionRequestMsg_session_id msg"
  using assms(1)
proof (cases rule: allocate_session_cases)
  case (forked ret t)
  from forked(4) have "fork_session_id t = SessionRequestMsg_session_id msg"
    by (cases rule: fork_cases) simp_all
  with forked assms(2) show ?thesis by auto
qed (use assms(2) in simp_all)

lemma process_turn_ids:
  assumes "process_turn api st peer t p os = Continue (p', os', out) \<or>
      process_turn api st peer t p os = Break (p', os', out)"
    and "\<forall>s \<in> set (sessions p). length (fork_session_id s) \<le> 16" and "s \<in> set (sessions p')"
  shows "length (fork_session_id s) \<le> 16"
  using assms session_id_length
  by (auto simp: process_turn_def dest!: allocate_session_ids
      split: if_splits option.splits recv_message.splits prod.splits)

lemma session_deleted_store:
  assumes "session_deleted api pid p st os = (msg, p', st', os')"
  shows "st' = st \<or> (\<exists>s \<in> set (sessions p). \<exists>d. st' = snd (S3Swapper_swap api (swapper p) (fork_session_id s) d st))"
proof -
  let ?i = "find_pos (\<lambda>s. child_pid s = pid) (sessions p)"
  have "?i = length (sessions p) \<or> sessions p ! ?i \<in> set (sessions p)"
    using find_pos_le le_neq_implies_less nth_mem by blast
  with assms show ?thesis
    by (auto simp: session_deleted_def Let_def split: if_splits prod.splits)
qed

lemma swap_keys:
  assumes "s3_ok api stored" and "stored (snd (S3Swapper_swap api sw k d st)) (b, k') \<noteq> None"
  shows "k' = k \<or> stored st (b, k') \<noteq> None"
proof (cases "s3_client sw")
  case True
  have "stored (snd (PutObject api st (bucket_of sw) k d)) =
      (if fst (PutObject api st (bucket_of sw) k d) then (stored st)((bucket_of sw, k) \<mapsto> d) else stored st)"
    using assms(1) unfolding s3_ok_def by blast
  with True assms(2) show ?thesis by (auto simp: S3Swapper_swap_def split: if_splits)
qed (use assms(2) in \<open>simp add: S3Swapper_swap_def\<close>)

lemma proc_step_keys:
  assumes "s3_ok api stored"
  shows "proc_step api peer c d \<Longrightarrow> short_keys stored c \<Longrightarrow> short_keys stored d"
proof (induction rule: proc_step.induct)
  case (child_exit pid p st os msg p' st' os')
  have "set (sessions p') \<subseteq> set (sessions p)"
    using session_deleted_sessions [of api pid p st os] child_exit.hyps
    by (auto simp: Let_def dest: in_set_takeD in_set_dropD)
  moreover have "length k \<le> 16" if "stored st' (b, k) \<noteq> None" for b k
    using session_deleted_store [OF child_exit.hyps] swap_keys [OF assms] that child_exit.prems
    unfolding short_keys_def by (metis fst_conv snd_conv)
  ultimately show ?case using child_exit.prems by (auto simp: short_keys_def)
next
  case (stop p st os)
  then show ?case by (simp add: short_keys_def Process_shutdown_def)
qed (unfold short_keys_def, (use process_turn_ids in fastforce)+)

lemma short_keys_machine:
  assumes "s3_ok api stored" shows "invariant_machine (proc_step api peer) (short_keys stored)"
  by unfold_locales (rule proc_step_keys [OF assms])

text \<open>
  C34: no swapped session ever comes back. Whatever a process did since \<open>Process::create\<close>, with swapping
  enabled, and a store whose keys are session identifiers, a request with a negative memory size, which asks for a
  swapped session, is not answered with \<open>SUCCESS\<close>: the memory was stored under the identifier
  and is looked up with a slash in front of it.
\<close>

theorem swap_in_never_succeeds:
  assumes "s3_ok api stored"
    and "\<forall>b k. stored st0 (b, k) \<noteq> None \<longrightarrow> length k \<le> 16"
    and "Process_create bucket accepted pid hp n True = Some p0" and "reaches (proc_step api peer) (p0, st0, os0) (p, st, os)"
    and "length msg = Recv_EXPECTED_LENGTH - 2" and "sint (SessionRequestMsg_memory_size msg) < 0"
  shows "fst (allocate_session api st env child peer2 msg p os) \<noteq> SUCCESS"
proof
  obtain r p' argv os' where a: "allocate_session api st env child peer2 msg p os = (r, p', argv, os')"
    using prod_cases4 by blast
  assume "fst (allocate_session api st env child peer2 msg p os) = SUCCESS"
  with a have r: "r = SUCCESS" by simp
  have "short_keys stored (p0, st0, os0)"
    using assms(2) Process_create_fields(1) [OF assms(3)] by (simp add: short_keys_def)
  with assms(4) have keys: "short_keys stored (p, st, os)"
    by (rule invariant_machine.reaches_inv [OF short_keys_machine [OF assms(1)]])
  let ?k = "''/'' @ SessionRequestMsg_session_id msg"
  from a have "\<exists>m os2. SharedMemory_create api (swapper p) st env (SessionRequestMsg_session_id msg)
      (SessionRequestMsg_memory_size msg) os = (Some m, os2)"
  proof (cases rule: allocate_session_cases)
    case (forked ret s)
    from forked(4) show ?thesis by (cases rule: fork_cases) (use forked r in auto)
  qed (use r in simp_all)
  then obtain mem where "fst (S3Swapper_swap_in api (swapper p) ?k mem st)"
    using create_Some(6) [OF _ assms(6)] by metis
  then have "stored st (bucket_of (swapper p), ?k) \<noteq> None"
    using assms(1) unfolding s3_ok_def S3Swapper_swap_in_def by (auto split: if_splits) blast
  with keys have "length ?k \<le> 16" unfolding short_keys_def by (metis fst_conv snd_conv)
  moreover have "length (SessionRequestMsg_session_id msg) = 16"
    using assms(5)
    by (simp add: SessionRequestMsg_session_id_def string_n_def sub_bytes_def Recv_EXPECTED_LENGTH_def)
  ultimately show False by simp
qed

text \<open>A swapping process whose bucket holds the memory of the session that is asked for, in full.\<close>

theorem swap_in_never_succeeds_witness:
  "\<exists>st. st (bucket_of (swapper swapping_process), ''0123456789abcdef'') = Some (replicate (64 * 1024) 0) \<and>
     fst (allocate_session map_s3 st good_env 7 ''c'' (drop 2 (session_request_encode (''0123456789abcdef'', 1, -64)))
       swapping_process empty_os) \<noteq> SUCCESS"
proof -
  let ?e = "session_request_encode (''0123456789abcdef'', 1, -64)"
  let ?st = "[(bucket_of (swapper swapping_process), ''0123456789abcdef'') \<mapsto> replicate (64 * 1024) 0]"
  have "id16 (fst (''0123456789abcdef'', 1 :: i32, -64 :: i32))" by (simp add: id16_def)
  then obtain buf where "RecvMessageBuffer_parse ?e (int Recv_EXPECTED_LENGTH) = Some (SessionRequestMsg buf)"
    and "(SessionRequestMsg_session_id buf, SessionRequestMsg_max_functions buf, SessionRequestMsg_memory_size buf) =
      (''0123456789abcdef'', 1, -64)"
    by (rule parse_session_request)
  then have ms: "SessionRequestMsg_memory_size (drop 2 ?e) = -64"
    by (auto simp: RecvMessageBuffer_parse_def Let_def split: if_splits simp del: session_request_encode.simps)
  have "fst (allocate_session map_s3 ?st good_env 7 ''c'' (drop 2 ?e) swapping_process empty_os) \<noteq> SUCCESS"
    by (rule swap_in_never_succeeds [OF map_s3_ok _ swapping_process_created reaches_refl])
      (simp_all add: ms session_request_length Recv_EXPECTED_LENGTH_def del: session_request_encode.simps)
  then show ?thesis by (intro exI [of _ ?st]) simp
qed

end
