(* ===== verification/Handler_Effects.thy ===== *)
theory Handler_Effects
  imports Control_Server Process_Runtime
begin

text \<open>
  What one handler of the control plane or of a process changes, as far as the other program and the
  database can see it: the vectors of sessions of the processes, the sets and the stored limits in Redis,
  and the bytes written to each socket. The theories on the cluster compose these effects.
\<close>

section \<open>Bytes and identifiers\<close>

text \<open>The bytes that went to a socket.\<close>

definition sent_to :: "nat \<Rightarrow> io list \<Rightarrow> bytes" where
  "sent_to h xs = concat (map (\<lambda>x. case x of Write h' bs \<Rightarrow> if h' = h then bs else [] | Close h' \<Rightarrow> []) xs)"

definition written :: "'r control \<Rightarrow> 'r control \<Rightarrow> nat \<Rightarrow> bytes" where
  "written c c' h = sent_to h (drop (length (io c)) (io c'))"

text \<open>UUIDs are drawn anew: no stored session and no process has the identifier.\<close>

definition fresh_uuids :: "'r redis \<Rightarrow> client_env \<Rightarrow> 'r control \<Rightarrow> bool" where
  "fresh_uuids api env c \<longleftrightarrow>
     id16 (take 16 (ce_session_uuid env)) \<and> rget api (redis_st c) (session_key (take 16 (ce_session_uuid env))) = None \<and>
     id16 (take 16 (ce_process_uuid env)) \<and> get_process (take 16 (ce_process_uuid env)) (resources c) = None"

section \<open>The database and the tables\<close>

text \<open>The limits of a session are stored in a form that can be read back.\<close>

definition known :: "('r \<Rightarrow> string \<rightharpoonup> string) \<Rightarrow> 'r \<Rightarrow> string \<Rightarrow> bool" where
  "known strs rs sid \<longleftrightarrow> (\<exists>ms mf. strs rs (session_key sid) = Some (to_string32 ms @ '';'' @ to_string32 mf))"

text \<open>
  A session is in one place only: in the vector of one process or in the swapped sessions of one
  client. \<open>T\<close> gives the vector of each process.
\<close>

definition tables_ok ::
  "('r \<Rightarrow> string \<rightharpoonup> string) \<Rightarrow> ('r \<Rightarrow> string \<Rightarrow> string set) \<Rightarrow> 'r \<Rightarrow> (string \<rightharpoonup> string list) \<Rightarrow> bool" where
  "tables_ok strs members rs T \<longleftrightarrow>
     (\<forall>k xs. T k = Some xs \<longrightarrow> distinct xs \<and> (\<forall>sid \<in> set xs. id16 sid \<and> known strs rs sid)) \<and>
     (\<forall>k k' xs ys. T k = Some xs \<longrightarrow> T k' = Some ys \<longrightarrow> k \<noteq> k' \<longrightarrow> set xs \<inter> set ys = {}) \<and>
     (\<forall>pid sid. sid \<in> members rs (swapped_key pid) \<longrightarrow> id16 sid \<and> known strs rs sid \<and>
        (\<forall>k xs. T k = Some xs \<longrightarrow> sid \<notin> set xs) \<and>
        (\<forall>pid'. sid \<in> members rs (swapped_key pid') \<longrightarrow> pid' = pid))"

lemma tables_okD:
  assumes "tables_ok strs members rs T"
  shows "T k = Some xs \<Longrightarrow> distinct xs"
    and "T k = Some xs \<Longrightarrow> x \<in> set xs \<Longrightarrow> id16 x \<and> known strs rs x"
    and "T k = Some xs \<Longrightarrow> x \<in> set xs \<Longrightarrow> T k' = Some ys \<Longrightarrow> x \<in> set ys \<Longrightarrow> k' = k"
    and "x \<in> members rs (swapped_key pid) \<Longrightarrow> id16 x \<and> known strs rs x"
    and "x \<in> members rs (swapped_key pid) \<Longrightarrow> T k = Some xs \<Longrightarrow> x \<notin> set xs"
    and "x \<in> members rs (swapped_key pid) \<Longrightarrow> x \<in> members rs (swapped_key pid') \<Longrightarrow> pid' = pid"
  using assms unfolding tables_ok_def by (blast, blast, (metis disjoint_iff), blast, blast, blast)

lemma tables_okI:
  assumes "\<And>k xs. T k = Some xs \<Longrightarrow> distinct xs"
    and "\<And>k xs x. T k = Some xs \<Longrightarrow> x \<in> set xs \<Longrightarrow> id16 x \<and> known strs rs x"
    and "\<And>k xs k' ys x. T k = Some xs \<Longrightarrow> x \<in> set xs \<Longrightarrow> T k' = Some ys \<Longrightarrow> x \<in> set ys \<Longrightarrow> k' = k"
    and "\<And>x pid. x \<in> members rs (swapped_key pid) \<Longrightarrow> id16 x \<and> known strs rs x"
    and "\<And>x pid k xs. x \<in> members rs (swapped_key pid) \<Longrightarrow> T k = Some xs \<Longrightarrow> x \<notin> set xs"
    and "\<And>x pid pid'. x \<in> members rs (swapped_key pid) \<Longrightarrow> x \<in> members rs (swapped_key pid') \<Longrightarrow> pid' = pid"
  shows "tables_ok strs members rs T"
  unfolding tables_ok_def
proof (intro conjI allI impI ballI)
  fix k k' xs ys assume "T k = Some xs" "T k' = Some ys" "k \<noteq> k'"
  then show "set xs \<inter> set ys = {}" using assms(3) [of k xs _ k' ys] by blast
qed (use assms in blast)+

lemma tables_ok_weaken:
  assumes "tables_ok strs members rs T" and "\<And>x. known strs rs x \<Longrightarrow> known strs rs' x"
    and "\<And>pid. members rs' (swapped_key pid) \<subseteq> members rs (swapped_key pid)"
  shows "tables_ok strs members rs' T"
proof -
  note D = tables_okD [OF assms(1)] and sub = subsetD [OF assms(3)]
  show ?thesis
    by (rule tables_okI) (fact D(1) | fact D(3) | metis assms(2) D(2) D(4-6) sub)+
qed

text \<open>A session that is nowhere is added to a process.\<close>

lemma tables_ok_add:
  assumes "tables_ok strs members rs T" and "T k = Some xs \<or> T k = None \<and> xs = []"
    and "id16 sid" and "known strs rs' sid" and "\<forall>k xs. T k = Some xs \<longrightarrow> sid \<notin> set xs"
    and "\<And>x. known strs rs x \<Longrightarrow> known strs rs' x"
    and "\<And>pid. members rs' (swapped_key pid) \<subseteq> members rs (swapped_key pid) - {sid}"
  shows "tables_ok strs members rs' (T(k \<mapsto> xs @ [sid]))"
proof -
  have sw: "x \<in> members rs (swapped_key pid) \<and> x \<noteq> sid" if "x \<in> members rs' (swapped_key pid)" for x pid
    using that assms(7) by blast
  have xs: "distinct xs \<and> (\<forall>x \<in> set xs. id16 x \<and> known strs rs x) \<and> sid \<notin> set xs \<and>
      (\<forall>k' ys. T k' = Some ys \<longrightarrow> k' \<noteq> k \<longrightarrow> set xs \<inter> set ys = {}) \<and>
      (\<forall>pid. \<forall>x \<in> members rs (swapped_key pid). x \<notin> set xs)"
    using assms(1,2,5) unfolding tables_ok_def by (cases "T k") auto
  show ?thesis
    unfolding tables_ok_def
  proof (intro conjI allI impI)
    fix k' ys assume "(T(k \<mapsto> xs @ [sid])) k' = Some ys"
    then show "distinct ys" "\<forall>x \<in> set ys. id16 x \<and> known strs rs' x"
      using xs assms(1,3,4,6) unfolding tables_ok_def by (auto split: if_splits)
  next
    fix k1 k2 ys zs
    assume "(T(k \<mapsto> xs @ [sid])) k1 = Some ys" "(T(k \<mapsto> xs @ [sid])) k2 = Some zs" "k1 \<noteq> k2"
    then show "set ys \<inter> set zs = {}"
      using xs assms(1,5) unfolding tables_ok_def by (auto split: if_splits) blast+
  next
    fix pid x assume x: "x \<in> members rs' (swapped_key pid)"
    show "id16 x" "known strs rs' x" using sw [OF x] assms(1,6) unfolding tables_ok_def by blast+
    show "x \<notin> set ys" if "(T(k \<mapsto> xs @ [sid])) k' = Some ys" for k' ys
      using sw [OF x] xs assms(1) that unfolding tables_ok_def by (auto split: if_splits)
    show "pid' = pid" if "x \<in> members rs' (swapped_key pid')" for pid'
      using sw [OF x] sw [OF that] assms(1) unfolding tables_ok_def by blast
  qed
qed

text \<open>A session moves from its process to the swapped ones.\<close>

lemma tables_ok_close:
  assumes "tables_ok strs members rs T" and "T k = Some xs" and "sid \<in> set xs"
    and "set ys = set xs - {sid}" and "distinct ys" and "strs rs' = strs rs"
    and "\<And>pid'. members rs' (swapped_key pid') =
      (if pid' = pid then insert sid (members rs (swapped_key pid')) else members rs (swapped_key pid'))"
  shows "tables_ok strs members rs' (T(k \<mapsto> ys))"
proof -
  have kn: "known strs rs' = known strs rs" using assms(6) by (simp add: known_def fun_eq_iff)
  have sid: "id16 sid" "known strs rs sid" "\<forall>p. sid \<notin> members rs (swapped_key p)"
      "\<forall>k' zs. T k' = Some zs \<longrightarrow> k' \<noteq> k \<longrightarrow> sid \<notin> set zs"
    using assms(1-3) unfolding tables_ok_def by blast+
  have old: "\<exists>ws. T k' = Some ws \<and> set zs \<subseteq> set ws - {sid} \<and> distinct zs" if "(T(k \<mapsto> ys)) k' = Some zs" for k' zs
    using that assms(2,4,5) sid(4) tables_okD(1) [OF assms(1)] by (auto split: if_splits)
  have sw: "x = sid \<and> p = pid \<or> x \<in> members rs (swapped_key p)" if "x \<in> members rs' (swapped_key p)" for x p
    using that assms(7) by (auto split: if_splits)
  note D = tables_okD [OF assms(1)]
  show ?thesis
  proof (rule tables_okI, unfold kn)
    show "distinct zs" if "(T(k \<mapsto> ys)) k' = Some zs" for k' zs using old [OF that] by blast
    show "id16 x \<and> known strs rs x" if "(T(k \<mapsto> ys)) k' = Some zs" "x \<in> set zs" for k' zs x
      using old [OF that(1)] that(2) D(2) by blast
    show "k2 = k1" if "(T(k \<mapsto> ys)) k1 = Some zs" "x \<in> set zs" "(T(k \<mapsto> ys)) k2 = Some ws" "x \<in> set ws"
      for k1 k2 zs ws x
      using old [OF that(1)] old [OF that(3)] that(2,4) D(3) by blast
    show "id16 x \<and> known strs rs x" if "x \<in> members rs' (swapped_key p)" for x p
      using sw [OF that] sid D(4) by blast
    show "x \<notin> set zs" if "x \<in> members rs' (swapped_key p)" "(T(k \<mapsto> ys)) k' = Some zs" for x p k' zs
      using sw [OF that(1)] old [OF that(2)] D(5) by blast
    show "p' = p" if "x \<in> members rs' (swapped_key p)" "x \<in> members rs' (swapped_key p')" for x p p'
      using sw [OF that(1)] sw [OF that(2)] sid(3) D(6) by blast
  qed
qed

section \<open>What the handlers of the control plane change\<close>

definition vec :: "'r control \<Rightarrow> string \<rightharpoonup> string list" where
  "vec c k = map_option proc_sessions (get_process k (resources c))"

lemma vec_redis [simp]: "vec (c\<lparr>redis_st := rs\<rparr>) = vec c"
  by (simp add: vec_def fun_eq_iff)

lemma client_session_tables:
  assumes "redis_ok api strs members" and "tables_ok strs members rs T"
    and "id16 (take 16 u)" and "rget api rs (session_key (take 16 u)) = None"
    and "client_session api u pid sid mf ms rs = (res, rs')"
  shows "case res of Inl msg \<Rightarrow> msg \<noteq> ''Couldn't locate session details!'' \<and> tables_ok strs members rs' T
    | Inr (new, _) \<Rightarrow> id16 new \<and> known strs rs' new \<and> (\<forall>k xs. T k = Some xs \<longrightarrow> new \<notin> set xs) \<and>
        (\<forall>x. known strs rs x \<longrightarrow> known strs rs' x) \<and>
        (\<forall>p. members rs' (swapped_key p) \<subseteq> members rs (swapped_key p) - {new})"
proof (cases "sid = ''''")
  case True
  let ?new = "take 16 u"
  note l = redis_laws [OF assms(1)] and D = tables_okD [OF assms(2)]
  have "\<not> known strs rs ?new" using assms(4) l(1) [of "session_key ?new" rs] by (simp add: known_def)
  then have "\<forall>k xs. T k = Some xs \<longrightarrow> ?new \<notin> set xs" "\<forall>p. ?new \<notin> members rs (swapped_key p)"
    using D(2,4) by blast+
  moreover have "res = Inr (?new, mf, ms, False)"
    and rs': "rs' = rset api rs (session_key ?new) (to_string32 ms @ '';'' @ to_string32 mf)"
    using assms(5) True by (simp_all add: client_session_new)
  moreover have "known strs rs' x" if "known strs rs x \<or> x = ?new" for x
    using that by (auto simp: known_def rs' l(2))
  moreover have "members rs' = members rs" by (simp add: rs' l(3))
  ultimately show ?thesis using assms(3) by auto
next
  case False
  note l = redis_laws [OF assms(1)] and D = tables_okD [OF assms(2)]
  obtain n rs1 where s: "srem api rs (swapped_key pid) sid = (n, rs1)" by fastforce
  have n: "n = (if sid \<in> members rs (swapped_key pid) then 1 else 0)"
    and m: "members rs1 = (members rs)(swapped_key pid := members rs (swapped_key pid) - {sid})" "strs rs1 = strs rs"
    using l(7-9) [of "swapped_key pid" rs sid] s by simp_all
  have ok: "tables_ok strs members rs1 T" by (rule tables_ok_weaken [OF assms(2)]) (auto simp: m known_def)
  show ?thesis
  proof (cases "sid \<notin> members rs (alive_key pid) \<and> sid \<in> members rs (swapped_key pid)")
    case True
    then obtain ms0 mf0 where v: "strs rs (session_key sid) = Some (to_string32 ms0 @ '';'' @ to_string32 mf0)"
      using D(4) [of sid pid] by (auto simp: known_def)
    then have "res = Inr (sid, mf0, ms0 * (-1), True) \<and> rs' = rs1"
      using assms(5) False True s n l(1,4)
      by (auto simp: client_session_def m(2) config_split [simplified] from_chars_to_string32)
    moreover have "members rs1 (swapped_key p) \<subseteq> members rs (swapped_key p) - {sid}" for p
      using True D(6) by (auto simp: m(1))
    ultimately show ?thesis using True D(4,5) by (auto simp: known_def m(2))
  next
    case not: False
    then have "\<exists>msg. res = Inl msg \<and> msg \<noteq> ''Couldn't locate session details!'' \<and> (rs' = rs \<or> rs' = rs1)"
      using assms(5) False s n l(4) by (auto simp: client_session_def split: if_splits)
    with ok assms(2) show ?thesis by auto
  qed
qed

lemma setup_session_effect:
  assumes "\<forall>x s. sessions_map r x = Some s \<longrightarrow> session_id s = x"
    and "r' = snd (setup_session junk k sid mf ms sw alloc r)"
  shows "get_process x r' =
      (if x = k then map_option (\<lambda>p. p\<lparr>proc_sessions := proc_sessions p @ [sid]\<rparr>) (get_process k r) else get_process x r)"
    and "session_msg r' sid = session_request_encode (sid, mf, ms)" and "sessions_map r' sid \<noteq> None"
proof -
  show "get_process x r' =
      (if x = k then map_option (\<lambda>p. p\<lparr>proc_sessions := proc_sessions p @ [sid]\<rparr>) (get_process k r) else get_process x r)"
    by (simp add: assms(2) setup_session_def case_prod_beta)
  show "session_msg r' sid = session_request_encode (sid, mf, ms)" "sessions_map r' sid \<noteq> None"
    using assms(1) by (auto simp: assms(2) setup_session_def case_prod_beta session_msg_def Session_init_def)
qed

lemma allocate_in_process_effect:
  assumes "\<forall>x s. sessions_map (resources c) x = Some s \<longrightarrow> session_id s = x" and "get_process k (resources c) = Some p"
  shows "get_process x (resources (allocate_in_process junk k sid mf ms sw alloc c)) =
      (if x = k then Some (p\<lparr>proc_sessions := proc_sessions p @ [sid]\<rparr>) else get_process x (resources c))"
    and "io (allocate_in_process junk k sid mf ms sw alloc c) = io c @
      (case connection p of None \<Rightarrow> [] | Some h \<Rightarrow> [Write h (session_request_encode (sid, mf, ms))])"
    and "backend (allocate_in_process junk k sid mf ms sw alloc c) = backend c"
proof -
  define r where "r = snd (setup_session junk k sid mf ms sw alloc (resources c))"
  have sr: "setup_session junk k sid mf ms sw alloc (resources c) = (sid, r)"
    unfolding r_def by (simp add: prod_eq_iff)
  note e = setup_session_effect [OF assms(1) r_def]
  obtain s where s: "sessions_map r sid = Some s" using e(3) by blast
  note req = send_session_request_simps(1) [where c = "c\<lparr>resources := r\<rparr>", simplified, OF s clean_init]
  show "get_process x (resources (allocate_in_process junk k sid mf ms sw alloc c)) =
      (if x = k then Some (p\<lparr>proc_sessions := proc_sessions p @ [sid]\<rparr>) else get_process x (resources c))"
    using assms(2) e(1) by (auto simp: allocate_in_process_def sr send_session_request_def split: option.splits prod.splits)
  show "io (allocate_in_process junk k sid mf ms sw alloc c) = io c @
      (case connection p of None \<Rightarrow> [] | Some h \<Rightarrow> [Write h (session_request_encode (sid, mf, ms))])"
  proof (cases "connection p")
    case None
    with assms(2) e(1) [of k] s show ?thesis
      by (auto simp: allocate_in_process_def sr send_session_request_def sock_write_def split: prod.splits)
  next
    case (Some h)
    with assms(2) e(1) [of k] show ?thesis
      by (simp add: allocate_in_process_def sr req e(2) del: session_request_encode.simps)
  qed
  show "backend (allocate_in_process junk k sid mf ms sw alloc c) = backend c"
    by (auto simp: allocate_in_process_def send_session_request_def split: option.splits prod.splits)
qed

lemma allocate_new_process_effect:
  assumes "table_wf (resources c)" and "hash_order place"
    and "allocate_new_process place junk uuid pid sid mf ms sw alloc c = Inr c'"
  obtains p b req where "get_process (take 16 uuid) (resources c') = Some p" and "proc_sessions p = [sid]"
    and "connection p = None"
    and "\<And>x. x \<noteq> take 16 uuid \<Longrightarrow> get_process x (resources c') = get_process x (resources c)"
    and "backend c = Some b" and "backend c' = Some (b\<lparr>backend_req := req\<rparr>)"
    and "io c' = io c @ (case backend_connection b of None \<Rightarrow> [] | Some h \<Rightarrow> [Write h (take Request_EXPECTED_LENGTH req)])"
proof -
  let ?p = "(CProcess_init max_sessions_per_process)\<lparr>cp_process_id := take 16 uuid, global_process_id := pid,
      allocated_sessions := 1\<rparr>"
  have "distinct (map fst (processes (resources c)))" using assms(1) by (rule table_wfD)
  note ap = add_process_simps [OF assms(2) this, where p = ?p]
  define r where "r = snd (add_process place ?p (resources c))"
  define r' where "r' = snd (setup_session junk (take 16 uuid) sid mf ms sw alloc r)"
  have "\<forall>x s. sessions_map r x = Some s \<longrightarrow> session_id s = x"
    using table_wfD(2) [OF assms(1)] by (simp add: r_def ap)
  note e = setup_session_effect [OF this r'_def]
  have fst: "fst (add_process place ?p (resources c)) = take 16 uuid" by (simp add: ap)
  have run: "LocalBackend_allocate_process (take 16 uuid) max_sessions_per_process (c\<lparr>resources := r'\<rparr>) = Inr c'"
    using assms(3) unfolding allocate_new_process_def Let_def case_prod_beta fst r_def [symmetric] r'_def [symmetric] .
  then obtain b where b: "backend c = Some b"
    by (auto simp: LocalBackend_allocate_process_def split: option.splits)
  define req where "req = snd (ProcessRequest_fill max_sessions_per_process (controller_port b)
      (controller_ip_address b) (take 16 uuid) (backend_req b))"
  have "ProcessRequest_fill max_sessions_per_process (controller_port b) (controller_ip_address b) (take 16 uuid)
      (backend_req b) = (Request_EXPECTED_LENGTH, req)"
    by (simp add: req_def prod_eq_iff fst_fill)
  with run b have c': "c' = sock_write (backend_connection b) (take Request_EXPECTED_LENGTH req)
      (c\<lparr>resources := r', backend := Some (b\<lparr>backend_req := req\<rparr>)\<rparr>)"
    by (simp add: LocalBackend_allocate_process_def)
  have rc: "resources c' = r'" by (simp add: c')
  obtain q where q: "get_process (take 16 uuid) r = Some q" "proc_sessions q = []" "connection q = None"
    unfolding r_def using ap(4) [of "take 16 uuid"] by (simp add: CProcess_init_def)
  show ?thesis
  proof (rule that)
    show "get_process (take 16 uuid) (resources c') = Some (q\<lparr>proc_sessions := [sid]\<rparr>)"
      unfolding rc using e(1) [of "take 16 uuid"] q by simp
    show "get_process x (resources c') = get_process x (resources c)" if "x \<noteq> take 16 uuid" for x
      unfolding rc using e(1) [of x] that by (simp add: r_def ap)
    show "io c' = io c @ (case backend_connection b of None \<Rightarrow> [] | Some h \<Rightarrow> [Write h (take Request_EXPECTED_LENGTH req)])"
      by (simp add: c' sock_write_def split: option.splits)
  qed (simp_all add: q b c')
qed

text \<open>The three things a request of a client can do to the tables and the sockets.\<close>

inductive table_change :: "'r control \<Rightarrow> 'r control \<Rightarrow> bool" where
  unchanged: "(\<And>x. get_process x (resources c') = get_process x (resources c)) \<Longrightarrow> io c' = io c \<Longrightarrow>
     backend c' = backend c \<Longrightarrow> table_change c c'"
| placed: "get_process k (resources c) = Some p \<Longrightarrow> sid \<notin> set (proc_sessions p) \<Longrightarrow> id16 sid \<Longrightarrow>
     (\<And>x. get_process x (resources c') = (if x = k then Some (p\<lparr>allocated_sessions := allocated_sessions p + 1,
        proc_sessions := proc_sessions p @ [sid]\<rparr>) else get_process x (resources c))) \<Longrightarrow>
     io c' = io c @ (case connection p of None \<Rightarrow> [] | Some h \<Rightarrow> [Write h (session_request_encode (sid, mf, ms))]) \<Longrightarrow>
     backend c' = backend c \<Longrightarrow> table_change c c'"
| started: "get_process k (resources c) = None \<Longrightarrow> id16 k \<Longrightarrow> connection p = None \<Longrightarrow>
     (\<And>x. get_process x (resources c') = (if x = k then Some p else get_process x (resources c))) \<Longrightarrow>
     backend c = Some b \<Longrightarrow> backend c' = Some (b\<lparr>backend_req := req\<rparr>) \<Longrightarrow>
     io c' = io c @ (case backend_connection b of None \<Rightarrow> [] | Some h \<Rightarrow> [Write h (take Request_EXPECTED_LENGTH req)]) \<Longrightarrow>
     table_change c c'"

text \<open>A session that is stored, and nowhere in the database \<open>rs\<close> or the tables.\<close>

definition unplaced ::
  "('r \<Rightarrow> string \<rightharpoonup> string) \<Rightarrow> ('r \<Rightarrow> string \<Rightarrow> string set) \<Rightarrow> 'r control \<Rightarrow> 'r \<Rightarrow> string \<Rightarrow> bool" where
  "unplaced strs members c rs sid \<longleftrightarrow> id16 sid \<and> known strs rs sid \<and> (\<forall>k xs. vec c k = Some xs \<longrightarrow> sid \<notin> set xs) \<and>
     (\<forall>x. known strs (redis_st c) x \<longrightarrow> known strs rs x) \<and>
     (\<forall>p. members rs (swapped_key p) \<subseteq> members (redis_st c) (swapped_key p) - {sid})"

lemma tables_ok_place:
  assumes "redis_ok api strs members" and "tables_ok strs members (redis_st c) (vec c)" and "unplaced strs members c rs sid"
    and "vec c k = Some xs \<or> vec c k = None \<and> xs = []"
  shows "tables_ok strs members (sadd api rs (alive_key pid) sid) ((vec c)(k \<mapsto> xs @ [sid]))"
proof -
  note l = redis_laws [OF assms(1)]
  have "strs (sadd api rs (alive_key pid) sid) = strs rs" by (simp add: l)
  then have kn: "known strs (sadd api rs (alive_key pid) sid) = known strs rs" by (simp add: known_def fun_eq_iff)
  have "members (sadd api rs (alive_key pid) sid) (swapped_key g) = members rs (swapped_key g)" for g by (simp add: l)
  then show ?thesis
    using assms(3) by (intro tables_ok_add [OF assms(2,4)]) (simp_all add: unplaced_def kn)
qed

lemma existing_process_effect:
  assumes "redis_ok api strs members" and "res_inv (resources c)" and "tables_ok strs members (redis_st c) (vec c)"
    and "unplaced strs members c rs sid" and "get_free_process pid (resources c) = (Some k, r)"
    and "c1 = allocate_in_process junk k sid mf ms sw alloc (c\<lparr>redis_st := rs, resources := r\<rparr>)"
    and "c' = c1\<lparr>redis_st := sadd api (redis_st c1) (alive_key pid) sid\<rparr>"
  shows "table_change c c' \<and> tables_ok strs members (redis_st c') (vec c')"
proof -
  let ?c = "c\<lparr>redis_st := rs, resources := r\<rparr>"
  obtain p where p: "get_process k (resources c) = Some p"
    and r: "r = update_process k (\<lambda>p. p\<lparr>allocated_sessions := allocated_sessions p + 1\<rparr>) (resources c)"
    using assms(2,5) by (auto simp: res_inv_def get_process_def elim!: get_free_process_cases)
  have "\<forall>x s. sessions_map (resources ?c) x = Some s \<longrightarrow> session_id s = x" using assms(2) by (simp add: r res_inv_def)
  note e = allocate_in_process_effect [OF this, where k = k and p = "p\<lparr>allocated_sessions := allocated_sessions p + 1\<rparr>"]
  have gp: "get_process x (resources c') = (if x = k then Some (p\<lparr>allocated_sessions := allocated_sessions p + 1,
       proc_sessions := proc_sessions p @ [sid]\<rparr>) else get_process x (resources c))" for x
    using assms(6,7) e(1) p by (simp add: r)
  have v: "vec c' = (vec c)(k \<mapsto> proc_sessions p @ [sid])" by (auto simp: vec_def gp fun_eq_iff)
  have k: "vec c k = Some (proc_sessions p)" by (simp add: vec_def p)
  have "redis_st c' = sadd api rs (alive_key pid) sid" using assms(6,7) by simp
  then have "tables_ok strs members (redis_st c') (vec c')"
    unfolding v using tables_ok_place [OF assms(1,3,4) disjI1 [OF k]] by simp
  moreover have "sid \<notin> set (proc_sessions p)" "id16 sid" using assms(4) k by (auto simp: unplaced_def)
  with p gp assms(6,7) e(2,3) have "table_change c c'"
    by (intro placed [of k c p sid c' mf ms]) (simp_all add: r del: session_request_encode.simps)
  ultimately show ?thesis by blast
qed

lemma new_process_effect:
  assumes "redis_ok api strs members" and "res_inv (resources c)" and "tables_ok strs members (redis_st c) (vec c)"
    and "unplaced strs members c rs sid" and "hash_order place" and "id16 (take 16 uuid)"
    and "get_process (take 16 uuid) (resources c) = None"
    and "allocate_new_process place junk uuid pid sid mf ms sw alloc (c\<lparr>redis_st := rs\<rparr>) = Inr c1"
    and "c' = c1\<lparr>redis_st := sadd api (redis_st c1) (alive_key pid) sid\<rparr>"
  shows "table_change c c' \<and> tables_ok strs members (redis_st c') (vec c')"
proof -
  let ?k = "take 16 uuid"
  obtain p b req where n: "get_process ?k (resources c1) = Some p" "proc_sessions p = [sid]" "connection p = None"
      "\<And>x. x \<noteq> ?k \<Longrightarrow> get_process x (resources c1) = get_process x (resources c)"
      "backend c = Some b" "backend c1 = Some (b\<lparr>backend_req := req\<rparr>)"
      "io c1 = io c @ (case backend_connection b of None \<Rightarrow> [] | Some h \<Rightarrow> [Write h (take Request_EXPECTED_LENGTH req)])"
    by (rule allocate_new_process_effect [OF _ assms(5,8)]) (use res_inv_wf [OF assms(2)] in simp_all)
  have gp: "get_process x (resources c') = (if x = ?k then Some p else get_process x (resources c))" for x
    using assms(9) n(1,4) by simp
  have v: "vec c' = (vec c)(?k \<mapsto> [] @ [sid])" by (auto simp: vec_def gp fun_eq_iff n(2))
  have k: "vec c ?k = None \<and> [] = ([] :: string list)" by (simp add: vec_def assms(7))
  have "redis_st c' = sadd api rs (alive_key pid) sid" using assms(9) allocate_new_process_redis [OF assms(8)] by simp
  then have "tables_ok strs members (redis_st c') (vec c')"
    unfolding v using tables_ok_place [OF assms(1,3,4) disjI2 [OF k]] by simp
  moreover have "table_change c c'"
    using assms(6,7,9) n(3,5-7) gp by (intro started [of ?k c p c' b req]) simp_all
  ultimately show ?thesis by blast
qed

lemma process_client_effect:
  assumes "redis_ok api strs members" and "res_inv (resources c)" and "tables_ok strs members (redis_st c) (vec c)"
    and "hash_order (ce_place env)" and "fresh_uuids api env c"
    and "process_client api env pid sid fname fid mf ms pl c = Inr ((code, msg), c')"
  shows "table_change c c' \<and> tables_ok strs members (redis_st c') (vec c') \<and>
    msg \<noteq> ''Couldn't locate session details!''"
proof -
  have f: "id16 (take 16 (ce_session_uuid env))"
    "rget api (redis_st c) (session_key (take 16 (ce_session_uuid env))) = None"
    "id16 (take 16 (ce_process_uuid env))" "get_process (take 16 (ce_process_uuid env)) (resources c) = None"
    using assms(5) by (simp_all add: fresh_uuids_def)
  note cs = client_session_tables [OF assms(1,3) f(1,2)]
  have new: "unplaced strs members c rs msg" "msg \<noteq> ''Couldn't locate session details!''"
    if "client_session api (ce_session_uuid env) pid sid mf ms (redis_st c) = (Inr (msg, mf', ms', sw), rs)" for mf' ms' sw rs
    using cs [OF that] by (auto simp: unplaced_def id16_def)
  from assms(6) show ?thesis
  proof (cases rule: process_client_cases)
    case no_process
    with assms(3) show ?thesis by (simp add: unchanged)
  next
    case (refused rs)
    with cs [OF refused(4)] show ?thesis by (simp add: unchanged)
  next
    case (existing mf' ms' sw rs k r c1)
    with existing_process_effect [OF assms(1-3) new(1) existing(4-6)] new(2) show ?thesis by blast
  next
    case (fresh mf' ms' sw rs c1)
    with new_process_effect [OF assms(1-3) new(1) assms(4) f(3,4) fresh(5,6)] new(2) show ?thesis by blast
  qed
qed

lemma run_route_effect:
  assumes "redis_ok api strs members" and "res_inv (resources c)" and "tables_ok strs members (redis_st c) (vec c)"
    and "hash_order (ce_place env)" and "fresh_uuids api env c"
    and "run_route api load multipart env req c = Inr ((code, msg), c')"
  shows "table_change c c' \<and> tables_ok strs members (redis_st c') (vec c') \<and>
    msg \<noteq> ''Couldn't locate session details!''"
proof -
  note l = redis_laws [OF assms(1)] and client = process_client_effect [OF assms(1-5)]
  show ?thesis
  proof (cases req)
    case (Add_Process body)
    have "tables_ok strs members (rset api (redis_st c) (process_key k) v) (vec c)" for k v
      by (rule tables_ok_weaken [OF assms(3)]) (use keys_differ(3) [of k] in \<open>auto simp: known_def l dest: sym\<close>)
    moreover have "take 16 k \<noteq> ''Couldn't locate session details!''" for k
      by (rule notI, drule arg_cong [where f = length]) simp
    ultimately show ?thesis using Add_Process assms(3,6)
      by (auto simp: http_add_process_def process_allocation_def Let_def split: if_splits option.splits
          intro!: unchanged)
  next
    case (Add_Session body)
    with assms(3,6) show ?thesis
      by (auto simp: http_add_session_def Let_def split: if_splits option.splits prod.splits
          intro: unchanged dest: client)
  next
    case (Invoke body)
    with assms(3,6) show ?thesis
      by (auto simp: http_invoke_def Let_def split: if_splits option.splits prod.splits list.splits
          intro: unchanged dest: client)
  qed
qed

lemma sock_close_backend [simp]: "backend (sock_close s c) = backend c"
  by (simp add: sock_close_def split: option.splits)

lemma process_process_effect:
  assumes "process_process ok h buf c = Inr c'" and "get_process (ProcessMessage_process_id buf) (resources c) = Some p"
    and "distinct (proc_sessions p)" and "set (proc_sessions p) \<subseteq> dom (sessions_map (resources c))"
    and "connection p = None"
  shows "get_process x (resources c') = (if x = ProcessMessage_process_id buf then Some (p\<lparr>connection := Some h\<rparr>)
      else get_process x (resources c))"
    and "redis_st c' = redis_st c" and "backend c' = backend c"
    and "io c' = io c @ map (\<lambda>sid. Write h (session_msg (resources c) sid)) (filter (unallocated (resources c)) (proc_sessions p))"
proof -
  let ?k = "ProcessMessage_process_id buf"
  let ?c = "c\<lparr>resources := update_process ?k (\<lambda>p. p\<lparr>connection := Some h\<rparr>) (resources c)\<rparr>"
  have "set (proc_sessions p) \<subseteq> dom (sessions_map (resources ?c))" using assms(4) by simp
  note sent = send_requests_spec [OF assms(3) clean_init this, of h]
  have c': "c' = (send_requests (proc_sessions p) (Some h) Request_init ?c)\<lparr>epoll := (epoll c)(h \<mapsto> True)\<rparr>"
    using assms(1,2,5)
    by (auto simp: process_process_def sock_close_def add_epoll_def remove_process_def Let_def sent split: if_splits)
  show "get_process x (resources c') = (if x = ?k then Some (p\<lparr>connection := Some h\<rparr>) else get_process x (resources c))"
    using assms(2) by (simp add: c')
  show "redis_st c' = redis_st c" "backend c' = backend c"
    "io c' = io c @ map (\<lambda>sid. Write h (session_msg (resources c) sid)) (filter (unallocated (resources c)) (proc_sessions p))"
    unfolding c' sent by simp_all
qed

lemma sent_to_append [simp]: "sent_to h (xs @ ys) = sent_to h xs @ sent_to h ys"
  by (simp add: sent_to_def)

lemma sent_to_simps [simp]:
  "sent_to h [] = []" "sent_to h (Write h' bs # xs) = (if h' = h then bs else []) @ sent_to h xs"
  "sent_to h (Close h' # xs) = sent_to h xs"
  by (simp_all add: sent_to_def)

lemma written_append: "io c' = io c @ xs \<Longrightarrow> written c c' h = sent_to h xs"
  by (simp add: written_def)

lemma send_invocations_other:
  "\<exists>xs. io (send_invocations items (Some h) req c) = io c @ xs \<and> (\<forall>h'. h' \<noteq> h \<longrightarrow> sent_to h' xs = [])"
proof (induction items arbitrary: req c)
  case (Cons item items)
  obtain sz req' where f: "FunctionRequest_fill (function_name item) (function_id item)
      (word_of_nat (length (payload item))) req = (sz, req')" by fastforce
  define c2 where "c2 = sock_write (Some h) (take (length (payload item)) (to_bytes (payload item)))
      (sock_write (Some h) (take Request_EXPECTED_LENGTH req') c)"
  have "send_invocations (item # items) (Some h) req c = send_invocations items (Some h) req' c2"
    by (simp add: f c2_def)
  moreover obtain xs where "io (send_invocations items (Some h) req' c2) = io c2 @ xs" "\<forall>h'. h' \<noteq> h \<longrightarrow> sent_to h' xs = []"
    using Cons by blast
  ultimately show ?case
    by (intro exI [of _ "[Write h (take Request_EXPECTED_LENGTH req'), Write h (take (length (payload item)) (to_bytes (payload item)))] @ xs"])
      (simp add: c2_def sock_write_def)
qed simp

lemma send_invocations_rest [simp]:
  "redis_st (send_invocations items conn req c) = redis_st c" "backend (send_invocations items conn req c) = backend c"
  by (induction items arbitrary: req c) (simp_all split: prod.splits)

text \<open>A connecting session is written to on its own socket only.\<close>

lemma process_session_effect:
  assumes "process_session h buf c = c'"
  shows "get_process x (resources c') = get_process x (resources c)" and "redis_st c' = redis_st c"
    and "backend c' = backend c" and "h' \<noteq> h \<Longrightarrow> written c c' h' = []"
proof -
  show "get_process x (resources c') = get_process x (resources c)" "redis_st c' = redis_st c" "backend c' = backend c"
    using assms by (auto simp: process_session_def Let_def split: option.splits prod.splits)
  show "written c c' h' = []" if "h' \<noteq> h"
  proof (cases "get_session (SessionMessage_session_id buf) (resources c)")
    case None
    then have "io c' = io c @ [Close h]" using assms by (auto simp: process_session_def sock_close_io)
    then show ?thesis by (simp add: written_append)
  next
    case (Some s)
    define c1 where "c1 = sock_close (ses_connection s) c"
    define c2 where "c2 = (if length (allocations s) = 0
        then sock_write (Some h) (take Request_EXPECTED_LENGTH (snd (FunctionRequest_fill '''' '''' 0 Request_init))) c1
        else send_invocations (allocations s) (Some h) Request_init c1)"
    have "\<exists>xs. io c2 = io c1 @ xs \<and> sent_to h' xs = []"
      using send_invocations_other [of "allocations s" h Request_init c1] that
      by (cases "length (allocations s) = 0") (auto simp: c2_def sock_write_def)
    then obtain xs where "io c2 = io c1 @ xs" "sent_to h' xs = []" by blast
    moreover have "io c' = io c2 @ [Close h]"
      using assms Some by (auto simp: process_session_def Let_def sock_close_io c1_def c2_def case_prod_beta)
    moreover obtain ys where "io c1 = io c @ ys" "sent_to h' ys = []"
      by (auto simp: c1_def sock_close_io split: option.splits)
    ultimately show ?thesis by (simp add: written_append)
  qed
qed

lemma parse_closed:
  assumes "id16 sid"
  obtains buf where "Header_parse (note_encode (Session_Closed m sid)) = Some (SessionStatusMessage buf)"
    and "SessionStatusMessage_session_status buf = -1" and "SessionStatusMessage_session_id buf = sid"
  using note_decode_encode [of "Session_Closed m sid"] assms that
  by (auto simp: note_decode_def split: option.splits message.splits if_splits simp del: note_encode.simps)

lemma parse_status:
  assumes "id16 sid" and "st \<noteq> -1"
  obtains buf where "Header_parse (note_encode (Session_Status st sid)) = Some (SessionStatusMessage buf)"
    and "SessionStatusMessage_session_status buf \<noteq> -1"
  using note_decode_encode [of "Session_Status st sid"] assms that
  by (auto simp: note_decode_def split: option.splits message.splits if_splits simp del: note_encode.simps)

text \<open>Removing a session of a process whose sessions are distinct.\<close>

lemma remove_session_effect:
  assumes "table_wf r" and "get_process k r = Some p" and "distinct (proc_sessions p)" and "sid \<in> set (proc_sessions p)"
  obtains ys where "set ys = set (proc_sessions p) - {sid}" and "distinct ys"
    and "\<And>x. get_process x (remove_session k sid r) =
      (if x = k then Some (p\<lparr>allocated_sessions := allocated_sessions p - 1, proc_sessions := ys\<rparr>) else get_process x r)"
proof -
  let ?P = "\<lambda>q. map_option session_id (sessions_map r q) = Some sid" and ?xs = "proc_sessions p"
  have dom: "set ?xs \<subseteq> dom (sessions_map r)" by (rule table_wfD(3) [OF assms(1,2)])
  have P: "?P q \<longleftrightarrow> q = sid" if "q \<in> set ?xs" for q
    using table_wfD(2) [OF assms(1)] dom that by auto
  define i where "i = find_pos ?P ?xs"
  have "i \<noteq> length ?xs" using assms(4) P by (auto simp: i_def find_pos_full)
  then have i: "i < length ?xs" unfolding i_def using find_pos_le le_neq_implies_less by blast
  then have at: "?xs ! i = sid" unfolding i_def using find_pos_nth [of ?P ?xs] P [OF nth_mem] by blast
  have xs: "?xs = take i ?xs @ sid # drop (Suc i) ?xs" using id_take_nth_drop [OF i] at by simp
  show ?thesis
  proof (rule that)
    have "distinct (take i ?xs @ sid # drop (Suc i) ?xs)" using xs assms(3) by simp
    then show "distinct (take i ?xs @ drop (Suc i) ?xs)" by simp
    have "sid \<notin> set (take i ?xs @ drop (Suc i) ?xs)" using \<open>distinct (take i ?xs @ sid # _)\<close> by auto
    moreover have "set ?xs = insert sid (set (take i ?xs @ drop (Suc i) ?xs))" by (subst xs) auto
    ultimately show "set (take i ?xs @ drop (Suc i) ?xs) = set ?xs - {sid}" by blast
    show "get_process x (remove_session k sid r) = (if x = k then Some (p\<lparr>allocated_sessions := allocated_sessions p - 1,
        proc_sessions := take i ?xs @ drop (Suc i) ?xs\<rparr>) else get_process x r)" for x
      using assms(2) i by (auto simp: remove_session_def Let_def i_def)
  qed
qed

lemma closure_swapped:
  assumes "redis_ok api strs members" and "get_process k (resources c) = Some p"
  shows "members (redis_st (handle_session_closure api k n sid c)) (swapped_key g) =
    (if g = global_process_id p then insert sid (members (redis_st c) (swapped_key g)) else members (redis_st c) (swapped_key g))"
proof -
  obtain p' where "get_process k (remove_session k sid (resources c)) = Some p'"
    and "global_process_id p' = global_process_id p" "cp_process_id p' = cp_process_id p"
    using remove_session_process [OF assms(2)] by blast
  then show ?thesis
    using redis_laws [OF assms(1)] by (simp add: handle_session_closure_def Let_def)
qed

lemma handle_message_rearms:
  assumes "handle_message api ok k buf n c = Inr c'" and "n \<noteq> 0" and "n \<noteq> -1"
    and "Header_parse buf = Some (SessionStatusMessage b)"
    and "c1 = (if SessionStatusMessage_session_status b = -1
       then handle_session_closure api k (SessionStatusMessage_memory_size b) (SessionStatusMessage_session_id b) c else c)"
  shows "resources c' = resources c1 \<and> redis_st c' = redis_st c1 \<and> io c' = io c1 \<and> backend c' = backend c1"
  using assms
  by (auto simp: handle_message_def Let_def mod_epoll_def remove_process_def split: option.splits prod.splits if_splits)

lemma handle_session_closure_rest [simp]:
  "io (handle_session_closure api k n sid c) = io c" "backend (handle_session_closure api k n sid c) = backend c"
  "resources (handle_session_closure api k n sid c) = remove_session k sid (resources c)"
  by (simp_all add: handle_session_closure_def Let_def split: option.splits)

text \<open>What a process sends after its identification.\<close>

fun peer_note :: "process_note \<Rightarrow> bool" where
  "peer_note (Session_Closed m sid) = id16 sid"
| "peer_note (Session_Status st sid) = (id16 sid \<and> st \<noteq> -1)"
| "peer_note _ = False"

fun closes :: "process_note \<Rightarrow> string list" where
  "closes (Session_Closed m sid) = [sid]"
| "closes _ = []"

lemma handle_note_effect:
  assumes "redis_ok api strs members" and "res_inv (resources c)" and "tables_ok strs members (redis_st c) (vec c)"
    and "get_process k (resources c) = Some p" and "peer_note n" and "set (closes n) \<subseteq> set (proc_sessions p)"
    and "handle_message api ok k (note_encode n) 24 c = Inr c'"
  obtains ys where "set ys = set (proc_sessions p) - set (closes n)"
    and "\<And>x. get_process x (resources c') = (if x = k
      then Some (p\<lparr>allocated_sessions := allocated_sessions p - of_nat (length (closes n)), proc_sessions := ys\<rparr>)
      else get_process x (resources c))"
    and "io c' = io c" and "backend c' = backend c" and "tables_ok strs members (redis_st c') (vec c')"
proof -
  have d: "distinct (proc_sessions p)" using tables_okD(1) [OF assms(3), of k] assms(4) by (simp add: vec_def)
  show ?thesis
  proof (cases n)
    case (Session_Closed m sid)
    obtain buf where buf: "Header_parse (note_encode n) = Some (SessionStatusMessage buf)"
      "SessionStatusMessage_session_status buf = -1" "SessionStatusMessage_session_id buf = sid"
      using parse_closed [of sid m] assms(5) Session_Closed by auto
    note c' = handle_message_rearms [OF assms(7) _ _ buf(1) refl, simplified buf, simplified]
    have sid: "sid \<in> set (proc_sessions p)" using assms(6) Session_Closed by simp
    obtain ys where ys: "set ys = set (proc_sessions p) - {sid}" "distinct ys"
      "\<And>x. get_process x (remove_session k sid (resources c)) =
        (if x = k then Some (p\<lparr>allocated_sessions := allocated_sessions p - 1, proc_sessions := ys\<rparr>) else get_process x (resources c))"
      using remove_session_effect [OF res_inv_wf [OF assms(2)] assms(4) d sid] by metis
    have v: "vec c' = (vec c)(k \<mapsto> ys)" using c' ys(3) by (auto simp: vec_def fun_eq_iff)
    have vk: "vec c k = Some (proc_sessions p)" by (simp add: vec_def assms(4))
    have "tables_ok strs members (redis_st c') (vec c')"
      unfolding v using c'
      by (intro tables_ok_close [OF assms(3) vk sid ys(1,2), where pid = "global_process_id p"])
        (simp_all add: closure_redis(1) [OF assms(1,4)] closure_swapped [OF assms(1,4)])
    with that [of ys] ys c' Session_Closed show ?thesis by simp
  next
    case (Session_Status st sid)
    obtain buf where buf: "Header_parse (note_encode n) = Some (SessionStatusMessage buf)"
      "SessionStatusMessage_session_status buf \<noteq> -1"
      using parse_status [of sid st] assms(5) Session_Status by auto
    note c' = handle_message_rearms [OF assms(7) _ _ buf(1) refl, simplified buf, simplified]
    then have "vec c' = vec c" by (simp add: vec_def fun_eq_iff)
    with c' assms(3,4) that [of "proc_sessions p"] Session_Status show ?thesis by simp
  qed (use assms(5) in simp_all)
qed

section \<open>What a process changes\<close>

text \<open>A request that a process has room for and that names no session of it.\<close>

lemma request_accepted:
  assumes "process_turn s3 st addr \<lparr>t_ending = False, t_size = int Recv_EXPECTED_LENGTH,
      t_data = session_request_encode m, t_env = env, t_pid = child\<rparr> p os = Continue (P, os', out)"
    and "id16 (fst m)" and "length (sessions p) < max_sessions_size p" and "fst m \<notin> fork_session_id ` set (sessions p)"
  obtains r where "r \<in> {SUCCESS, UNKNOWN_FAILURE}"
    and "map fork_session_id (sessions P) = map fork_session_id (sessions p) @ [fst m]"
    and "max_sessions P = max_sessions p"
    and "out = [note_encode (Session_Status (ucast (error_code r)) (fst m))]"
proof -
  obtain buf where b: "RecvMessageBuffer_parse (session_request_encode m) (int Recv_EXPECTED_LENGTH) =
      Some (SessionRequestMsg buf)" and sid: "SessionRequestMsg_session_id buf = fst m"
    using assms(2) by (rule parse_session_request) auto
  obtain r P' argv os2 where a: "allocate_session s3 st env child addr buf p os = (r, P', argv, os2)"
    using prod_cases4 by blast
  have P: "P = P'" and out: "out = [note_encode (Session_Status (ucast (error_code r)) (fst m))]"
    using assms(1) b a sid by (simp_all add: process_turn_def Recv_EXPECTED_LENGTH_def)
  from a show ?thesis
  proof (cases rule: allocate_session_cases)
    case (forked ret s)
    have "fork_session_id s = fst m"
      using forked(4) by (cases rule: fork_cases) (simp_all add: sid SessionFork_init_def)
    with that [of r] forked(1,5) P out show ?thesis by simp
  qed (use assms(3,4) sid in simp_all)
qed

lemma status_note: "id16 sid \<Longrightarrow> peer_note (Session_Status (ucast (error_code r)) sid)"
  by (cases r) simp_all

text \<open>The exit of a child.\<close>

lemma session_deleted_effect:
  assumes "session_deleted s3 child p st os = (Some msg, P, st', os')"
  obtains i n where "i < length (sessions p)" and "sessions P = take i (sessions p) @ drop (Suc i) (sessions p)"
    and "max_sessions P = max_sessions p" and "ending P = ending p"
    and "msg = note_encode (Session_Closed n (fork_session_id (sessions p ! i)))"
proof -
  let ?i = "find_pos (\<lambda>s. child_pid s = child) (sessions p)"
  have "?i \<noteq> length (sessions p)" using assms by (auto simp: session_deleted_def)
  then have i: "?i < length (sessions p)" using find_pos_le le_neq_implies_less by blast
  with that [of ?i] assms show ?thesis
    by (auto simp: session_deleted_def Let_def vector_erase_eq [OF i] split: if_splits)
qed

end
