(* ===== verification/Cluster.thy ===== *)
theory Cluster
  imports Handler_Effects
begin

text \<open>
  The control plane together with the processes connected to it. A peer is a process of
  \<open>src/runtime/lib/process.cpp\<close> with the two byte streams of its connection: what the control plane
  has written and the process not yet read, and what the process has written and the control plane not
  yet read. The steps are the handlers of the two programs, on the other program's bytes; S3, the
  operating system and which child exits are arbitrary in each step.
\<close>

section \<open>State and steps\<close>

record peer =
  peer_proc :: Process
  peer_sock :: nat
  inbox :: bytes
  outbox :: bytes

record 'r cluster =
  ctl :: "'r control"
  peers :: "string \<rightharpoonup> peer"

text \<open>The streams after the control plane has written.\<close>

definition deliver :: "'r control \<Rightarrow> 'r control \<Rightarrow> (string \<rightharpoonup> peer) \<Rightarrow> string \<rightharpoonup> peer" where
  "deliver c c' ps k = map_option (\<lambda>q. q\<lparr>inbox := inbox q @ written c c' (peer_sock q)\<rparr>) (ps k)"

text \<open>A new connection has a socket that no peer and not the backend uses.\<close>

definition fresh_sock :: "nat \<Rightarrow> 'r cluster \<Rightarrow> bool" where
  "fresh_sock h s \<longleftrightarrow> (\<forall>k q. peers s k = Some q \<longrightarrow> peer_sock q \<noteq> h) \<and>
     (\<forall>b. backend (ctl s) = Some b \<longrightarrow> backend_connection b \<noteq> Some h)"

definition cluster_init :: "'r \<Rightarrow> LocalBackend option \<Rightarrow> 'r cluster" where
  "cluster_init rs b = \<lparr>ctl = control (server_init rs b), peers = Map.empty\<rparr>"

text \<open>A process that a worker created for the control plane's request: its identifier and its limit.\<close>

inductive cluster_step ::
  "'r redis \<Rightarrow> 's s3 \<Rightarrow> (string \<Rightarrow> json) \<Rightarrow> (string \<Rightarrow> string list) \<Rightarrow> 'r cluster \<Rightarrow> 'r cluster \<Rightarrow> bool"
  for api s3 load multipart where
  route: "hash_order (ce_place env) \<Longrightarrow> fresh_uuids api env (ctl s) \<Longrightarrow>
     run_route api load multipart env req (ctl s) = Inr (answer, c) \<Longrightarrow>
     cluster_step api s3 load multipart s (s\<lparr>ctl := c, peers := deliver (ctl s) c (peers s)\<rparr>)"
| connect: "get_process k (resources (ctl s)) = Some p \<Longrightarrow> peers s k = None \<Longrightarrow> fresh_sock h s \<Longrightarrow>
     Process_create bucket True k hp (cp_max_sessions p) sw = Some P \<Longrightarrow>
     Header_parse (fill_process_identification k SendMessage_init) = Some (ProcessMessage buf) \<Longrightarrow>
     process_process ok h buf (ctl s) = Inr c \<Longrightarrow>
     cluster_step api s3 load multipart s (s\<lparr>ctl := c, peers := (deliver (ctl s) c (peers s))
       (k \<mapsto> \<lparr>peer_proc = P, peer_sock = h, inbox = written (ctl s) c h, outbox = []\<rparr>)\<rparr>)"
| session: "fresh_sock h s \<Longrightarrow> process_session h buf (ctl s) = c \<Longrightarrow>
     cluster_step api s3 load multipart s (s\<lparr>ctl := c, peers := deliver (ctl s) c (peers s)\<rparr>)"
| request: "peers s k = Some q \<Longrightarrow> Recv_EXPECTED_LENGTH \<le> length (inbox q) \<Longrightarrow>
     process_turn s3 st addr \<lparr>t_ending = False, t_size = int Recv_EXPECTED_LENGTH,
       t_data = take Recv_EXPECTED_LENGTH (inbox q), t_env = env, t_pid = child\<rparr> (peer_proc q) os =
       Continue (P, os', out) \<Longrightarrow>
     cluster_step api s3 load multipart s (s\<lparr>peers := (peers s)(k \<mapsto> q\<lparr>peer_proc := P,
       inbox := drop Recv_EXPECTED_LENGTH (inbox q), outbox := outbox q @ concat out\<rparr>)\<rparr>)"
| exit: "peers s k = Some q \<Longrightarrow> session_deleted s3 child (peer_proc q) st os = (Some msg, P, st', os') \<Longrightarrow>
     cluster_step api s3 load multipart s (s\<lparr>peers := (peers s)(k \<mapsto> q\<lparr>peer_proc := P, outbox := outbox q @ msg\<rparr>)\<rparr>)"
| notice: "peers s k = Some q \<Longrightarrow> Header_BUF_SIZE \<le> length (outbox q) \<Longrightarrow>
     handle_message api ok k (take Header_BUF_SIZE (outbox q)) (int Header_BUF_SIZE) (ctl s) = Inr c \<Longrightarrow>
     cluster_step api s3 load multipart s (s\<lparr>ctl := c, peers := (deliver (ctl s) c (peers s))
       (k \<mapsto> q\<lparr>outbox := drop Header_BUF_SIZE (outbox q)\<rparr>)\<rparr>)"

section \<open>The invariant\<close>

text \<open>
  Every session a process has, is about to read a request for, or has reported as closed without the
  control plane having read it, is one of the sessions the control plane counts for that process, and
  none of them twice.
\<close>

definition holds :: "Process \<Rightarrow> (string \<times> i32 \<times> i32) list \<Rightarrow> process_note list \<Rightarrow> string list" where
  "holds P rs ns = map fork_session_id (sessions P) @ map fst rs @ concat (map closes ns)"

definition peer_ok :: "peer \<Rightarrow> CProcess \<Rightarrow> bool" where
  "peer_ok q p \<longleftrightarrow> max_sessions (peer_proc q) = cp_max_sessions p \<and>
     (\<exists>rs ns. inbox q = concat (map session_request_encode rs) \<and> outbox q = concat (map note_encode ns) \<and>
        list_all peer_note ns \<and> distinct (holds (peer_proc q) rs ns) \<and>
        set (holds (peer_proc q) rs ns) \<subseteq> set (proc_sessions p))"

definition wired :: "'r cluster \<Rightarrow> bool" where
  "wired s \<longleftrightarrow>
     (\<forall>k p. get_process k (resources (ctl s)) = Some p \<longrightarrow> id16 k \<and> connection p = map_option peer_sock (peers s k)) \<and>
     (\<forall>k k' q q'. peers s k = Some q \<longrightarrow> peers s k' = Some q' \<longrightarrow> peer_sock q = peer_sock q' \<longrightarrow> k = k') \<and>
     (\<forall>k q b. peers s k = Some q \<longrightarrow> backend (ctl s) = Some b \<longrightarrow> backend_connection b \<noteq> Some (peer_sock q))"

definition cluster_inv ::
  "('r \<Rightarrow> string \<rightharpoonup> string) \<Rightarrow> ('r \<Rightarrow> string \<Rightarrow> string set) \<Rightarrow> 'r cluster \<Rightarrow> bool" where
  "cluster_inv strs members s \<longleftrightarrow> res_inv (resources (ctl s)) \<and>
     tables_ok strs members (redis_st (ctl s)) (vec (ctl s)) \<and> wired s \<and>
     (\<forall>k q. peers s k = Some q \<longrightarrow> (\<exists>p. get_process k (resources (ctl s)) = Some p \<and> peer_ok q p))"

text \<open>The first request of the stream of a peer finds room and no session of its name.\<close>

lemma peer_next_request:
  assumes "proc_ok m k p" and "peer_ok q p" and "\<forall>sid \<in> set (proc_sessions p). id16 sid"
    and "Recv_EXPECTED_LENGTH \<le> length (inbox q)"
  obtains r rs ns where "take Recv_EXPECTED_LENGTH (inbox q) = session_request_encode r"
    and "drop Recv_EXPECTED_LENGTH (inbox q) = concat (map session_request_encode rs)"
    and "outbox q = concat (map note_encode ns)" and "list_all peer_note ns"
    and "distinct (holds (peer_proc q) (r # rs) ns)" and "set (holds (peer_proc q) (r # rs) ns) \<subseteq> set (proc_sessions p)"
    and "id16 (fst r)" and "length (sessions (peer_proc q)) < max_sessions_size (peer_proc q)"
    and "fst r \<notin> fork_session_id ` set (sessions (peer_proc q))"
proof -
  obtain qs ns where q: "inbox q = concat (map session_request_encode qs)" "outbox q = concat (map note_encode ns)"
      "list_all peer_note ns" "distinct (holds (peer_proc q) qs ns)" "set (holds (peer_proc q) qs ns) \<subseteq> set (proc_sessions p)"
      "max_sessions (peer_proc q) = cp_max_sessions p"
    using assms(2) by (auto simp: peer_ok_def)
  have "qs \<noteq> []" using assms(4) q(1) by (auto simp: Recv_EXPECTED_LENGTH_def)
  then obtain r rs where qs: "qs = r # rs" by (cases qs) auto
  have len: "length (session_request_encode r) = Recv_EXPECTED_LENGTH"
    by (simp add: session_request_length Recv_EXPECTED_LENGTH_def)
  have "length (holds (peer_proc q) qs ns) = card (set (holds (peer_proc q) qs ns))"
    using q(4) by (simp add: distinct_card)
  also have "\<dots> \<le> card (set (proc_sessions p))" using q(5) by (intro card_mono) simp_all
  also have "\<dots> \<le> length (proc_sessions p)" by (rule card_length)
  finally have "length (sessions (peer_proc q)) < length (proc_sessions p)" by (simp add: holds_def qs)
  moreover have "int (length (proc_sessions p)) \<le> sint (max_sessions (peer_proc q))"
    using assms(1) q(6) by (simp add: proc_ok_def)
  ultimately have "length (sessions (peer_proc q)) < max_sessions_size (peer_proc q)"
    using max_sessions_size_nonneg [of "peer_proc q"] by simp
  moreover have "id16 (fst r)" using q(5) assms(3) by (simp add: holds_def qs)
  moreover have "fst r \<notin> fork_session_id ` set (sessions (peer_proc q))" using q(4) by (auto simp: holds_def qs)
  ultimately show ?thesis
    using q(1-5) len by (intro that [of r rs ns]) (simp_all add: qs)
qed

section \<open>Every step keeps the invariant\<close>

text \<open>A process whose limit stays and whose sessions stay may get more of them.\<close>

lemma peer_ok_mono:
  "peer_ok q p \<Longrightarrow> cp_max_sessions p' = cp_max_sessions p \<Longrightarrow> set (proc_sessions p) \<subseteq> set (proc_sessions p') \<Longrightarrow>
     peer_ok q p'"
  unfolding peer_ok_def by (metis order_trans)

lemma peer_ok_deliver:
  assumes "peer_ok q p" and "sid \<notin> set (proc_sessions p)"
    and "cp_max_sessions p' = cp_max_sessions p" and "proc_sessions p' = proc_sessions p @ [sid]"
  shows "peer_ok (q\<lparr>inbox := inbox q @ session_request_encode (sid, mf, ms)\<rparr>) p'"
proof -
  obtain rs ns where q: "inbox q = concat (map session_request_encode rs)" "outbox q = concat (map note_encode ns)"
      "list_all peer_note ns" "distinct (holds (peer_proc q) rs ns)" "set (holds (peer_proc q) rs ns) \<subseteq> set (proc_sessions p)"
      "max_sessions (peer_proc q) = cp_max_sessions p"
    using assms(1) by (auto simp: peer_ok_def)
  let ?rs = "rs @ [(sid, mf, ms)]"
  have "set (holds (peer_proc q) ?rs ns) = insert sid (set (holds (peer_proc q) rs ns))" by (auto simp: holds_def)
  moreover have "distinct (holds (peer_proc q) ?rs ns)" using q(4,5) assms(2) by (auto simp: holds_def)
  ultimately show ?thesis
    unfolding peer_ok_def using q assms(3,4)
    by (intro conjI exI [of _ ?rs] exI [of _ ns]) (auto simp del: session_request_encode.simps)
qed

lemma cluster_invD:
  assumes "cluster_inv strs members s"
  shows "res_inv (resources (ctl s))" and "tables_ok strs members (redis_st (ctl s)) (vec (ctl s))" and "wired s"
    and "peers s k = Some q \<Longrightarrow> \<exists>p. get_process k (resources (ctl s)) = Some p \<and> peer_ok q p"
    and "get_process k (resources (ctl s)) = Some p \<Longrightarrow> distinct (proc_sessions p) \<and> (\<forall>sid \<in> set (proc_sessions p). id16 sid)"
    and "get_process k (resources (ctl s)) = Some p \<Longrightarrow> proc_ok (sessions_map (resources (ctl s))) k p"
proof -
  show inv: "res_inv (resources (ctl s))" and tab: "tables_ok strs members (redis_st (ctl s)) (vec (ctl s))" and "wired s"
    and "peers s k = Some q \<Longrightarrow> \<exists>p. get_process k (resources (ctl s)) = Some p \<and> peer_ok q p"
    using assms unfolding cluster_inv_def by blast+
  assume p: "get_process k (resources (ctl s)) = Some p"
  then have "vec (ctl s) k = Some (proc_sessions p)" by (simp add: vec_def)
  with tables_okD(1,2) [OF tab this]
  show "distinct (proc_sessions p) \<and> (\<forall>sid \<in> set (proc_sessions p). id16 sid)" by blast
  show "proc_ok (sessions_map (resources (ctl s))) k p" using inv p by (simp add: res_inv_lookup)
qed

lemma wiredD:
  assumes "wired s"
  shows "get_process k (resources (ctl s)) = Some p \<Longrightarrow> id16 k \<and> connection p = map_option peer_sock (peers s k)"
    and "peers s k = Some q \<Longrightarrow> peers s k' = Some q' \<Longrightarrow> peer_sock q = peer_sock q' \<Longrightarrow> k = k'"
    and "peers s k = Some q \<Longrightarrow> backend (ctl s) = Some b \<Longrightarrow> backend_connection b \<noteq> Some (peer_sock q)"
  using assms unfolding wired_def by blast+

lemma written_none: "io c' = io c \<Longrightarrow> written c c' h = []"
  by (simp add: written_def)

lemma deliver_nothing:
  "(\<And>k q. ps k = Some q \<Longrightarrow> written c c' (peer_sock q) = []) \<Longrightarrow> deliver c c' ps = ps"
  by (auto simp: deliver_def fun_eq_iff option.map_id0 intro!: option.map_cong [of _ _ _ id, simplified])

lemma deliver_sock [simp]: "map_option peer_sock (deliver c c' ps k) = map_option peer_sock (ps k)"
  by (simp add: deliver_def option.map_comp comp_def)

lemma wired_update:
  assumes "wired s" and "\<And>x. map_option peer_sock (ps x) = map_option peer_sock (peers s x)"
    and "\<And>k p. get_process k (resources c) = Some p \<Longrightarrow> id16 k \<and> connection p = map_option peer_sock (peers s k)"
    and "\<And>b'. backend c = Some b' \<Longrightarrow> \<exists>b. backend (ctl s) = Some b \<and> backend_connection b = backend_connection b'"
  shows "wired (s\<lparr>ctl := c, peers := ps\<rparr>)"
proof -
  have old: "\<exists>q'. peers s x = Some q' \<and> peer_sock q' = peer_sock q" if "ps x = Some q" for x q
    using assms(2) [of x] that by (cases "peers s x") auto
  show ?thesis
    unfolding wired_def
  proof (intro conjI allI impI)
    fix k p assume "get_process k (resources (ctl (s\<lparr>ctl := c, peers := ps\<rparr>))) = Some p"
    then show "id16 k" "connection p = map_option peer_sock (peers (s\<lparr>ctl := c, peers := ps\<rparr>) k)"
      using assms(2,3) by simp_all
  next
    fix k k' q q'
    assume "peers (s\<lparr>ctl := c, peers := ps\<rparr>) k = Some q" "peers (s\<lparr>ctl := c, peers := ps\<rparr>) k' = Some q'"
      "peer_sock q = peer_sock q'"
    then show "k = k'" using old [of k q] old [of k' q'] wiredD(2) [OF assms(1)] by auto
  next
    fix k q b assume "peers (s\<lparr>ctl := c, peers := ps\<rparr>) k = Some q" "backend (ctl (s\<lparr>ctl := c, peers := ps\<rparr>)) = Some b"
    then show "backend_connection b \<noteq> Some (peer_sock q)"
      using old [of k q] assms(4) [of b] wiredD(3) [OF assms(1), of k] by fastforce
  qed
qed

lemma deliver_Some:
  assumes "deliver c c' ps k = Some q"
  obtains q' where "ps k = Some q'" and "q = q'\<lparr>inbox := inbox q' @ written c c' (peer_sock q')\<rparr>"
  using assms by (auto simp: deliver_def)

lemma change_inv:
  assumes "cluster_inv strs members s" and "res_inv (resources c)" and "tables_ok strs members (redis_st c) (vec c)"
    and "table_change (ctl s) c"
  shows "cluster_inv strs members (s\<lparr>ctl := c, peers := deliver (ctl s) c (peers s)\<rparr>)"
proof -
  note I = cluster_invD [OF assms(1)] and W = wiredD [OF I(3)]
  from assms(4) have "wired (s\<lparr>ctl := c, peers := deliver (ctl s) c (peers s)\<rparr>) \<and>
    (\<forall>k q. deliver (ctl s) c (peers s) k = Some q \<longrightarrow> (\<exists>p. get_process k (resources c) = Some p \<and> peer_ok q p))"
  proof (cases rule: table_change.cases)
    case unchanged
    then have "deliver (ctl s) c (peers s) = peers s" by (simp add: deliver_nothing written_none)
    with unchanged I(3,4) show ?thesis by (simp add: wired_def)
  next
    case (placed k p sid mf ms)
    have conn: "connection p = map_option peer_sock (peers s k)" using W(1) [OF placed(1)] by simp
    have "\<exists>p'. get_process x (resources c) = Some p' \<and> peer_ok q p'"
      if dl: "deliver (ctl s) c (peers s) x = Some q" for x q
    proof -
      obtain q0 where q0: "peers s x = Some q0" "q = q0\<lparr>inbox := inbox q0 @ written (ctl s) c (peer_sock q0)\<rparr>"
        using dl by (rule deliver_Some)
      obtain p0 where p0: "get_process x (resources (ctl s)) = Some p0" "peer_ok q0 p0" using I(4) [OF q0(1)] by blast
      show ?thesis
      proof (cases "x = k")
        case True
        then have "written (ctl s) c (peer_sock q0) = session_request_encode (sid, mf, ms)"
          using conn q0(1) written_append [OF placed(5)] by (simp del: session_request_encode.simps)
        with True peer_ok_deliver [OF p0(2), of sid] p0(1) placed(1,2,4) q0(2) show ?thesis
          by (simp del: session_request_encode.simps)
      next
        case False
        then have "connection p \<noteq> Some (peer_sock q0)" using W(2) [OF q0(1)] conn by (cases "peers s k") auto
        then have "written (ctl s) c (peer_sock q0) = []"
          using written_append [OF placed(5)] by (auto split: option.splits simp del: session_request_encode.simps)
        with False p0 placed(4) q0(2) show ?thesis by simp
      qed
    qed
    moreover have "wired (s\<lparr>ctl := c, peers := deliver (ctl s) c (peers s)\<rparr>)"
      using W(1) placed(1,4) by (intro wired_update [OF I(3)]) (auto simp: placed(6) split: if_splits)
    ultimately show ?thesis by blast
  next
    case (started k p b req)
    have none: "peers s k = None" using I(4) [of k] started(1) by (cases "peers s k") auto
    have "written (ctl s) c (peer_sock q) = []" if "peers s x = Some q" for x q
      using written_append [OF started(7)] W(3) [OF that started(5)] by (auto split: option.splits)
    then have d: "deliver (ctl s) c (peers s) = peers s" by (rule deliver_nothing)
    have "wired (s\<lparr>ctl := c, peers := peers s\<rparr>)"
      using W(1) started none by (intro wired_update [OF I(3)]) (auto split: if_splits)
    moreover have "\<exists>p'. get_process x (resources c) = Some p' \<and> peer_ok q p'" if "peers s x = Some q" for x q
      using I(4) [OF that] started(4) that none by auto
    ultimately show ?thesis by (simp add: d)
  qed
  with assms(2,3) show ?thesis by (simp add: cluster_inv_def)
qed

lemma route_inv:
  assumes "redis_ok api strs members" and "cluster_inv strs members s" and "hash_order (ce_place env)"
    and "fresh_uuids api env (ctl s)" and "run_route api load multipart env req (ctl s) = Inr (answer, c)"
  shows "cluster_inv strs members (s\<lparr>ctl := c, peers := deliver (ctl s) c (peers s)\<rparr>)"
proof -
  note I = cluster_invD [OF assms(2)]
  obtain code msg where r: "run_route api load multipart env req (ctl s) = Inr ((code, msg), c)"
    using assms(5) by (cases answer) simp
  from run_route_effect [OF assms(1) I(1,2) assms(3,4) r] run_route_inv [OF I(1) assms(3) r] show ?thesis
    by (intro change_inv [OF assms(2)]) blast+
qed

text \<open>The requests of a process that connects are for sessions in its vector.\<close>

lemma connected_peer_ok:
  assumes "proc_ok (sessions_map r) k p" and "res_inv r" and "distinct (proc_sessions p)"
    and "max_sessions P = cp_max_sessions p" and "sessions P = []"
    and "bs = concat (map (session_msg r) (filter (unallocated r) (proc_sessions p)))"
  shows "peer_ok \<lparr>peer_proc = P, peer_sock = h, inbox = bs, outbox = []\<rparr> (p\<lparr>connection := c\<rparr>)"
proof -
  let ?f = "\<lambda>sid. case sessions_map r sid of None \<Rightarrow> (sid, 0, 0) | Some s \<Rightarrow> (session_id s, max_functions s, ses_memory_size s)"
  let ?rs = "map ?f (filter (unallocated r) (proc_sessions p))"
  have f: "session_msg r sid = session_request_encode (?f sid) \<and> fst (?f sid) = sid" if "sid \<in> set (proc_sessions p)" for sid
  proof -
    have "sid \<in> dom (sessions_map r)" using that assms(1) by (auto simp: proc_ok_def)
    with assms(2) show ?thesis by (auto simp: session_msg_def res_inv_def simp del: session_request_encode.simps)
  qed
  then have bs: "bs = concat (map session_request_encode ?rs)"
    unfolding assms(6) map_map by (intro arg_cong [where f = concat] map_cong) auto
  have "map fst ?rs = filter (unallocated r) (proc_sessions p)" using f by (auto simp: comp_def intro!: map_idI)
  then have h: "holds P ?rs [] = filter (unallocated r) (proc_sessions p)"
    using assms(5) by (simp only: holds_def list.map concat.simps append_Nil append_Nil2)
  have "distinct (holds P ?rs [])" "set (holds P ?rs []) \<subseteq> set (proc_sessions p)"
    unfolding h using assms(3) by auto
  with bs assms(4) show ?thesis unfolding peer_ok_def by (intro conjI exI [of _ ?rs] exI [of _ "[]"]) simp_all
qed

lemma sent_to_map: "sent_to h (map (\<lambda>x. Write h' (f x)) xs) = (if h' = h then concat (map f xs) else [])"
  by (induction xs) simp_all

lemma connect_inv:
  assumes "cluster_inv strs members s" and "get_process k (resources (ctl s)) = Some p" and "peers s k = None"
    and "fresh_sock h s" and "Process_create bucket True k hp (cp_max_sessions p) sw = Some P"
    and "Header_parse (fill_process_identification k SendMessage_init) = Some (ProcessMessage buf)"
    and "process_process ok h buf (ctl s) = Inr c"
  shows "cluster_inv strs members (s\<lparr>ctl := c, peers := (deliver (ctl s) c (peers s))
       (k \<mapsto> \<lparr>peer_proc = P, peer_sock = h, inbox = written (ctl s) c h, outbox = []\<rparr>)\<rparr>)" (is "cluster_inv _ _ ?s")
proof -
  note I = cluster_invD [OF assms(1)] and W = wiredD [OF I(3)]
  have "id16 k" and "connection p = None" using W(1) [OF assms(2)] assms(3) by simp_all
  note d = I(5) [OF assms(2)] and ok = I(6) [OF assms(2)]
  have id: "ProcessMessage_process_id buf = k"
    using note_decode_encode [of "Identify_Process k"] assms(6) \<open>id16 k\<close> by (simp add: note_decode_def)
  have dom: "set (proc_sessions p) \<subseteq> dom (sessions_map (resources (ctl s)))" using ok by (simp add: proc_ok_def)
  note e = process_process_effect [OF assms(7), unfolded id, OF assms(2) conjunct1 [OF d] dom \<open>connection p = None\<close>]
  have inv: "res_inv (resources c)" by (rule process_process_inv [OF I(1) assms(7)])
  have "vec c = vec (ctl s)" using assms(2) by (auto simp: vec_def e(1))
  then have tab: "tables_ok strs members (redis_st c) (vec c)" using I(2) by (simp add: e(2))
  have w: "written (ctl s) c x = (if h = x then concat (map (session_msg (resources (ctl s)))
      (filter (unallocated (resources (ctl s))) (proc_sessions p))) else [])" for x
    using written_append [OF e(4)] by (simp add: sent_to_map)
  have del: "deliver (ctl s) c (peers s) = peers s"
    by (rule deliver_nothing) (use assms(4) w in \<open>auto simp: fresh_sock_def\<close>)
  have P: "max_sessions P = cp_max_sessions p" "sessions P = []"
    using assms(5) by (auto simp: Process_create_def Process_connect_def Process_init_def Let_def split: if_splits prod.splits)
  have new: "peer_ok \<lparr>peer_proc = P, peer_sock = h, inbox = written (ctl s) c h, outbox = []\<rparr> (p\<lparr>connection := Some h\<rparr>)"
    using connected_peer_ok [OF ok I(1) conjunct1 [OF d] P, of "written (ctl s) c h" h "Some h"] w [of h] by simp
  have "\<exists>p'. get_process x (resources c) = Some p' \<and> peer_ok q p'" if "peers ?s x = Some q" for x q
  proof (cases "x = k")
    case False
    with that del I(4) [of x q] e(1) [of x] show ?thesis by simp
  qed (use that new e(1) in auto)
  moreover have "wired ?s"
  proof -
    let ?q = "\<lparr>peer_proc = P, peer_sock = h, inbox = written (ctl s) c h, outbox = []\<rparr>"
    have s: "peers ?s = (peers s)(k \<mapsto> ?q)" "backend (ctl ?s) = backend (ctl s)" by (simp_all add: del e(3))
    have sock: "peers s x = Some q \<Longrightarrow> peer_sock q \<noteq> h" "backend (ctl s) = Some b \<Longrightarrow> backend_connection b \<noteq> Some h" for x q b
      using assms(4) by (auto simp: fresh_sock_def)
    show ?thesis
      unfolding wired_def s
    proof (intro conjI allI impI)
      fix x p' assume "get_process x (resources (ctl ?s)) = Some p'"
      then show "id16 x" "connection p' = map_option peer_sock (((peers s)(k \<mapsto> ?q)) x)"
        using W(1) \<open>id16 k\<close> by (auto simp: e(1) split: if_splits)
    next
      fix x x' q q' assume "((peers s)(k \<mapsto> ?q)) x = Some q" "((peers s)(k \<mapsto> ?q)) x' = Some q'" "peer_sock q = peer_sock q'"
      then show "x = x'" using W(2) [of x q x' q'] sock(1) [of x q] sock(1) [of x' q'] by (auto split: if_splits)
    next
      fix x q b assume "((peers s)(k \<mapsto> ?q)) x = Some q" "backend (ctl s) = Some b"
      then show "backend_connection b \<noteq> Some (peer_sock q)" using W(3) sock(2) by (auto split: if_splits)
    qed
  qed
  ultimately show ?thesis using inv tab by (simp add: cluster_inv_def)
qed

lemma session_inv:
  assumes "cluster_inv strs members s" and "fresh_sock h s" and "process_session h buf (ctl s) = c"
  shows "cluster_inv strs members (s\<lparr>ctl := c, peers := deliver (ctl s) c (peers s)\<rparr>)"
proof -
  note e = process_session_effect [OF assms(3)] and I = cluster_invD [OF assms(1)]
  have "deliver (ctl s) c (peers s) = peers s"
    by (rule deliver_nothing) (use assms(2) e(4) in \<open>auto simp: fresh_sock_def\<close>)
  moreover have "res_inv (resources c)" using process_session_inv [OF I(1)] assms(3) by blast
  moreover have "vec c = vec (ctl s)" by (simp add: vec_def fun_eq_iff e(1))
  ultimately show ?thesis using assms(1) by (simp add: cluster_inv_def wired_def e(1-3))
qed

text \<open>A step of one peer that leaves the control plane and the socket as they are.\<close>

lemma peer_step_inv:
  assumes "cluster_inv strs members s" and "peers s k = Some q" and "peer_sock q' = peer_sock q"
    and "\<And>p. get_process k (resources (ctl s)) = Some p \<Longrightarrow> peer_ok q p \<Longrightarrow> peer_ok q' p"
  shows "cluster_inv strs members (s\<lparr>peers := (peers s)(k \<mapsto> q')\<rparr>)"
proof -
  note I = cluster_invD [OF assms(1)] and W = wiredD [OF cluster_invD(3) [OF assms(1)]]
  have "wired (s\<lparr>ctl := ctl s, peers := (peers s)(k \<mapsto> q')\<rparr>)"
    using W(1) assms(2,3) by (intro wired_update [OF I(3)]) auto
  moreover have "\<exists>p. get_process x (resources (ctl s)) = Some p \<and> peer_ok y p" if "((peers s)(k \<mapsto> q')) x = Some y" for x y
  proof (cases "x = k")
    case True
    obtain p where "get_process k (resources (ctl s)) = Some p" "peer_ok q p" using I(4) [OF assms(2)] by blast
    with True that assms(4) show ?thesis by auto
  qed (use that I(4) in simp)
  ultimately show ?thesis using I(1,2) by (simp add: cluster_inv_def)
qed

lemma request_inv:
  assumes "cluster_inv strs members s" and "peers s k = Some q" and "Recv_EXPECTED_LENGTH \<le> length (inbox q)"
    and "process_turn s3 st addr \<lparr>t_ending = False, t_size = int Recv_EXPECTED_LENGTH,
       t_data = take Recv_EXPECTED_LENGTH (inbox q), t_env = env, t_pid = child\<rparr> (peer_proc q) os = Continue (P, os', out)"
  shows "cluster_inv strs members (s\<lparr>peers := (peers s)(k \<mapsto> q\<lparr>peer_proc := P,
       inbox := drop Recv_EXPECTED_LENGTH (inbox q), outbox := outbox q @ concat out\<rparr>)\<rparr>)"
proof (rule peer_step_inv [OF assms(1,2)])
  note I = cluster_invD [OF assms(1)]
  fix p assume p: "get_process k (resources (ctl s)) = Some p" and q: "peer_ok q p"
  obtain r rs ns where n: "take Recv_EXPECTED_LENGTH (inbox q) = session_request_encode r"
    "drop Recv_EXPECTED_LENGTH (inbox q) = concat (map session_request_encode rs)"
    "outbox q = concat (map note_encode ns)" "list_all peer_note ns" "distinct (holds (peer_proc q) (r # rs) ns)"
    "set (holds (peer_proc q) (r # rs) ns) \<subseteq> set (proc_sessions p)" "id16 (fst r)"
    "length (sessions (peer_proc q)) < max_sessions_size (peer_proc q)"
    "fst r \<notin> fork_session_id ` set (sessions (peer_proc q))"
    using peer_next_request [OF I(6) [OF p] q conjunct2 [OF I(5) [OF p]] assms(3)] by metis
  obtain e where e: "map fork_session_id (sessions P) = map fork_session_id (sessions (peer_proc q)) @ [fst r]"
    "max_sessions P = max_sessions (peer_proc q)" "out = [note_encode (Session_Status (ucast (error_code e)) (fst r))]"
    using request_accepted [OF assms(4) [unfolded n(1)] n(7-9)] by metis
  let ?ns = "ns @ [Session_Status (ucast (error_code e)) (fst r)]"
  have "holds P rs ?ns = holds (peer_proc q) (r # rs) ns" by (simp add: holds_def e(1))
  with n e(2,3) q status_note [OF n(7), of e] show "peer_ok (q\<lparr>peer_proc := P,
      inbox := drop Recv_EXPECTED_LENGTH (inbox q), outbox := outbox q @ concat out\<rparr>) p"
    unfolding peer_ok_def
    by (intro conjI exI [of _ rs] exI [of _ ?ns])
      (simp_all del: note_encode.simps peer_note.simps session_request_encode.simps)
qed simp

lemma exit_inv:
  assumes "cluster_inv strs members s" and "peers s k = Some q"
    and "session_deleted s3 child (peer_proc q) st os = (Some msg, P, st', os')"
  shows "cluster_inv strs members (s\<lparr>peers := (peers s)(k \<mapsto> q\<lparr>peer_proc := P, outbox := outbox q @ msg\<rparr>)\<rparr>)"
proof (rule peer_step_inv [OF assms(1,2)])
  note I = cluster_invD [OF assms(1)]
  fix p assume p: "get_process k (resources (ctl s)) = Some p" and q: "peer_ok q p"
  obtain rs ns where n: "inbox q = concat (map session_request_encode rs)" "outbox q = concat (map note_encode ns)"
      "list_all peer_note ns" "distinct (holds (peer_proc q) rs ns)" "set (holds (peer_proc q) rs ns) \<subseteq> set (proc_sessions p)"
      "max_sessions (peer_proc q) = cp_max_sessions p"
    using q by (auto simp: peer_ok_def)
  obtain i m where d: "i < length (sessions (peer_proc q))"
      "sessions P = take i (sessions (peer_proc q)) @ drop (Suc i) (sessions (peer_proc q))"
      "max_sessions P = max_sessions (peer_proc q)"
      "msg = note_encode (Session_Closed m (fork_session_id (sessions (peer_proc q) ! i)))"
    using session_deleted_effect [OF assms(3)] by metis
  let ?sid = "fork_session_id (sessions (peer_proc q) ! i)"
  let ?ns = "ns @ [Session_Closed m ?sid]"
  have "mset (sessions (peer_proc q)) = mset (sessions P) + {#sessions (peer_proc q) ! i#}"
    using arg_cong [OF id_take_nth_drop [OF d(1)], of mset] by (simp add: d(2))
  then have ms: "mset (holds P rs ?ns) = mset (holds (peer_proc q) rs ns)" by (simp add: holds_def)
  then have "distinct (holds P rs ?ns)" "set (holds P rs ?ns) = set (holds (peer_proc q) rs ns)"
    using n(4) mset_eq_imp_distinct_iff mset_eq_setD by blast+
  moreover have "?sid \<in> set (holds (peer_proc q) rs ns)" using d(1) by (simp add: holds_def)
  then have "id16 ?sid" using n(5) I(5) [OF p] by blast
  ultimately show "peer_ok (q\<lparr>peer_proc := P, outbox := outbox q @ msg\<rparr>) p"
    unfolding peer_ok_def using n d(3,4)
    by (intro conjI exI [of _ rs] exI [of _ ?ns]) (simp_all del: note_encode.simps)
qed simp

lemma notice_inv:
  assumes "redis_ok api strs members" and "cluster_inv strs members s" and "peers s k = Some q"
    and "Header_BUF_SIZE \<le> length (outbox q)"
    and "handle_message api ok k (take Header_BUF_SIZE (outbox q)) (int Header_BUF_SIZE) (ctl s) = Inr c"
  shows "cluster_inv strs members (s\<lparr>ctl := c, peers := (deliver (ctl s) c (peers s))
       (k \<mapsto> q\<lparr>outbox := drop Header_BUF_SIZE (outbox q)\<rparr>)\<rparr>)" (is "cluster_inv _ _ ?s")
proof -
  note I = cluster_invD [OF assms(2)] and W = wiredD [OF cluster_invD(3) [OF assms(2)]]
  obtain p where p: "get_process k (resources (ctl s)) = Some p" and q: "peer_ok q p" using I(4) [OF assms(3)] by blast
  obtain rs ns where n: "inbox q = concat (map session_request_encode rs)" "outbox q = concat (map note_encode ns)"
      "list_all peer_note ns" "distinct (holds (peer_proc q) rs ns)" "set (holds (peer_proc q) rs ns) \<subseteq> set (proc_sessions p)"
      "max_sessions (peer_proc q) = cp_max_sessions p"
    using q by (auto simp: peer_ok_def)
  have "ns \<noteq> []" using assms(4) n(2) by (auto simp: Header_BUF_SIZE_def)
  then obtain x ms where ns: "ns = x # ms" by (cases ns) auto
  have cut: "take Header_BUF_SIZE (outbox q) = note_encode x" "drop Header_BUF_SIZE (outbox q) = concat (map note_encode ms)"
    using note_length [of x] by (simp_all add: n(2) ns Header_BUF_SIZE_def)
  have x: "peer_note x" "set (closes x) \<subseteq> set (proc_sessions p)" using n(3,5) by (auto simp: ns holds_def)
  have hm: "handle_message api ok k (note_encode x) 24 (ctl s) = Inr c" using assms(5) cut(1) by (simp add: Header_BUF_SIZE_def)
  obtain ys where e: "set ys = set (proc_sessions p) - set (closes x)"
    "\<And>y. get_process y (resources c) = (if y = k
      then Some (p\<lparr>allocated_sessions := allocated_sessions p - of_nat (length (closes x)), proc_sessions := ys\<rparr>)
      else get_process y (resources (ctl s)))"
    "io c = io (ctl s)" "backend c = backend (ctl s)" "tables_ok strs members (redis_st c) (vec c)"
    by (rule handle_note_effect [OF assms(1) I(1,2) p x hm]) (rule that)
  have inv: "res_inv (resources c)" by (rule handle_message_inv [OF I(1) assms(5)])
  have del: "deliver (ctl s) c (peers s) = peers s" by (rule deliver_nothing) (simp add: written_none e(3))
  have "distinct (holds (peer_proc q) rs ms)" "set (holds (peer_proc q) rs ms) \<subseteq> set ys"
    using n(4,5) e(1) by (auto simp: holds_def ns)
  then have new: "peer_ok (q\<lparr>outbox := drop Header_BUF_SIZE (outbox q)\<rparr>) (p\<lparr>allocated_sessions := a, proc_sessions := ys\<rparr>)" for a
    unfolding peer_ok_def using n cut(2)
    by (intro conjI exI [of _ rs] exI [of _ ms]) (simp_all add: ns)
  have "wired ?s"
    unfolding del using W(1) p assms(3)
    by (intro wired_update [OF I(3)]) (auto simp: e(2,4) split: if_splits)
  moreover have "\<exists>p'. get_process y (resources c) = Some p' \<and> peer_ok z p'" if "peers ?s y = Some z" for y z
    using that new I(4) [of y z] by (auto simp: del e(2) split: if_splits)
  ultimately show ?thesis using inv e(5) by (simp add: cluster_inv_def)
qed

lemma cluster_step_inv:
  assumes "redis_ok api strs members" and "cluster_step api s3 load multipart s t" and "cluster_inv strs members s"
  shows "cluster_inv strs members t"
  using assms(2,3)
  by (induction rule: cluster_step.induct)
    (blast intro: route_inv [OF assms(1)] connect_inv session_inv request_inv exit_inv notice_inv [OF assms(1)])+

lemma cluster_machine:
  "redis_ok api strs members \<Longrightarrow> invariant_machine (cluster_step api s3 load multipart) (cluster_inv strs members)"
  by unfold_locales (rule cluster_step_inv)

section \<open>Properties\<close>

lemma cluster_init_inv:
  assumes "tables_ok strs members rs Map.empty"
  shows "cluster_inv strs members (cluster_init rs b)"
proof -
  have "vec (control (server_init rs b)) = Map.empty"
    by (simp add: vec_def fun_eq_iff server_init_def Resources_init_def get_process_def)
  with assms show ?thesis
    by (simp add: cluster_inv_def cluster_init_def wired_def server_init_def Resources_init_def get_process_def res_inv_def)
qed

lemma cluster_reaches_inv:
  assumes "redis_ok api strs members" and "tables_ok strs members rs Map.empty"
    and "reaches (cluster_step api s3 load multipart) (cluster_init rs b) s"
  shows "cluster_inv strs members s"
  using invariant_machine.reaches_inv [OF cluster_machine [OF assms(1)] assms(3)] cluster_init_inv [OF assms(2)] by blast

text \<open>
  C2: a process never refuses what the control plane asks of it. In every state that the control plane
  and its processes reach together, with any messages under way in both directions, the next 39 bytes
  a process has to read are a session request, and it answers neither that it has no capacity
  nor that it has such a session already; what can fail is only the creation of the memory.
\<close>

theorem requests_never_refused:
  assumes "redis_ok api strs members" and "tables_ok strs members rs Map.empty"
    and "reaches (cluster_step api s3 load multipart) (cluster_init rs b) s"
    and "peers s k = Some q" and "Recv_EXPECTED_LENGTH \<le> length (inbox q)"
  shows "\<exists>buf. RecvMessageBuffer_parse (take Recv_EXPECTED_LENGTH (inbox q)) (int Recv_EXPECTED_LENGTH) =
      Some (SessionRequestMsg buf) \<and>
    fst (allocate_session s3' st env child addr buf (peer_proc q) os) \<in> {SUCCESS, UNKNOWN_FAILURE}"
proof -
  note I = cluster_invD [OF cluster_reaches_inv [OF assms(1-3)]]
  obtain p where p: "get_process k (resources (ctl s)) = Some p" and q: "peer_ok q p" using I(4) [OF assms(4)] by blast
  obtain r where r: "take Recv_EXPECTED_LENGTH (inbox q) = session_request_encode r" "id16 (fst r)"
    "length (sessions (peer_proc q)) < max_sessions_size (peer_proc q)"
    "fst r \<notin> fork_session_id ` set (sessions (peer_proc q))"
    using peer_next_request [OF I(6) [OF p] q conjunct2 [OF I(5) [OF p]] assms(5)] by metis
  obtain buf where b: "RecvMessageBuffer_parse (session_request_encode r) (int Recv_EXPECTED_LENGTH) =
      Some (SessionRequestMsg buf)" and sid: "SessionRequestMsg_session_id buf = fst r"
    using r(2) by (rule parse_session_request) auto
  obtain e P argv os' where a: "allocate_session s3' st env child addr buf (peer_proc q) os = (e, P, argv, os')"
    using prod_cases4 by blast
  from a have "e \<in> {SUCCESS, UNKNOWN_FAILURE}"
    by (cases rule: allocate_session_cases) (use r(3,4) sid in \<open>auto split: if_splits\<close>)
  with a b r(1) show ?thesis by auto
qed

text \<open>
  C3: a session runs in at most one process, and where the control plane believes it to be. In every
  state that the control plane and its processes reach together, the sessions of a process are distinct
  and all in the control plane's vector of that process, so that their number is at most its counter,
  and no other process has any of them.
\<close>

theorem session_in_one_process:
  assumes "redis_ok api strs members" and "tables_ok strs members rs Map.empty"
    and "reaches (cluster_step api s3 load multipart) (cluster_init rs b) s" and "peers s k = Some q"
  shows "\<exists>p. get_process k (resources (ctl s)) = Some p \<and> distinct (map fork_session_id (sessions (peer_proc q))) \<and>
    fork_session_id ` set (sessions (peer_proc q)) \<subseteq> set (proc_sessions p) \<and>
    int (length (sessions (peer_proc q))) \<le> sint (allocated_sessions p) \<and>
    (\<forall>k' q'. peers s k' = Some q' \<longrightarrow> k' \<noteq> k \<longrightarrow>
       fork_session_id ` set (sessions (peer_proc q)) \<inter> fork_session_id ` set (sessions (peer_proc q')) = {})"
proof -
  note I = cluster_invD [OF cluster_reaches_inv [OF assms(1-3)]]
  have sub: "distinct (map fork_session_id (sessions (peer_proc y))) \<and>
      fork_session_id ` set (sessions (peer_proc y)) \<subseteq> set (proc_sessions p)" if "peer_ok y p" for y p
    using that by (auto simp: peer_ok_def holds_def)
  obtain p where p: "get_process k (resources (ctl s)) = Some p" and q: "peer_ok q p" using I(4) [OF assms(4)] by blast
  have "length (sessions (peer_proc q)) = card (fork_session_id ` set (sessions (peer_proc q)))"
    using conjunct1 [OF sub [OF q]] by (metis distinct_card length_map set_map)
  also have "\<dots> \<le> card (set (proc_sessions p))" using sub [OF q] by (intro card_mono) simp_all
  also have "\<dots> \<le> length (proc_sessions p)" by (rule card_length)
  finally have "int (length (sessions (peer_proc q))) \<le> sint (allocated_sessions p)"
    using I(6) [OF p] by (simp add: proc_ok_def)
  moreover have "fork_session_id ` set (sessions (peer_proc q)) \<inter> fork_session_id ` set (sessions (peer_proc q')) = {}"
    if k': "peers s k' = Some q'" "k' \<noteq> k" for k' q'
  proof -
    obtain p' where p': "get_process k' (resources (ctl s)) = Some p'" and q': "peer_ok q' p'" using I(4) [OF k'(1)] by blast
    have "set (proc_sessions p) \<inter> set (proc_sessions p') = {}"
      using tables_okD(3) [OF I(2), of k "proc_sessions p" _ k' "proc_sessions p'"] p p' k'(2) by (auto simp: vec_def)
    with sub [OF q] sub [OF q'] show ?thesis by blast
  qed
  ultimately show ?thesis using p sub [OF q] by blast
qed

text \<open>
  C4: the database stays well formed. In every state the control plane and its processes reach
  together, a session that is swapped for some client has an identifier of 16 characters and its limits
  are stored as two decimal numbers that are read back, it is swapped for that client only and in no
  process; so no request to the HTTP server, on any of its routes, is answered that the details of a
  session could not be located.
\<close>

theorem database_well_formed:
  assumes "redis_ok api strs members" and "tables_ok strs members rs Map.empty"
    and "reaches (cluster_step api s3 load multipart) (cluster_init rs b) s"
  shows "(\<forall>pid sid. sid \<in> members (redis_st (ctl s)) (swapped_key pid) \<longrightarrow> id16 sid \<and>
      (\<exists>v mem func. strs (redis_st (ctl s)) (session_key sid) = Some v \<and> split v (CHR '';'') = (mem, func) \<and>
         v = to_string32 (from_chars32 mem x) @ '';'' @ to_string32 (from_chars32 func y)) \<and>
      (\<forall>k p. get_process k (resources (ctl s)) = Some p \<longrightarrow> sid \<notin> set (proc_sessions p)) \<and>
      (\<forall>pid'. sid \<in> members (redis_st (ctl s)) (swapped_key pid') \<longrightarrow> pid' = pid)) \<and>
    (\<forall>env req code msg c. hash_order (ce_place env) \<longrightarrow> fresh_uuids api env (ctl s) \<longrightarrow>
      run_route api load multipart env req (ctl s) = Inr ((code, msg), c) \<longrightarrow>
      msg \<noteq> ''Couldn't locate session details!'')"
proof (intro conjI allI impI)
  note I = cluster_invD [OF cluster_reaches_inv [OF assms]] and D = tables_okD [OF I(2)]
  fix pid sid assume sid: "sid \<in> members (redis_st (ctl s)) (swapped_key pid)"
  show "id16 sid" using D(4) [OF sid] by blast
  obtain ms mf where "strs (redis_st (ctl s)) (session_key sid) = Some (to_string32 ms @ '';'' @ to_string32 mf)"
    using D(4) [OF sid] unfolding known_def by blast
  then show "\<exists>v mem func. strs (redis_st (ctl s)) (session_key sid) = Some v \<and> split v (CHR '';'') = (mem, func) \<and>
         v = to_string32 (from_chars32 mem x) @ '';'' @ to_string32 (from_chars32 func y)"
    by (simp add: config_split [simplified] from_chars_to_string32)
  show "sid \<notin> set (proc_sessions p)" if "get_process k (resources (ctl s)) = Some p" for k p
    using D(5) [OF sid, of k "proc_sessions p"] that by (simp add: vec_def)
  show "pid' = pid" if "sid \<in> members (redis_st (ctl s)) (swapped_key pid')" for pid'
    by (rule D(6) [OF sid that])
next
  note I = cluster_invD [OF cluster_reaches_inv [OF assms]]
  fix env req code msg c
  assume "hash_order (ce_place env)" "fresh_uuids api env (ctl s)"
    "run_route api load multipart env req (ctl s) = Inr ((code, msg), c)"
  from run_route_effect [OF assms(1) I(1,2) this] show "msg \<noteq> ''Couldn't locate session details!''" by auto
qed

section \<open>A run of the cluster\<close>

lemma demo_route:
  "\<exists>c p s b. run_route map_redis (\<lambda>_. demo_json) (\<lambda>_. []) demo_env (Add_Session ''x'')
      (control (server_init demo_db (Some demo_backend))) = Inr ((200, ''0123456789abcdef''), c) \<and>
    get_process ''fedcba9876543210'' (resources c) = Some p \<and> proc_sessions p = [''0123456789abcdef''] \<and>
    connection p = None \<and> cp_max_sessions p = 4 \<and> backend c = Some b \<and> backend_connection b = Some 1 \<and>
    sessions_map (resources c) ''0123456789abcdef'' = Some s \<and> \<not> allocated s \<and> session_id s = ''0123456789abcdef'' \<and>
    max_functions s = 1 \<and> ses_memory_size s = 64"
  by (simp add: http_add_session_def session_params_def demo_json_def demo_env_def server_init_def Resources_init_def
      process_client_def client_session_def demo_db_def map_redis_def get_free_process_def allocate_new_process_def
      setup_session_def add_session_def add_process_def get_process_def update_process_def update_session_def
      LocalBackend_allocate_process_def demo_backend_def CProcess_init_def CProcess_assign_def Session_init_def
      max_sessions_per_process_def case_prod_beta Let_def)

lemma demo_tables: "tables_ok fst snd demo_db Map.empty"
  by (simp add: tables_ok_def demo_db_def)

lemma demo_fresh: "fresh_uuids map_redis demo_env (ctl (cluster_init demo_db (Some demo_backend)))"
  by (simp add: fresh_uuids_def demo_env_def id16_def map_redis_def cluster_init_def server_init_def demo_db_def
      Resources_init_def get_process_def process_key_def session_key_def)

lemma demo_cluster:
  "\<exists>s q. reaches (cluster_step map_redis map_s3 (\<lambda>_. demo_json) (\<lambda>_. [])) (cluster_init demo_db (Some demo_backend)) s \<and>
     peers s ''fedcba9876543210'' = Some q \<and> inbox q = session_request_encode (''0123456789abcdef'', 1, 64)"
proof -
  let ?k = "''fedcba9876543210''" and ?sid = "''0123456789abcdef''"
  let ?step = "cluster_step map_redis map_s3 (\<lambda>_. demo_json) (\<lambda>_. [])" and ?s0 = "cluster_init demo_db (Some demo_backend)"
  obtain c p x b where r: "run_route map_redis (\<lambda>_. demo_json) (\<lambda>_. []) demo_env (Add_Session ''x'') (ctl ?s0) = Inr ((200, ?sid), c)"
    and p: "get_process ?k (resources c) = Some p" "proc_sessions p = [?sid]" "connection p = None" "cp_max_sessions p = 4"
    and b: "backend c = Some b" "backend_connection b = Some 1"
    and x: "sessions_map (resources c) ?sid = Some x" "\<not> allocated x" "session_id x = ?sid" "max_functions x = 1" "ses_memory_size x = 64"
    using demo_route unfolding cluster_init_def by auto
  let ?s1 = "?s0\<lparr>ctl := c, peers := deliver (ctl ?s0) c (peers ?s0)\<rparr>"
  have 1: "?step ?s0 ?s1" by (intro cluster_step.route [OF _ _ r] demo_fresh) (simp_all add: demo_env_def)
  have none: "peers ?s1 = Map.empty" by (simp add: deliver_def cluster_init_def fun_eq_iff)
  obtain buf where buf: "Header_parse (fill_process_identification ?k SendMessage_init) = Some (ProcessMessage buf)"
    and id: "ProcessMessage_process_id buf = ?k"
    using note_decode_encode [of "Identify_Process ?k"]
    by (auto simp: note_decode_def id16_def split: option.splits message.splits if_splits)
  have dom: "set (proc_sessions p) \<subseteq> dom (sessions_map (resources c))" "distinct (proc_sessions p)"
    using x(1) by (simp_all add: p(2) domI)
  obtain c2 where c2: "process_process True 7 buf c = Inr c2"
    "io c2 = io c @ map (\<lambda>sid. Write 7 (session_msg (resources c) sid)) (filter (unallocated (resources c)) (proc_sessions p))"
    using connecting_process_gets_requests_lemma [of buf c p, unfolded id, OF p(1) dom(2,1), of 7] p(3) by auto
  have "written c c2 7 = session_msg (resources c) ?sid"
    using written_append [OF c2(2)] x(1,2) by (simp add: p(2) unallocated_def)
  then have w: "written c c2 7 = session_request_encode (?sid, 1, 64)"
    using x by (simp add: session_msg_def del: session_request_encode.simps)
  have "fresh_sock 7 ?s1" using b none by (simp add: fresh_sock_def)
  moreover obtain P where "Process_create None True ?k ''hp'' (cp_max_sessions p) False = Some P"
    by (simp add: Process_create_def Process_connect_def Let_def)
  ultimately have 2: "?step ?s1 (?s1\<lparr>ctl := c2, peers := (deliver (ctl ?s1) c2 (peers ?s1))
       (?k \<mapsto> \<lparr>peer_proc = P, peer_sock = 7, inbox = written (ctl ?s1) c2 7, outbox = []\<rparr>)\<rparr>)"
    using p(1) none buf c2(1) by (intro cluster_step.connect [of ?k _ p]) simp_all
  note reach = reaches_step [where step = ?step, OF reaches_step [where step = ?step, OF reaches_refl 1] 2]
  show ?thesis by (intro exI conjI, rule reach, simp, simp add: w del: session_request_encode.simps)
qed

theorem requests_never_refused_witness:
  "\<exists>s q buf. reaches (cluster_step map_redis map_s3 (\<lambda>_. demo_json) (\<lambda>_. [])) (cluster_init demo_db (Some demo_backend)) s \<and>
     peers s ''fedcba9876543210'' = Some q \<and>
     RecvMessageBuffer_parse (take Recv_EXPECTED_LENGTH (inbox q)) (int Recv_EXPECTED_LENGTH) = Some (SessionRequestMsg buf) \<and>
     fst (allocate_session map_s3 Map.empty good_env 7 ''c'' buf (peer_proc q) empty_os) \<in> {SUCCESS, UNKNOWN_FAILURE}"
proof -
  obtain s q where s: "reaches (cluster_step map_redis map_s3 (\<lambda>_. demo_json) (\<lambda>_. [])) (cluster_init demo_db (Some demo_backend)) s"
    and q: "peers s ''fedcba9876543210'' = Some q" "inbox q = session_request_encode (''0123456789abcdef'', 1, 64)"
    using demo_cluster by blast
  have "Recv_EXPECTED_LENGTH \<le> length (inbox q)"
    unfolding q(2) session_request_length by (simp add: Recv_EXPECTED_LENGTH_def)
  from requests_never_refused [OF map_redis_ok demo_tables s q(1) this, of map_s3 Map.empty good_env 7 "''c''" empty_os] s q(1)
  show ?thesis by blast
qed

theorem session_in_one_process_witness:
  "\<exists>s q p. reaches (cluster_step map_redis map_s3 (\<lambda>_. demo_json) (\<lambda>_. [])) (cluster_init demo_db (Some demo_backend)) s \<and>
     peers s ''fedcba9876543210'' = Some q \<and> get_process ''fedcba9876543210'' (resources (ctl s)) = Some p \<and>
     int (length (sessions (peer_proc q))) \<le> sint (allocated_sessions p)"
proof -
  obtain s q where s: "reaches (cluster_step map_redis map_s3 (\<lambda>_. demo_json) (\<lambda>_. [])) (cluster_init demo_db (Some demo_backend)) s"
    and q: "peers s ''fedcba9876543210'' = Some q" using demo_cluster by blast
  obtain p where "get_process ''fedcba9876543210'' (resources (ctl s)) = Some p"
    and "int (length (sessions (peer_proc q))) \<le> sint (allocated_sessions p)"
    using session_in_one_process [OF map_redis_ok demo_tables s q] by (elim exE conjE)
  with s q show ?thesis by (intro exI conjI)
qed

text \<open>
  A database left by an earlier run, in which a client has one swapped session, and the JSON of a request for
  it, as the parameters of a new session or of an invocation.
\<close>

definition swapped_db :: map_db where
  "swapped_db = ([process_key ''tenant-b'' \<mapsto> ''name'', session_key ''00001111aaaabbbb'' \<mapsto> to_string32 64 @ '';'' @ to_string32 2],
     \<lambda>k. if k = swapped_key ''tenant-b'' then {''00001111aaaabbbb''} else {})"

definition swapped_json :: json where
  "swapped_json = \<lparr>js = [''session-id'' \<mapsto> ''00001111aaaabbbb'', ''process-id'' \<mapsto> ''tenant-b'',
     ''function-name'' \<mapsto> ''noop'', ''function-id'' \<mapsto> ''f1''], ji = Map.empty\<rparr>"

lemma swapped_tables: "tables_ok fst snd swapped_db Map.empty"
  by (auto simp: tables_ok_def swapped_db_def known_def swapped_key_def process_key_def session_key_def id16_def split: if_splits)

lemma swapped_fresh: "fresh_uuids map_redis demo_env (ctl (cluster_init swapped_db (Some demo_backend)))"
  by (simp add: fresh_uuids_def demo_env_def id16_def map_redis_def cluster_init_def server_init_def swapped_db_def
      Resources_init_def get_process_def process_key_def session_key_def)

lemma swapped_routes:
  assumes "req \<in> {Add_Session ''x'', Invoke ''x''}"
  shows "\<exists>c. run_route map_redis (\<lambda>_. swapped_json) (\<lambda>_. [''json'', ''data'']) demo_env req
      (ctl (cluster_init swapped_db (Some demo_backend))) = Inr ((200, ''00001111aaaabbbb''), c)"
  using assms
  by (auto simp: http_add_session_def http_invoke_def session_params_def swapped_json_def demo_env_def cluster_init_def
      server_init_def Resources_init_def process_client_def client_session_def swapped_db_def map_redis_def
      alive_key_def swapped_key_def process_key_def session_key_def get_free_process_def allocate_new_process_def
      setup_session_def add_session_def add_process_def get_process_def update_process_def update_session_def
      LocalBackend_allocate_process_def demo_backend_def CProcess_init_def CProcess_assign_def Session_init_def
      max_sessions_per_process_def case_prod_beta Let_def)

theorem database_well_formed_witness:
  "(\<exists>v mem func. fst (redis_st (ctl (cluster_init swapped_db (Some demo_backend)))) (session_key ''00001111aaaabbbb'') = Some v \<and>
      split v (CHR '';'') = (mem, func) \<and> v = to_string32 (from_chars32 mem 0) @ '';'' @ to_string32 (from_chars32 func 0)) \<and>
   (\<exists>code msg c. run_route map_redis (\<lambda>_. swapped_json) (\<lambda>_. [''json'', ''data'']) demo_env (Add_Session ''x'')
      (ctl (cluster_init swapped_db (Some demo_backend))) = Inr ((code, msg), c) \<and> msg \<noteq> ''Couldn't locate session details!'') \<and>
   (\<exists>code msg c. run_route map_redis (\<lambda>_. swapped_json) (\<lambda>_. [''json'', ''data'']) demo_env (Invoke ''x'')
      (ctl (cluster_init swapped_db (Some demo_backend))) = Inr ((code, msg), c) \<and> msg \<noteq> ''Couldn't locate session details!'')"
proof -
  let ?step = "cluster_step map_redis map_s3 (\<lambda>_. swapped_json) (\<lambda>_. [''json'', ''data''])"
    and ?s = "cluster_init swapped_db (Some demo_backend)"
  note W = database_well_formed [OF map_redis_ok swapped_tables reaches_refl [where step = ?step], of "Some demo_backend" 0 0]
  have sid: "''00001111aaaabbbb'' \<in> snd (redis_st (ctl ?s)) (swapped_key ''tenant-b'')"
    by (simp add: cluster_init_def server_init_def swapped_db_def)
  have "hash_order (ce_place demo_env)" by (simp add: demo_env_def)
  then have "\<exists>code msg c. run_route map_redis (\<lambda>_. swapped_json) (\<lambda>_. [''json'', ''data'']) demo_env req (ctl ?s) = Inr ((code, msg), c) \<and>
      msg \<noteq> ''Couldn't locate session details!''" if "req \<in> {Add_Session ''x'', Invoke ''x''}" for req
    using swapped_routes [OF that] conjunct2 [OF W] swapped_fresh by metis
  with conjunct1 [OF W] sid show ?thesis by blast
qed

end
