(* ===== verification/Cluster_Progress.thy ===== *)
theory Cluster_Progress
  imports Cluster
begin

text \<open>
  The cluster is never stuck: every request and every message under way can be handled, so that from
  each state the control plane and its processes reach there is a continuation in which nothing is
  under way any more. For this the connections of the peers have to stay registered for polling, which
  is a second invariant of the machine of \<open>Cluster\<close>.
\<close>

section \<open>Registered connections\<close>

definition unconnected :: "(string \<rightharpoonup> Session) \<Rightarrow> bool" where
  "unconnected m \<longleftrightarrow> (\<forall>sid x. m sid = Some x \<longrightarrow> ses_connection x = None)"

definition polled :: "'r cluster \<Rightarrow> bool" where
  "polled s \<longleftrightarrow> unconnected (sessions_map (resources (ctl s))) \<and>
     (\<forall>k q. peers s k = Some q \<longrightarrow> epoll (ctl s) (peer_sock q) \<noteq> None)"

text \<open>Handlers that close no socket and open no session's connection.\<close>

definition quiet :: "'r control \<Rightarrow> 'r control \<Rightarrow> bool" where
  "quiet c c' \<longleftrightarrow> epoll c' = epoll c \<and>
     (unconnected (sessions_map (resources c)) \<longrightarrow> unconnected (sessions_map (resources c')))"

lemma quiet_refl [simp]: "quiet c c"
  by (simp add: quiet_def)

lemma quiet_redis [simp]: "quiet c (c'\<lparr>redis_st := rs\<rparr>) = quiet c c'" "quiet (c\<lparr>redis_st := rs\<rparr>) c' = quiet c c'"
  by (simp_all add: quiet_def)

lemma quiet_trans: "quiet a b \<Longrightarrow> quiet b c \<Longrightarrow> quiet a c"
  by (simp add: quiet_def)

lemma unconnected_update:
  "unconnected m \<Longrightarrow> (\<And>x. ses_connection (f x) = ses_connection x) \<Longrightarrow> unconnected (m(sid := map_option f (m sid)))"
  by (auto simp: unconnected_def)

lemma setup_session_unconnected:
  "unconnected (sessions_map r) \<Longrightarrow> unconnected (sessions_map (snd (setup_session junk k sid mf ms sw alloc r)))"
  by (auto simp: setup_session_def case_prod_beta unconnected_def Session_init_def split: if_splits)

lemma send_session_request_quiet: "quiet c (snd (send_session_request sid conn req c))"
  by (auto simp: send_session_request_def quiet_def unconnected_def split: option.splits prod.splits if_splits)

lemma allocate_in_process_quiet: "quiet c (allocate_in_process junk k sid mf ms sw alloc c)"
proof -
  define r where "r = snd (setup_session junk k sid mf ms sw alloc (resources c))"
  have "setup_session junk k sid mf ms sw alloc (resources c) = (sid, r)" unfolding r_def by (simp add: prod_eq_iff)
  moreover have "quiet c (c\<lparr>resources := r\<rparr>)" unfolding r_def by (simp add: quiet_def setup_session_unconnected)
  ultimately show ?thesis
    using quiet_trans [OF _ send_session_request_quiet] by (simp add: allocate_in_process_def)
qed

lemma allocate_new_process_quiet:
  assumes "allocate_new_process place junk uuid pid sid mf ms sw alloc c = Inr c'"
  shows "quiet c c'"
proof -
  let ?p = "(CProcess_init max_sessions_per_process)\<lparr>cp_process_id := take 16 uuid, global_process_id := pid,
      allocated_sessions := 1\<rparr>"
  define r where "r = snd (setup_session junk (fst (add_process place ?p (resources c))) sid mf ms sw alloc
      (snd (add_process place ?p (resources c))))"
  have "sessions_map (snd (add_process place ?p (resources c))) = sessions_map (resources c)"
    by (simp add: add_process_def Let_def)
  then have "quiet c (c\<lparr>resources := r\<rparr>)" by (simp add: quiet_def r_def setup_session_unconnected)
  moreover have "LocalBackend_allocate_process (take 16 uuid) max_sessions_per_process (c\<lparr>resources := r\<rparr>) = Inr c'"
    using assms unfolding allocate_new_process_def Let_def case_prod_beta r_def .
  then have "quiet (c\<lparr>resources := r\<rparr>) c'"
    by (auto simp: LocalBackend_allocate_process_def quiet_def split: option.splits prod.splits)
  ultimately show ?thesis by (rule quiet_trans)
qed

lemma process_client_quiet:
  assumes "process_client api env pid sid fname fid mf ms pl c = Inr ((code, msg), c')"
  shows "quiet c c'"
  using assms
proof (cases rule: process_client_cases)
  case (existing mf' ms' sw rs k r c1)
  have "quiet c (c\<lparr>redis_st := rs, resources := r\<rparr>)"
    using existing(4) by (auto simp: quiet_def elim!: get_free_process_cases)
  then have "quiet c c1" unfolding existing(5) by (rule quiet_trans [OF _ allocate_in_process_quiet])
  then show ?thesis by (simp add: existing(6))
next
  case (fresh mf' ms' sw rs c1)
  with allocate_new_process_quiet [OF fresh(5)] show ?thesis by simp
qed simp_all

lemma run_route_quiet:
  assumes "run_route api load multipart env req c = Inr ((code, msg), c')" shows "quiet c c'"
  using assms
  by (cases req)
    (auto simp: http_add_process_def process_allocation_def http_add_session_def http_invoke_def Let_def
      dest: process_client_quiet split: if_splits option.splits prod.splits list.splits)

lemma send_requests_quiet: "quiet c (send_requests sids conn req c)"
proof (induction sids arbitrary: req c)
  case (Cons sid sids)
  show ?case
    using quiet_trans [OF send_session_request_quiet Cons.IH] Cons.IH
    by (auto split: option.splits prod.splits) (metis snd_conv)
qed simp

lemma connect_polled:
  assumes "polled s" and "process_process ok h buf (ctl s) = Inr c"
    and "get_process (ProcessMessage_process_id buf) (resources (ctl s)) = Some p" and "connection p = None"
  shows "unconnected (sessions_map (resources c))" and "epoll c = (epoll (ctl s))(h \<mapsto> True)"
proof -
  let ?k = "ProcessMessage_process_id buf"
  let ?c = "(ctl s)\<lparr>resources := update_process ?k (\<lambda>p. p\<lparr>connection := Some h\<rparr>) (resources (ctl s))\<rparr>"
  let ?c2 = "send_requests (proc_sessions p) (Some h) Request_init ?c"
  have "c = ?c2\<lparr>epoll := (epoll ?c2)(h \<mapsto> True)\<rparr>"
    using assms(2-4)
    by (auto simp: process_process_def sock_close_def add_epoll_def remove_process_def Let_def split: if_splits)
  moreover have "quiet ?c ?c2" by (rule send_requests_quiet)
  ultimately show "unconnected (sessions_map (resources c))" "epoll c = (epoll (ctl s))(h \<mapsto> True)"
    using assms(1) by (simp_all add: quiet_def polled_def)
qed

lemma sock_write_epoll [simp]: "epoll (sock_write s bs c) = epoll c"
  by (simp add: sock_write_def split: option.splits)

lemma send_invocations_epoll [simp]: "epoll (send_invocations items conn req c) = epoll c"
  by (induction items arbitrary: req c) (simp_all split: prod.splits)

lemma session_polled:
  assumes "unconnected (sessions_map (resources c))" and "process_session h buf c = c'"
  shows "unconnected (sessions_map (resources c'))" and "h' \<noteq> h \<Longrightarrow> epoll c' h' = epoll c h'"
proof -
  have "unconnected (sessions_map (resources c')) \<and> (h' \<noteq> h \<longrightarrow> epoll c' h' = epoll c h')"
  proof (cases "get_session (SessionMessage_session_id buf) (resources c)")
    case None
    with assms show ?thesis by (auto simp: process_session_def sock_close_def)
  next
    case (Some x)
    then have "ses_connection x = None" using assms(1) by (simp add: unconnected_def)
    with Some assms show ?thesis
      by (auto simp: process_session_def sock_close_def Let_def unconnected_def split: if_splits prod.splits)
  qed
  then show "unconnected (sessions_map (resources c'))" and "h' \<noteq> h \<Longrightarrow> epoll c' h' = epoll c h'" by blast+
qed

lemma notice_polled:
  assumes "unconnected (sessions_map (resources c))" and "handle_message api ok k buf n c = Inr c'"
  shows "unconnected (sessions_map (resources c')) \<and> (\<forall>h. epoll c h \<noteq> None \<longrightarrow> epoll c' h \<noteq> None)"
proof -
  have "epoll (handle_session_closure api k m sid c) = epoll c" for m sid
    by (simp add: handle_session_closure_def Let_def split: option.splits)
  then show ?thesis
    using assms
    by (auto simp: handle_message_def handle_process_closure_def Let_def mod_epoll_def remove_process_def
        split: option.splits prod.splits if_splits message.splits)
qed

lemma polled_step:
  assumes "cluster_step api s3 load multipart s t" and "cluster_inv strs members s" and "polled s"
  shows "polled t"
  using assms
proof (induction rule: cluster_step.induct)
  case (route env s req answer c)
  then have "quiet (ctl s) c" by (cases answer) (auto dest: run_route_quiet)
  with route.prems(2) show ?case by (auto simp: polled_def quiet_def elim!: deliver_Some)
next
  case (connect k s p h bucket hp sw P buf ok c)
  note I = cluster_invD [OF connect.prems(1)]
  have k: "id16 k" "connection p = None" using wiredD(1) [OF I(3) connect.hyps(1)] connect.hyps(2) by simp_all
  have "ProcessMessage_process_id buf = k"
    using note_decode_encode [of "Identify_Process k"] connect.hyps(5) k(1) by (simp add: note_decode_def)
  then have "unconnected (sessions_map (resources c))" "epoll c = (epoll (ctl s))(h \<mapsto> True)"
    using connect_polled [OF connect.prems(2) connect.hyps(6)] connect.hyps(1) k(2) by simp_all
  with connect.prems(2) show ?case by (auto simp: polled_def elim!: deliver_Some)
next
  case (session h s buf c)
  then have u: "unconnected (sessions_map (resources (ctl s)))" by (simp add: polled_def)
  note e = session_polled [OF u session.hyps(2)]
  have "epoll c (peer_sock q) \<noteq> None" if "peers s x = Some q" for x q
    using that session.hyps(1) session.prems(2) e(2) [of "peer_sock q"] by (auto simp: fresh_sock_def polled_def)
  with e(1) show ?case by (auto simp: polled_def elim!: deliver_Some)
next
  case (request s k q st addr env child os P os' out)
  then show ?case by (auto simp: polled_def)
next
  case (exit s k q child st os msg P st' os')
  then show ?case by (auto simp: polled_def)
next
  case (notice s k q ok c)
  then have u: "unconnected (sessions_map (resources (ctl s)))" by (simp add: polled_def)
  note e = notice_polled [OF u notice.hyps(3)]
  with notice.hyps(1) notice.prems(2) show ?case by (auto simp: polled_def elim!: deliver_Some)
qed

text \<open>Both invariants together, as an invariant of the machine.\<close>

definition live_inv ::
  "('r \<Rightarrow> string \<rightharpoonup> string) \<Rightarrow> ('r \<Rightarrow> string \<Rightarrow> string set) \<Rightarrow> 'r cluster \<Rightarrow> bool" where
  "live_inv strs members s \<longleftrightarrow> cluster_inv strs members s \<and> polled s"

lemma live_machine:
  assumes "redis_ok api strs members"
  shows "invariant_machine (cluster_step api s3 load multipart) (live_inv strs members)"
  by unfold_locales (use cluster_step_inv [OF assms] polled_step in \<open>auto simp: live_inv_def\<close>)

section \<open>Every message under way can be handled\<close>

lemma request_enabled:
  assumes "cluster_inv strs members s" and "peers s k = Some q" and "inbox q \<noteq> []"
  shows "\<exists>q'. cluster_step api s3 load multipart s (s\<lparr>peers := (peers s)(k \<mapsto> q')\<rparr>) \<and> length (inbox q') < length (inbox q)"
proof -
  obtain p where "peer_ok q p" using cluster_invD(4) [OF assms(1,2)] by blast
  then obtain rs where "inbox q = concat (map session_request_encode rs)" by (auto simp: peer_ok_def)
  with assms(3) have len: "Recv_EXPECTED_LENGTH \<le> length (inbox q)"
    by (cases rs) (simp_all add: session_request_length Recv_EXPECTED_LENGTH_def)
  let ?t = "\<lparr>t_ending = False, t_size = int Recv_EXPECTED_LENGTH, t_data = take Recv_EXPECTED_LENGTH (inbox q),
      t_env = good_env, t_pid = 0\<rparr>"
  have "\<exists>P os' out. process_turn s3 undefined [] ?t (peer_proc q) empty_os = Continue (P, os', out)"
    by (simp add: process_turn_def Recv_EXPECTED_LENGTH_def split: option.splits recv_message.splits prod.splits)
  then obtain P os' out where "process_turn s3 undefined [] ?t (peer_proc q) empty_os = Continue (P, os', out)" by blast
  note step = cluster_step.request [OF assms(2) len this]
  have "length (drop Recv_EXPECTED_LENGTH (inbox q)) < length (inbox q)"
    using len by (simp add: Recv_EXPECTED_LENGTH_def)
  then show ?thesis
    by (intro exI [of _ "q\<lparr>peer_proc := P, inbox := drop Recv_EXPECTED_LENGTH (inbox q), outbox := outbox q @ concat out\<rparr>"]
        conjI step) simp
qed

lemma notice_enabled:
  assumes "cluster_inv strs members s" and "polled s" and "peers s k = Some q" and "outbox q \<noteq> []"
  shows "\<exists>c. cluster_step api s3 load multipart s
      (s\<lparr>ctl := c, peers := (peers s)(k \<mapsto> q\<lparr>outbox := drop Header_BUF_SIZE (outbox q)\<rparr>)\<rparr>) \<and> Header_BUF_SIZE \<le> length (outbox q)"
proof -
  note I = cluster_invD [OF assms(1)] and W = wiredD [OF cluster_invD(3) [OF assms(1)]]
  obtain p where p: "get_process k (resources (ctl s)) = Some p" "peer_ok q p" using I(4) [OF assms(3)] by blast
  obtain ns where ns: "outbox q = concat (map note_encode ns)" "list_all peer_note ns" using p(2) by (auto simp: peer_ok_def)
  then obtain n ms where n: "ns = n # ms" using assms(4) by (cases ns) auto
  have len: "Header_BUF_SIZE \<le> length (outbox q)" and cut: "take Header_BUF_SIZE (outbox q) = note_encode n"
    using note_length [of n] by (simp_all add: ns(1) n Header_BUF_SIZE_def)
  obtain b where b: "Header_parse (note_encode n) = Some (SessionStatusMessage b)"
    using ns(2) parse_closed parse_status unfolding n by (cases n) (auto simp del: note_encode.simps, blast+)
  have conn: "connection p = Some (peer_sock q)" using W(1) [OF p(1)] assms(3) by simp
  define c1 where "c1 = (if SessionStatusMessage_session_status b = -1
       then handle_session_closure api k (SessionStatusMessage_memory_size b) (SessionStatusMessage_session_id b) (ctl s)
       else ctl s)"
  obtain p1 where p1: "get_process k (resources c1) = Some p1" "connection p1 = Some (peer_sock q)"
  proof (cases "SessionStatusMessage_session_status b = -1")
    case True
    then show ?thesis
      using that remove_session_process [OF p(1), of "SessionStatusMessage_session_id b"] conn by (auto simp: c1_def)
  qed (use that p(1) conn in \<open>simp add: c1_def\<close>)
  have "epoll c1 (peer_sock q) \<noteq> None"
    using assms(2,3) by (auto simp: c1_def polled_def handle_session_closure_def Let_def split: option.splits)
  then have run: "handle_message api True k (note_encode n) (int Header_BUF_SIZE) (ctl s) =
      Inr (c1\<lparr>epoll := (epoll c1)(peer_sock q \<mapsto> True)\<rparr>)" (is "_ = Inr ?c")
    using b p1 by (simp add: handle_message_def Header_BUF_SIZE_def Let_def c1_def [symmetric] mod_epoll_def)
  have "io ?c = io (ctl s)" by (simp add: c1_def)
  then have "deliver (ctl s) ?c (peers s) = peers s" by (simp add: deliver_nothing written_none)
  with cluster_step.notice [OF assms(3) len, unfolded cut, OF run] len show ?thesis
    by (intro exI [of _ ?c]) simp
qed

section \<open>Quiescence\<close>

definition drained :: "string \<Rightarrow> 'r cluster \<Rightarrow> bool" where
  "drained k s \<longleftrightarrow> (\<forall>q. peers s k = Some q \<longrightarrow> inbox q = [] \<and> outbox q = [])"

lemma drain_outbox:
  assumes "redis_ok api strs members" and "live_inv strs members s" and "peers s k = Some q" and "inbox q = []"
  shows "\<exists>t. reaches (cluster_step api s3 load multipart) s t \<and> drained k t \<and> dom (peers t) = dom (peers s) \<and>
    (\<forall>k'. k' \<noteq> k \<longrightarrow> peers t k' = peers s k')"
  using assms(2-4)
proof (induction "length (outbox q)" arbitrary: s q rule: less_induct)
  case less
  show ?case
  proof (cases "outbox q = []")
    case True
    with less.prems show ?thesis by (intro exI [of _ s]) (auto simp: drained_def)
  next
    case False
    let ?q = "q\<lparr>outbox := drop Header_BUF_SIZE (outbox q)\<rparr>"
    obtain c where step: "cluster_step api s3 load multipart s (s\<lparr>ctl := c, peers := (peers s)(k \<mapsto> ?q)\<rparr>)"
      and len: "Header_BUF_SIZE \<le> length (outbox q)"
      using notice_enabled [OF _ _ less.prems(2) False] less.prems(1) unfolding live_inv_def by blast
    let ?s = "s\<lparr>ctl := c, peers := (peers s)(k \<mapsto> ?q)\<rparr>"
    have "live_inv strs members ?s" by (rule invariant_machine.step_inv [OF live_machine [OF assms(1)] step less.prems(1)])
    moreover have "length (outbox ?q) < length (outbox q)" using len False by (simp add: Header_BUF_SIZE_def)
    ultimately obtain t where "reaches (cluster_step api s3 load multipart) ?s t" "drained k t" "dom (peers t) = dom (peers ?s)"
      "\<forall>k'. k' \<noteq> k \<longrightarrow> peers t k' = peers ?s k'"
      using less.hyps [of ?q ?s] less.prems(3) by auto
    with step less.prems(2) show ?thesis
      by (intro exI [of _ t]) (auto intro: reaches_trans reaches_step [where step = "cluster_step api s3 load multipart"])
  qed
qed

lemma drain_peer:
  assumes "redis_ok api strs members" and "live_inv strs members s" and "peers s k = Some q"
  shows "\<exists>t. reaches (cluster_step api s3 load multipart) s t \<and> drained k t \<and> dom (peers t) = dom (peers s) \<and>
    (\<forall>k'. k' \<noteq> k \<longrightarrow> peers t k' = peers s k')"
  using assms(2,3)
proof (induction "length (inbox q)" arbitrary: s q rule: less_induct)
  case less
  show ?case
  proof (cases "inbox q = []")
    case True
    then show ?thesis using drain_outbox [OF assms(1) less.prems] by blast
  next
    case False
    obtain q' where step: "cluster_step api s3 load multipart s (s\<lparr>peers := (peers s)(k \<mapsto> q')\<rparr>)"
      and len: "length (inbox q') < length (inbox q)"
      using request_enabled [OF _ less.prems(2) False] less.prems(1) unfolding live_inv_def by blast
    let ?s = "s\<lparr>peers := (peers s)(k \<mapsto> q')\<rparr>"
    have "live_inv strs members ?s" by (rule invariant_machine.step_inv [OF live_machine [OF assms(1)] step less.prems(1)])
    then obtain t where "reaches (cluster_step api s3 load multipart) ?s t" "drained k t" "dom (peers t) = dom (peers ?s)"
      "\<forall>k'. k' \<noteq> k \<longrightarrow> peers t k' = peers ?s k'"
      using less.hyps [OF len, of ?s] by auto
    with step less.prems(2) show ?thesis
      by (intro exI [of _ t]) (auto intro: reaches_trans reaches_step [where step = "cluster_step api s3 load multipart"])
  qed
qed

lemma drain_peers:
  assumes "redis_ok api strs members" and "live_inv strs members s"
  shows "\<exists>t. reaches (cluster_step api s3 load multipart) s t \<and> (\<forall>k \<in> set ks. drained k t) \<and> dom (peers t) = dom (peers s) \<and>
    (\<forall>k. k \<notin> set ks \<longrightarrow> peers t k = peers s k)"
proof (induction ks)
  case Nil
  then show ?case by auto
next
  case (Cons k ks)
  then obtain t where t: "reaches (cluster_step api s3 load multipart) s t" "\<forall>k \<in> set ks. drained k t"
      "dom (peers t) = dom (peers s)" "\<forall>k. k \<notin> set ks \<longrightarrow> peers t k = peers s k" by blast
  show ?case
  proof (cases "peers t k")
    case None
    with t show ?thesis by (intro exI [of _ t]) (auto simp: drained_def)
  next
    case (Some q)
    have "live_inv strs members t"
      by (rule invariant_machine.reaches_inv [OF live_machine [OF assms(1)] t(1) assms(2)])
    then obtain u where u: "reaches (cluster_step api s3 load multipart) t u" "drained k u" "dom (peers u) = dom (peers t)"
        "\<forall>k'. k' \<noteq> k \<longrightarrow> peers u k' = peers t k'"
      using drain_peer [OF assms(1) _ Some] by blast
    then have "drained x u" if "x \<in> set ks" for x
      using t(2) that by (cases "x = k") (simp_all add: drained_def)
    moreover have "peers u x = peers s x" if "x \<notin> set (k # ks)" for x using that t(4) u(4) by simp
    ultimately show ?thesis
      using t u by (intro exI [of _ u]) (auto intro: reaches_trans)
  qed
qed

section \<open>Properties\<close>

text \<open>
  C5: the control plane and its processes never block each other. From every state they reach together
  there is a continuation, without a further client request, connection or exit, in which every request
  under way has been answered and every message under way has been handled.
\<close>

theorem cluster_drains:
  assumes "redis_ok api strs members" and "tables_ok strs members rs Map.empty"
    and "reaches (cluster_step api s3 load multipart) (cluster_init rs b) s"
  shows "\<exists>t. reaches (cluster_step api s3 load multipart) s t \<and> dom (peers t) = dom (peers s) \<and>
    (\<forall>k q. peers t k = Some q \<longrightarrow> inbox q = [] \<and> outbox q = [])"
proof -
  have "polled (cluster_init rs b)"
    by (simp add: polled_def cluster_init_def server_init_def Resources_init_def unconnected_def)
  then have "live_inv strs members (cluster_init rs b)" using cluster_init_inv [OF assms(2)] by (simp add: live_inv_def)
  then have live: "live_inv strs members s"
    by (rule invariant_machine.reaches_inv [OF live_machine [OF assms(1)] assms(3)])
  let ?ks = "map fst (processes (resources (ctl s)))"
  have ks: "k \<in> set ?ks" if "peers s k = Some q" for k q
    using cluster_invD(4) [of strs members s k q] live that
    by (auto simp: live_inv_def get_process_def dom_map_of_conv_image_fst [symmetric])
  obtain t where t: "reaches (cluster_step api s3 load multipart) s t" "\<forall>k \<in> set ?ks. drained k t" "dom (peers t) = dom (peers s)"
    using drain_peers [OF assms(1) live] by blast
  have "inbox q = [] \<and> outbox q = []" if "peers t k = Some q" for k q
  proof -
    have "k \<in> set ?ks" using that t(3) ks by blast
    with t(2) that show ?thesis by (auto simp: drained_def)
  qed
  with t show ?thesis by blast
qed

theorem cluster_drains_witness:
  "\<exists>s t q. reaches (cluster_step map_redis map_s3 (\<lambda>_. demo_json) (\<lambda>_. [])) (cluster_init demo_db (Some demo_backend)) s \<and>
     inbox q \<noteq> [] \<and> peers s ''fedcba9876543210'' = Some q \<and>
     reaches (cluster_step map_redis map_s3 (\<lambda>_. demo_json) (\<lambda>_. [])) s t \<and>
     (\<forall>k q. peers t k = Some q \<longrightarrow> inbox q = [] \<and> outbox q = [])"
proof -
  obtain s q where s: "reaches (cluster_step map_redis map_s3 (\<lambda>_. demo_json) (\<lambda>_. [])) (cluster_init demo_db (Some demo_backend)) s"
    and q: "peers s ''fedcba9876543210'' = Some q" "inbox q = session_request_encode (''0123456789abcdef'', 1, 64)"
    using demo_cluster by blast
  have "inbox q \<noteq> []" using session_request_length [of "(''0123456789abcdef'', 1, 64)"] unfolding q(2) by fastforce
  with cluster_drains [OF map_redis_ok demo_tables s] s q(1) show ?thesis by blast
qed

end
