(* ===== verification/Client_Threads.thy ===== *)
theory Client_Threads
  imports Handler_Effects
begin

text \<open>
  Requests of clients and closures of sessions at the granularity of the source: \<open>process_client\<close>
  (\<open>worker.cpp\<close>) runs on the thread of the HTTP server, \<open>handle_session_closure\<close> on those of the pool,
  and neither holds a lock from beginning to end. Here every command of Redis and every region under
  \<open>_sessions_mutex\<close> is one step, steps of different threads interleave, and every command of Redis can fail
  with an exception, before or after the server has executed it.
\<close>

section \<open>The steps of a client request\<close>

record client_request =
  cr_env :: client_env
  cr_pid :: string
  cr_sid :: string
  cr_fname :: string
  cr_fid :: string
  cr_mf :: i32
  cr_ms :: i32
  cr_payload :: string

text \<open>
  Where a request is: before each command of Redis, before looking for a process, before counting the
  session in it, before entering the session in the tables, and at its end. The session, its limits and
  whether it is swapped in are local variables.
\<close>

datatype client_pc =
  Lookup | Check_Alive | Take_Swapped | Read_Details | Store_Details
| Find_Free string i32 i32 bool | Reserve string string i32 i32 bool
| Place_In string string i32 i32 bool | Place_New string i32 i32 bool
| Mark_Alive string | Answered int string | Exception | Crashed fault

text \<open>What becomes of a command of Redis.\<close>

datatype command = Reply | Fails_Before | Fails_After

text \<open>The two halves of \<open>get_free_process\<close>, which takes no lock.\<close>

definition find_free :: "Resources \<Rightarrow> string option" where
  "find_free r = map_option fst (find (\<lambda>(k, p). sint (allocated_sessions p) < sint (cp_max_sessions p)) (processes r))"

definition reserve :: "string \<Rightarrow> Resources \<Rightarrow> Resources" where
  "reserve k r = update_process k (\<lambda>p. p\<lparr>allocated_sessions := allocated_sessions p + 1\<rparr>) r"

lemma get_free_process_halves:
  "get_free_process pid r = (case find_free r of None \<Rightarrow> (None, r) | Some k \<Rightarrow> (Some k, reserve k r))"
  by (auto simp: get_free_process_def find_free_def reserve_def split: option.splits)

definition cr_alloc :: "client_request \<Rightarrow> PendingAllocation" where
  "cr_alloc rq = \<lparr>payload = cr_payload rq, function_name = cr_fname rq, function_id = cr_fid rq\<rparr>"

text \<open>A command that changes the database: executed or not, and with or without an exception.\<close>

definition command_result :: "command \<Rightarrow> 'r \<Rightarrow> client_pc \<Rightarrow> 'r control \<Rightarrow> client_pc \<times> 'r control" where
  "command_result cmd rs pc c =
     (case cmd of
        Reply \<Rightarrow> (pc, c\<lparr>redis_st := rs\<rparr>)
      | Fails_Before \<Rightarrow> (Exception, c)
      | Fails_After \<Rightarrow> (Exception, c\<lparr>redis_st := rs\<rparr>))"

fun client_step :: "'r redis \<Rightarrow> command \<Rightarrow> client_request \<Rightarrow> client_pc \<Rightarrow> 'r control \<Rightarrow> client_pc \<times> 'r control" where
  "client_step api cmd rq Lookup c =
     command_result cmd (redis_st c)
       (case rget api (redis_st c) (process_key (cr_pid rq)) of
          None \<Rightarrow> Answered 400 ''Process doesn't exist!''
        | Some process_name \<Rightarrow> if cr_sid rq \<noteq> '''' then Check_Alive else Store_Details) c"
| "client_step api cmd rq Check_Alive c =
     command_result cmd (redis_st c)
       (if sismember api (redis_st c) (alive_key (cr_pid rq)) (cr_sid rq)
        then Answered 400 ''Session is already alive!'' else Take_Swapped) c"
| "client_step api cmd rq Take_Swapped c =
     (let (n, rs) = srem api (redis_st c) (swapped_key (cr_pid rq)) (cr_sid rq)
      in command_result cmd rs (if n = 1 then Read_Details else Answered 400 ''Session ID unknown!'') c)"
| "client_step api cmd rq Read_Details c =
     command_result cmd (redis_st c)
       (case rget api (redis_st c) (session_key (cr_sid rq)) of
          None \<Rightarrow> Answered 400 ''Couldn't locate session details!''
        | Some v \<Rightarrow>
            (let (mem, func) = split v (CHR '';'');
                 mf = from_chars32 func (cr_mf rq);
                 ms = from_chars32 mem (cr_ms rq);
                 ms = ms * (-1)
             in Find_Free (cr_sid rq) mf ms True)) c"
| "client_step api cmd rq Store_Details c =
     (let sid = take 16 (ce_session_uuid (cr_env rq))
      in command_result cmd (rset api (redis_st c) (session_key sid) (to_string32 (cr_ms rq) @ '';'' @ to_string32 (cr_mf rq)))
           (Find_Free sid (cr_mf rq) (cr_ms rq) False) c)"
| "client_step api cmd rq (Find_Free sid mf ms sw) c =
     ((case find_free (resources c) of None \<Rightarrow> Place_New sid mf ms sw | Some k \<Rightarrow> Reserve k sid mf ms sw), c)"
| "client_step api cmd rq (Reserve k sid mf ms sw) c =
     (Place_In k sid mf ms sw, c\<lparr>resources := reserve k (resources c)\<rparr>)"
| "client_step api cmd rq (Place_In k sid mf ms sw) c =
     (Mark_Alive sid, allocate_in_process (ce_junk (cr_env rq)) k sid mf ms sw (cr_alloc rq) c)"
| "client_step api cmd rq (Place_New sid mf ms sw) c =
     (case allocate_new_process (ce_place (cr_env rq)) (ce_junk (cr_env rq)) (ce_process_uuid (cr_env rq)) (cr_pid rq)
             sid mf ms sw (cr_alloc rq) c of
        Inl f \<Rightarrow> (Crashed f, c)
      | Inr c' \<Rightarrow> (Mark_Alive sid, c'))"
| "client_step api cmd rq (Mark_Alive sid) c =
     command_result cmd (sadd api (redis_st c) (alive_key (cr_pid rq)) sid) (Answered 200 sid) c"
| "client_step api cmd rq pc c = (pc, c)"

section \<open>The steps of a closure\<close>

text \<open>
  \<open>handle_session_closure\<close>: the session leaves the vector under the lock, then three commands of
  Redis. \<open>cp\<close> and \<open>gp\<close> are the two identifiers of the process.
\<close>

datatype closure_pc = Remove | Unlist | Swap | Unlist_Global | Closed | Closure_Exception

record closure =
  cl_process :: string
  cl_session :: string
  cl_pc :: closure_pc

definition closure_command :: "command \<Rightarrow> 'r \<Rightarrow> closure_pc \<Rightarrow> 'r control \<Rightarrow> closure_pc \<times> 'r control" where
  "closure_command cmd rs pc c =
     (case cmd of
        Reply \<Rightarrow> (pc, c\<lparr>redis_st := rs\<rparr>)
      | Fails_Before \<Rightarrow> (Closure_Exception, c)
      | Fails_After \<Rightarrow> (Closure_Exception, c\<lparr>redis_st := rs\<rparr>))"

definition closure_step :: "'r redis \<Rightarrow> command \<Rightarrow> closure \<Rightarrow> 'r control \<Rightarrow> closure_pc \<times> 'r control" where
  "closure_step api cmd cl c =
     (case get_process (cl_process cl) (resources c) of
        None \<Rightarrow> (Closed, c)
      | Some p \<Rightarrow>
          (case cl_pc cl of
             Remove \<Rightarrow> (Unlist, c\<lparr>resources := remove_session (cl_process cl) (cl_session cl) (resources c)\<rparr>)
           | Unlist \<Rightarrow> closure_command cmd (snd (srem api (redis_st c) (alive_key (cp_process_id p)) (cl_session cl))) Swap c
           | Swap \<Rightarrow> closure_command cmd (sadd api (redis_st c) (swapped_key (global_process_id p)) (cl_session cl)) Unlist_Global c
           | Unlist_Global \<Rightarrow>
               closure_command cmd (snd (srem api (redis_st c) (alive_key (global_process_id p)) (cl_session cl))) Closed c
           | pc \<Rightarrow> (pc, c)))"

section \<open>A thread that is alone\<close>

text \<open>Without failures and without other threads the steps are the handlers.\<close>

fun client_alone :: "'r redis \<Rightarrow> client_request \<Rightarrow> nat \<Rightarrow> client_pc \<times> 'r control \<Rightarrow> client_pc \<times> 'r control" where
  "client_alone api rq 0 s = s"
| "client_alone api rq (Suc n) s = client_alone api rq n (client_step api Reply rq (fst s) (snd s))"

fun closure_alone :: "'r redis \<Rightarrow> closure \<Rightarrow> nat \<Rightarrow> 'r control \<Rightarrow> closure_pc \<times> 'r control" where
  "closure_alone api cl 0 c = (cl_pc cl, c)"
| "closure_alone api cl (Suc n) c =
     (let (pc, c) = closure_step api Reply cl c in closure_alone api (cl\<lparr>cl_pc := pc\<rparr>) n c)"

text \<open>
  The steps of a request, taken one after the other with every command answered, are \<open>process_client\<close>:
  the same answer, the same state afterwards, and an access through the null backend exactly when
  \<open>process_client\<close> makes one.
\<close>

lemma client_steps_process_client:
  "(client_alone api rq 9 (Lookup, c) = (Answered code msg, c') \<longleftrightarrow>
     process_client api (cr_env rq) (cr_pid rq) (cr_sid rq) (cr_fname rq) (cr_fid rq) (cr_mf rq) (cr_ms rq) (cr_payload rq) c =
       Inr ((code, msg), c')) \<and>
   (fst (client_alone api rq 9 (Lookup, c)) = Crashed f \<longleftrightarrow>
     process_client api (cr_env rq) (cr_pid rq) (cr_sid rq) (cr_fname rq) (cr_fid rq) (cr_mf rq) (cr_ms rq) (cr_payload rq) c = Inl f)"
  by (auto simp: process_client_def client_session_def command_result_def get_free_process_halves cr_alloc_def Let_def
      numeral_eq_Suc split: option.splits sum.splits prod.splits if_splits)

lemma closure_alone_handler:
  "snd (closure_alone api \<lparr>cl_process = k, cl_session = sid, cl_pc = Remove\<rparr> 4 c) =
     (if get_process k (resources c) = None then c else handle_session_closure api k n sid c)"
  by (auto simp: closure_step_def closure_command_def handle_session_closure_def Let_def numeral_eq_Suc split: option.splits)

section \<open>All threads\<close>

record 'r threads =
  tctl :: "'r control"
  clients :: "nat \<rightharpoonup> client_request \<times> client_pc"
  closures :: "nat \<rightharpoonup> closure"

text \<open>UUIDs are drawn anew, for the session and for the process, when they are drawn.\<close>

definition draws_fresh :: "'r redis \<Rightarrow> client_request \<Rightarrow> client_pc \<Rightarrow> 'r control \<Rightarrow> bool" where
  "draws_fresh api rq pc c \<longleftrightarrow>
     (pc = Store_Details \<longrightarrow> (let sid = take 16 (ce_session_uuid (cr_env rq)) in
        id16 sid \<and> rget api (redis_st c) (session_key sid) = None)) \<and>
     (\<forall>sid mf ms sw. pc = Place_New sid mf ms sw \<longrightarrow>
        get_process (take 16 (ce_process_uuid (cr_env rq))) (resources c) = None)"

definition no_crash :: "client_pc \<Rightarrow> bool" where
  "no_crash pc \<longleftrightarrow> (\<forall>f. pc \<noteq> Crashed f)"

text \<open>
  A request arrives; one of its steps; a process reports the closure of one of its sessions, each once;
  one of the steps of the handler; a process or a session connects; a client registers a process. Commands
  of Redis fail only where \<open>fails\<close> allows it. Any number of requests may be under way at once, which includes
  the runs of the program: \<open>http.cpp\<close> does not ask crow for more than one worker thread. A request whose pointer to the backend is null ends the program,
  so no step follows.
\<close>

inductive thread_step :: "'r redis \<Rightarrow> bool \<Rightarrow> 'r threads \<Rightarrow> 'r threads \<Rightarrow> bool" for api fails where
  arrive: "clients s i = None \<Longrightarrow> hash_order (ce_place (cr_env rq)) \<Longrightarrow>
     thread_step api fails s (s\<lparr>clients := (clients s)(i \<mapsto> (rq, Lookup))\<rparr>)"
| client: "clients s i = Some (rq, pc) \<Longrightarrow> hash_order (ce_place (cr_env rq)) \<Longrightarrow> draws_fresh api rq pc (tctl s) \<Longrightarrow>
     cmd = Reply \<or> fails \<Longrightarrow> client_step api cmd rq pc (tctl s) = (pc', c') \<Longrightarrow> no_crash pc' \<Longrightarrow>
     thread_step api fails s (s\<lparr>tctl := c', clients := (clients s)(i \<mapsto> (rq, pc'))\<rparr>)"
| notice: "closures s i = None \<Longrightarrow> get_process k (resources (tctl s)) = Some p \<Longrightarrow> sid \<in> set (proc_sessions p) \<Longrightarrow>
     (\<And>j cl. closures s j = Some cl \<Longrightarrow> cl_session cl = sid \<Longrightarrow> cl_pc cl \<noteq> Remove) \<Longrightarrow>
     thread_step api fails s (s\<lparr>closures := (closures s)(i \<mapsto> \<lparr>cl_process = k, cl_session = sid, cl_pc = Remove\<rparr>)\<rparr>)"
| closure: "closures s i = Some cl \<Longrightarrow> cmd = Reply \<or> fails \<Longrightarrow> closure_step api cmd cl (tctl s) = (pc', c') \<Longrightarrow>
     thread_step api fails s (s\<lparr>tctl := c', closures := (closures s)(i \<mapsto> cl\<lparr>cl_pc := pc'\<rparr>)\<rparr>)"
| process: "process_process ok h buf (tctl s) = Inr c' \<Longrightarrow> thread_step api fails s (s\<lparr>tctl := c'\<rparr>)"
| session: "thread_step api fails s (s\<lparr>tctl := process_session h buf (tctl s)\<rparr>)"
| allocation: "thread_step api fails s (s\<lparr>tctl := snd (process_allocation api uuid name (tctl s))\<rparr>)"

inductive_cases thread_stepE: "thread_step api fails s t"

definition threads_init :: "'r \<Rightarrow> LocalBackend option \<Rightarrow> 'r threads" where
  "threads_init rs b = \<lparr>tctl = control (server_init rs b), clients = Map.empty, closures = Map.empty\<rparr>"

section \<open>Where a session is\<close>

datatype place = In_Process string | Swapped_For string | Held nat | Closing nat

text \<open>The session a request has taken and not yet entered in a process.\<close>

fun holding :: "client_request \<Rightarrow> client_pc \<Rightarrow> string option" where
  "holding rq Read_Details = Some (cr_sid rq)"
| "holding rq (Find_Free sid mf ms sw) = Some sid"
| "holding rq (Reserve k sid mf ms sw) = Some sid"
| "holding rq (Place_In k sid mf ms sw) = Some sid"
| "holding rq (Place_New sid mf ms sw) = Some sid"
| "holding rq pc = None"

definition places :: "('r \<Rightarrow> string \<Rightarrow> string set) \<Rightarrow> 'r threads \<Rightarrow> string \<Rightarrow> place set" where
  "places members s sid =
     {In_Process k |k xs. vec (tctl s) k = Some xs \<and> sid \<in> set xs} \<union>
     {Swapped_For pid |pid. sid \<in> members (redis_st (tctl s)) (swapped_key pid)} \<union>
     {Held i |i rq pc. clients s i = Some (rq, pc) \<and> holding rq pc = Some sid} \<union>
     {Closing i |i cl. closures s i = Some cl \<and> cl_session cl = sid \<and> cl_pc cl \<in> {Unlist, Swap}}"

lemma places_iff [simp]:
  "In_Process k \<in> places members s sid \<longleftrightarrow> (\<exists>xs. vec (tctl s) k = Some xs \<and> sid \<in> set xs)"
  "Swapped_For pid \<in> places members s sid \<longleftrightarrow> sid \<in> members (redis_st (tctl s)) (swapped_key pid)"
  "Held i \<in> places members s sid \<longleftrightarrow> (\<exists>rq pc. clients s i = Some (rq, pc) \<and> holding rq pc = Some sid)"
  "Closing i \<in> places members s sid \<longleftrightarrow> (\<exists>cl. closures s i = Some cl \<and> cl_session cl = sid \<and> cl_pc cl \<in> {Unlist, Swap})"
  by (auto simp: places_def)

lemma places_subset:
  assumes "\<And>k. In_Process k \<in> P \<Longrightarrow> In_Process k \<in> Q" and "\<And>k. Swapped_For k \<in> P \<Longrightarrow> Swapped_For k \<in> Q"
    and "\<And>k. Held k \<in> P \<Longrightarrow> Held k \<in> Q" and "\<And>k. Closing k \<in> P \<Longrightarrow> Closing k \<in> Q"
  shows "P \<subseteq> Q"
proof
  fix x assume "x \<in> P"
  with assms show "x \<in> Q" by (cases x) auto
qed

text \<open>
  In one place at most; only stored sessions are anywhere; nothing twice in the vector of a process.
\<close>

definition threads_ok ::
  "('r \<Rightarrow> string \<rightharpoonup> string) \<Rightarrow> ('r \<Rightarrow> string \<Rightarrow> string set) \<Rightarrow> 'r threads \<Rightarrow> bool" where
  "threads_ok strs members s \<longleftrightarrow> table_wf (resources (tctl s)) \<and>
     (\<forall>k xs. vec (tctl s) k = Some xs \<longrightarrow> distinct xs) \<and>
     (\<forall>sid x y. x \<in> places members s sid \<longrightarrow> y \<in> places members s sid \<longrightarrow> x = y) \<and>
     (\<forall>sid. places members s sid \<noteq> {} \<longrightarrow> strs (redis_st (tctl s)) (session_key sid) \<noteq> None)"

text \<open>
  What a step may do to the places: nothing new, except that one session moves from where it was, or
  that a session nobody knew appears.
\<close>

definition place_change ::
  "('r \<Rightarrow> string \<rightharpoonup> string) \<Rightarrow> ('r \<Rightarrow> string \<Rightarrow> string set) \<Rightarrow> 'r threads \<Rightarrow> 'r threads \<Rightarrow> bool" where
  "place_change strs members s t \<longleftrightarrow>
     (\<exists>sid y. (\<forall>z. z \<noteq> sid \<longrightarrow> places members t z \<subseteq> places members s z) \<and>
        (places members t sid \<subseteq> places members s sid \<or>
         places members t sid \<subseteq> {y} \<and>
         (places members s sid \<noteq> {} \<or> strs (redis_st (tctl s)) (session_key sid) = None \<and>
            strs (redis_st (tctl t)) (session_key sid) \<noteq> None))) \<and>
     (\<forall>z. strs (redis_st (tctl s)) (session_key z) \<noteq> None \<longrightarrow> strs (redis_st (tctl t)) (session_key z) \<noteq> None)"

lemma place_change_ok:
  assumes "threads_ok strs members s" and "place_change strs members s t"
    and "table_wf (resources (tctl t))" and "\<And>k xs. vec (tctl t) k = Some xs \<Longrightarrow> distinct xs"
  shows "threads_ok strs members t"
proof -
  have u: "x = y" if "x \<in> places members s sid" "y \<in> places members s sid" for sid x y
    using assms(1) that unfolding threads_ok_def by blast
  have kn: "strs (redis_st (tctl s)) (session_key sid) \<noteq> None" if "places members s sid \<noteq> {}" for sid
    using assms(1) that unfolding threads_ok_def by blast
  obtain sid y where c: "\<forall>z. z \<noteq> sid \<longrightarrow> places members t z \<subseteq> places members s z"
      "places members t sid \<subseteq> places members s sid \<or> places members t sid \<subseteq> {y} \<and> (places members s sid \<noteq> {} \<or>
         strs (redis_st (tctl s)) (session_key sid) = None \<and> strs (redis_st (tctl t)) (session_key sid) \<noteq> None)"
      "\<forall>z. strs (redis_st (tctl s)) (session_key z) \<noteq> None \<longrightarrow> strs (redis_st (tctl t)) (session_key z) \<noteq> None"
    using assms(2) unfolding place_change_def by blast
  have "x = x'" if "x \<in> places members t z" "x' \<in> places members t z" for z x x'
    using c(1,2) that u by (cases "z = sid") (blast, blast)
  moreover have "strs (redis_st (tctl t)) (session_key z) \<noteq> None" if "places members t z \<noteq> {}" for z
  proof (cases "z = sid")
    case True
    with c(2) that have "places members s sid \<noteq> {} \<or> strs (redis_st (tctl t)) (session_key sid) \<noteq> None" by blast
    with True kn c(3) show ?thesis by blast
  next
    case False
    with c(1) that have "places members s z \<noteq> {}" by blast
    with kn c(3) show ?thesis by blast
  qed
  ultimately show ?thesis using assms(3,4) unfolding threads_ok_def by blast
qed

section \<open>Steps of clients\<close>

lemma threads_okD:
  assumes "threads_ok strs members s"
  shows "table_wf (resources (tctl s))" and "vec (tctl s) k = Some xs \<Longrightarrow> distinct xs"
    and "x \<in> places members s sid \<Longrightarrow> places members s sid = {x}"
    and "strs (redis_st (tctl s)) (session_key sid) = None \<Longrightarrow> places members s sid = {}"
  using assms unfolding threads_ok_def by (blast+)

text \<open>The two shapes of a step of a client: it moves its own session, or nothing appears.\<close>

lemma client_keeps:
  assumes "clients s i = Some (rq, pc)" and "vec c' = vec (tctl s)"
    and "\<And>p. members (redis_st c') (swapped_key p) \<subseteq> members (redis_st (tctl s)) (swapped_key p)"
    and "holding rq pc' = None \<or> holding rq pc' = holding rq pc"
  shows "places members (s\<lparr>tctl := c', clients := (clients s)(i \<mapsto> (rq, pc'))\<rparr>) z \<subseteq> places members s z"
  using assms by (intro places_subset) (auto split: if_splits)

lemma client_takes:
  assumes "threads_ok strs members s" and "clients s i = Some (rq, pc)" and "vec c' = vec (tctl s)"
    and "\<And>p. members (redis_st c') (swapped_key p) \<subseteq> members (redis_st (tctl s)) (swapped_key p) - {sid}"
    and "holding rq pc' = Some sid" and "holding rq pc = None"
    and "sid \<in> members (redis_st (tctl s)) (swapped_key pid) \<or> places members s sid = {}"
  shows "places members (s\<lparr>tctl := c', clients := (clients s)(i \<mapsto> (rq, pc'))\<rparr>) sid \<subseteq> {Held i}"
    and "z \<noteq> sid \<Longrightarrow> places members (s\<lparr>tctl := c', clients := (clients s)(i \<mapsto> (rq, pc'))\<rparr>) z \<subseteq> places members s z"
proof -
  let ?t = "s\<lparr>tctl := c', clients := (clients s)(i \<mapsto> (rq, pc'))\<rparr>"
  have "places members ?t sid \<subseteq> insert (Held i) (places members s sid - range Swapped_For)"
    using assms(2-6) by (intro places_subset) (auto split: if_splits)
  moreover have "places members s sid - range Swapped_For = {}"
    using assms(7) threads_okD(3) [OF assms(1), of "Swapped_For pid" sid] by auto
  ultimately show "places members ?t sid \<subseteq> {Held i}" by simp
  show "places members ?t z \<subseteq> places members s z" if "z \<noteq> sid"
    using that assms(2-6) by (intro places_subset) (auto split: if_splits)
qed

lemma client_places:
  assumes "threads_ok strs members s" and "clients s i = Some (rq, pc)" and "vec c' = (vec (tctl s))(k \<mapsto> xs @ [sid])"
    and "vec (tctl s) k = Some xs \<or> vec (tctl s) k = None \<and> xs = []"
    and "members (redis_st c') = members (redis_st (tctl s))"
    and "holding rq pc' = None" and "holding rq pc = Some sid"
  shows "places members (s\<lparr>tctl := c', clients := (clients s)(i \<mapsto> (rq, pc'))\<rparr>) sid \<subseteq> {In_Process k}"
    and "z \<noteq> sid \<Longrightarrow> places members (s\<lparr>tctl := c', clients := (clients s)(i \<mapsto> (rq, pc'))\<rparr>) z \<subseteq> places members s z"
    and "vec c' k' = Some ys \<Longrightarrow> distinct ys"
proof -
  let ?t = "s\<lparr>tctl := c', clients := (clients s)(i \<mapsto> (rq, pc'))\<rparr>"
  have sole: "places members s sid = {Held i}" by (rule threads_okD(3) [OF assms(1)]) (use assms(2,7) in simp)
  have "places members ?t sid \<subseteq> insert (In_Process k) (places members s sid - {Held i})"
    using assms(2-7) by (intro places_subset) (auto split: if_splits)
  with sole show "places members ?t sid \<subseteq> {In_Process k}" by simp
  show "places members ?t z \<subseteq> places members s z" if "z \<noteq> sid"
    using that assms(2-7) by (intro places_subset) (auto split: if_splits)
  have "In_Process k \<notin> places members s sid" by (simp add: sole)
  then have "distinct (xs @ [sid])" using assms(4) threads_okD(2) [OF assms(1)] by auto
  then show "distinct ys" if "vec c' k' = Some ys"
    using that assms(3) threads_okD(2) [OF assms(1)] by (auto split: if_splits)
qed

section \<open>Well-formed tables\<close>

lemma table_wf_update_process:
  assumes "table_wf r" and "\<And>p. get_process k r = Some p \<Longrightarrow> set (proc_sessions (f p)) \<subseteq> dom (sessions_map r)"
  shows "table_wf (update_process k f r)"
  using assms by (auto simp: table_wf_def)

lemma table_wf_update_session:
  assumes "table_wf r" and "\<And>s. session_id (f s) = session_id s"
  shows "table_wf (update_session sid f r)"
  using assms unfolding table_wf_def
  by (auto simp: update_session_def get_process_def split: option.splits if_splits) blast+

lemma table_wf_setup_session:
  assumes "table_wf r"
  shows "table_wf (snd (setup_session junk k sid mf ms sw alloc r))"
proof -
  let ?r = "if sessions_map r sid = None then r\<lparr>sessions_map := (sessions_map r)(sid \<mapsto> Session_init junk sid)\<rparr> else r"
  have gp: "get_process x ?r = get_process x r" for x by (simp add: get_process_def)
  have "table_wf ?r" using assms unfolding table_wf_def gp by (auto simp: Session_init_def)
  moreover have "sid \<in> dom (sessions_map ?r)" by auto
  ultimately have "table_wf (update_process k (\<lambda>p. p\<lparr>proc_sessions := proc_sessions p @ [sid]\<rparr>) ?r)"
    using table_wfD(3) by (intro table_wf_update_process) auto
  then show ?thesis
    by (simp add: setup_session_def add_session_def Let_def table_wf_update_session)
qed

lemma table_wf_allocate_in_process:
  assumes "table_wf (resources c)"
  shows "table_wf (resources (allocate_in_process junk k sid mf ms sw alloc c))"
  using table_wf_setup_session [OF assms, of junk k sid mf ms sw alloc]
  by (auto simp: allocate_in_process_def send_session_request_def case_prod_beta Let_def table_wf_update_session split: option.splits)

lemma table_wf_allocate_new_process:
  assumes "table_wf (resources c)" and "hash_order place" and "allocate_new_process place junk uuid pid sid mf ms sw alloc c = Inr c'"
  shows "table_wf (resources c')"
proof -
  let ?p = "(CProcess_init max_sessions_per_process)\<lparr>cp_process_id := take 16 uuid, global_process_id := pid,
      allocated_sessions := 1\<rparr>"
  note ap = add_process_simps [OF assms(2) table_wfD(1) [OF assms(1)], where p = ?p]
  have "table_wf (snd (add_process place ?p (resources c)))"
    using assms(1) ap by (auto simp: table_wf_def CProcess_init_def)
  then have "table_wf (snd (setup_session junk (fst (add_process place ?p (resources c))) sid mf ms sw alloc
      (snd (add_process place ?p (resources c)))))" by (rule table_wf_setup_session)
  then show ?thesis
    using assms(3) by (auto simp: allocate_new_process_def LocalBackend_allocate_process_def Let_def case_prod_beta split: option.splits)
qed

lemma table_wf_remove_session:
  assumes "table_wf r" shows "table_wf (remove_session k sid r)"
  using assms table_wfD(3) [OF assms, of k]
  by (auto simp: remove_session_def Let_def split: option.splits intro!: table_wf_update_process
      dest!: set_take_subset [THEN subsetD] set_drop_subset [THEN subsetD])

lemma table_wf_send_requests: "table_wf (resources c) \<Longrightarrow> table_wf (resources (send_requests sids conn req c))"
proof (induction sids arbitrary: req c)
  case (Cons sid sids)
  have "table_wf (resources (snd (case get_session sid (resources c) of None \<Rightarrow> (req, c)
      | Some s \<Rightarrow> if \<not> allocated s then send_session_request sid conn req c else (req, c))))"
    using Cons.prems by (auto simp: send_session_request_def case_prod_beta Let_def table_wf_update_session split: option.splits)
  then show ?case by (simp add: case_prod_beta Let_def Cons.IH)
qed simp

lemma table_wf_process_process:
  assumes "table_wf (resources c)" and "process_process ok h buf c = Inr c'"
  shows "table_wf (resources c')"
proof -
  have "table_wf (update_process k (\<lambda>p. p\<lparr>connection := x\<rparr>) (resources c))" for k x
    by (rule table_wf_update_process [OF assms(1)]) (use table_wfD(3) [OF assms(1)] in simp)
  with assms show ?thesis
    by (auto simp: process_process_def Let_def add_epoll_def remove_process_def split: option.splits if_splits
        intro!: table_wf_send_requests)
qed

lemma table_wf_process_session: "table_wf (resources c) \<Longrightarrow> table_wf (resources (process_session h buf c))"
  by (auto simp: process_session_def Let_def case_prod_beta split: option.splits intro!: table_wf_update_session)

text \<open>Connections leave the vectors and the database alone.\<close>

lemma send_requests_redis [simp]: "redis_st (send_requests sids conn req c) = redis_st c"
  by (induction sids conn req c rule: send_requests.induct)
    (simp_all add: send_session_request_def case_prod_beta Let_def split: option.splits)

lemma process_process_vec:
  assumes "process_process ok h buf c = Inr c'"
  shows "vec c' = vec c" and "redis_st c' = redis_st c"
  using assms
  by (auto simp: process_process_def vec_def fun_eq_iff Let_def add_epoll_def remove_process_def option.map_comp
      split: option.splits if_splits)

lemma process_session_vec: "vec (process_session h buf c) = vec c" "redis_st (process_session h buf c) = redis_st c"
  by (simp_all add: vec_def fun_eq_iff process_session_effect(1) [OF refl] process_session_effect(2) [OF refl])

section \<open>Every step keeps a session in one place\<close>

lemma vec_resources [simp]: "vec (c\<lparr>resources := reserve k (resources c)\<rparr>) = vec c"
  by (auto simp: vec_def reserve_def fun_eq_iff option.map_comp comp_def)

lemma vec_allocate_in_process:
  assumes "table_wf (resources c)"
  shows "vec (allocate_in_process junk k sid mf ms sw alloc c) =
    (case vec c k of None \<Rightarrow> vec c | Some xs \<Rightarrow> (vec c)(k \<mapsto> xs @ [sid]))"
proof -
  have "get_process x (snd (setup_session junk k sid mf ms sw alloc (resources c))) =
      (if x = k then map_option (\<lambda>p. p\<lparr>proc_sessions := proc_sessions p @ [sid]\<rparr>) (get_process k (resources c))
       else get_process x (resources c))" for x
    by (rule setup_session_effect(1)) (use table_wfD(2) [OF assms] in auto)
  then show "vec (allocate_in_process junk k sid mf ms sw alloc c) =
    (case vec c k of None \<Rightarrow> vec c | Some xs \<Rightarrow> (vec c)(k \<mapsto> xs @ [sid]))"
    by (auto simp: vec_def fun_eq_iff allocate_in_process_def send_session_request_def case_prod_beta Let_def split: option.splits)
qed

lemma vec_allocate_new_process:
  assumes "table_wf (resources c)" and "hash_order place" and "allocate_new_process place junk uuid pid sid mf ms sw alloc c = Inr c'"
  shows "vec c' = (vec c)(take 16 uuid \<mapsto> [sid])" and "redis_st c' = redis_st c"
proof -
  obtain p where "get_process (take 16 uuid) (resources c') = Some p" "proc_sessions p = [sid]"
      "\<And>x. x \<noteq> take 16 uuid \<Longrightarrow> get_process x (resources c') = get_process x (resources c)"
    using allocate_new_process_effect [OF assms] by metis
  then show "vec c' = (vec c)(take 16 uuid \<mapsto> [sid])" by (auto simp: vec_def fun_eq_iff)
  show "redis_st c' = redis_st c" by (rule allocate_new_process_redis [OF assms(3)])
qed

text \<open>A step that neither takes nor enters a session.\<close>

lemma quiet_change:
  assumes "\<And>z. places members t z \<subseteq> places members s z"
    and "\<And>z. strs (redis_st (tctl t)) (session_key z) = strs (redis_st (tctl s)) (session_key z)"
  shows "place_change strs members s t"
  using assms unfolding place_change_def by auto

lemma move_change:
  assumes "places members t sid \<subseteq> {y}" and "\<And>z. z \<noteq> sid \<Longrightarrow> places members t z \<subseteq> places members s z"
    and "x \<in> places members s sid" and "strs (redis_st (tctl t)) = strs (redis_st (tctl s))"
  shows "place_change strs members s t"
  unfolding place_change_def using assms by (intro conjI exI [of _ sid] exI [of _ y]) auto

definition change_ok ::
  "('r \<Rightarrow> string \<rightharpoonup> string) \<Rightarrow> ('r \<Rightarrow> string \<Rightarrow> string set) \<Rightarrow> 'r threads \<Rightarrow> 'r threads \<Rightarrow> bool" where
  "change_ok strs members s t \<longleftrightarrow> place_change strs members s t \<and> table_wf (resources (tctl t)) \<and>
     (\<forall>k xs. vec (tctl t) k = Some xs \<longrightarrow> distinct xs)"

lemma client_quiet:
  assumes "threads_ok strs members s" and "clients s i = Some (rq, pc)"
    and "vec c' = vec (tctl s)" and "table_wf (resources c')" and "strs (redis_st c') = strs (redis_st (tctl s))"
    and "\<And>p. members (redis_st c') (swapped_key p) \<subseteq> members (redis_st (tctl s)) (swapped_key p)"
    and "holding rq pc' = None \<or> holding rq pc' = holding rq pc"
  shows "change_ok strs members s (s\<lparr>tctl := c', clients := (clients s)(i \<mapsto> (rq, pc'))\<rparr>)"
  unfolding change_ok_def
proof (intro conjI quiet_change allI impI)
  show "distinct xs" if "vec (tctl (s\<lparr>tctl := c', clients := (clients s)(i \<mapsto> (rq, pc'))\<rparr>)) k = Some xs" for k xs
    using that assms(3) threads_okD(2) [OF assms(1)] by simp
qed (use assms(4-7) client_keeps [OF assms(2,3), of members pc'] in simp_all)

lemma client_take_swapped:
  assumes "redis_ok api strs members" and "threads_ok strs members s" and "clients s i = Some (rq, Take_Swapped)"
    and "client_step api cmd rq Take_Swapped (tctl s) = (pc', c')"
  shows "change_ok strs members s (s\<lparr>tctl := c', clients := (clients s)(i \<mapsto> (rq, pc'))\<rparr>)"
proof -
  let ?rs = "redis_st (tctl s)" and ?k = "swapped_key (cr_pid rq)"
  note ok = threads_okD [OF assms(2)]
  obtain n rs where sr: "srem api ?rs ?k (cr_sid rq) = (n, rs)" by fastforce
  have n: "n = (if cr_sid rq \<in> members ?rs ?k then 1 else 0)"
    and m: "members rs = (members ?rs)(?k := members ?rs ?k - {cr_sid rq})" "strs rs = strs ?rs"
    using redis_laws(7-9) [OF assms(1), of ?k ?rs "cr_sid rq"] sr by simp_all
  show ?thesis
  proof (cases "n = 1 \<and> cmd = Reply")
    case True
    then have c: "c' = (tctl s)\<lparr>redis_st := rs\<rparr>" "pc' = Read_Details"
      using assms(4) sr by (simp_all add: command_result_def)
    from True n have x: "Swapped_For (cr_pid rq) \<in> places members s (cr_sid rq)" by (simp split: if_splits)
    have "p = cr_pid rq" if "cr_sid rq \<in> members ?rs (swapped_key p)" for p
      using ok(3) [OF x] that by (metis place.inject(2) places_iff(2) singletonD)
    then have sub: "members rs (swapped_key p) \<subseteq> members ?rs (swapped_key p) - {cr_sid rq}" for p
      by (auto simp: m)
    note tk = client_takes [OF assms(2,3), of c' "cr_sid rq" pc' "cr_pid rq"]
    have "place_change strs members s (s\<lparr>tctl := c', clients := (clients s)(i \<mapsto> (rq, pc'))\<rparr>)"
      by (rule move_change [OF _ _ x, where y = "Held i"]) (use tk x sub in \<open>simp_all add: c m(2)\<close>)
    then show ?thesis using ok(1,2) by (simp add: c change_ok_def)
  next
    case False
    then have "holding rq pc' = None" "c' = tctl s \<or> c' = (tctl s)\<lparr>redis_st := rs\<rparr>"
      using assms(4) sr by (auto simp: command_result_def split: command.splits)
    then show ?thesis using ok(1) by (intro client_quiet [OF assms(2,3)]) (auto simp: m split: if_splits)
  qed
qed

lemma client_store_details:
  assumes "redis_ok api strs members" and "threads_ok strs members s" and "clients s i = Some (rq, Store_Details)"
    and "draws_fresh api rq Store_Details (tctl s)" and "client_step api cmd rq Store_Details (tctl s) = (pc', c')"
  shows "change_ok strs members s (s\<lparr>tctl := c', clients := (clients s)(i \<mapsto> (rq, pc'))\<rparr>)"
proof (cases "cmd = Fails_Before")
  case True
  then show ?thesis using assms(5) threads_okD(1) [OF assms(2)]
    by (intro client_quiet [OF assms(2,3)]) (auto simp: command_result_def Let_def)
next
  case False
  let ?sid = "take 16 (ce_session_uuid (cr_env rq))" and ?rs = "redis_st (tctl s)"
    and ?t = "s\<lparr>tctl := c', clients := (clients s)(i \<mapsto> (rq, pc'))\<rparr>"
  note l = redis_laws [OF assms(1)] and ok = threads_okD [OF assms(2)]
  have new: "strs ?rs (session_key ?sid) = None"
    using assms(4) l(1) [of "session_key ?sid" ?rs] by (simp add: draws_fresh_def Let_def)
  have "(if cmd = Reply then Find_Free ?sid (cr_mf rq) (cr_ms rq) False else Exception) = pc'"
    and c: "(tctl s)\<lparr>redis_st := rset api ?rs (session_key ?sid) (to_string32 (cr_ms rq) @ '';'' @ to_string32 (cr_mf rq))\<rparr> = c'"
    using assms(5) False by (cases cmd; simp add: command_result_def Let_def)+
  then have h: "holding rq pc' = (if cmd = Reply then Some ?sid else None)" by auto
  have c': "vec c' = vec (tctl s)" "resources c' = resources (tctl s)" "members (redis_st c') = members ?rs"
      "strs (redis_st c') z = (if z = session_key ?sid then Some (to_string32 (cr_ms rq) @ '';'' @ to_string32 (cr_mf rq)) else strs ?rs z)" for z
    unfolding c [symmetric] by (simp_all add: l)
  have "places members ?t ?sid \<subseteq> insert (Held i) (places members s ?sid)"
    using assms(3) by (intro places_subset) (auto simp: c' h split: if_splits)
  then have "places members ?t ?sid \<subseteq> {Held i}" by (simp add: ok(4) [OF new])
  moreover have "places members ?t z \<subseteq> places members s z" if "z \<noteq> ?sid" for z
    using that assms(3) by (intro places_subset) (auto simp: c' h split: if_splits)
  ultimately have "place_change strs members s ?t"
    unfolding place_change_def using new
    by (intro conjI exI [of _ ?sid] exI [of _ "Held i"]) (simp_all add: c')
  then show ?thesis using ok(1,2) by (simp add: c' change_ok_def)
qed

lemma client_place_in:
  assumes "threads_ok strs members s" and "clients s i = Some (rq, Place_In k sid mf ms sw)"
    and "client_step api cmd rq (Place_In k sid mf ms sw) (tctl s) = (pc', c')"
  shows "change_ok strs members s (s\<lparr>tctl := c', clients := (clients s)(i \<mapsto> (rq, pc'))\<rparr>)"
proof -
  have c: "pc' = Mark_Alive sid" "c' = allocate_in_process (ce_junk (cr_env rq)) k sid mf ms sw (cr_alloc rq) (tctl s)"
    using assms(3) by simp_all
  note wf = threads_okD(1) [OF assms(1)]
  note v = vec_allocate_in_process [OF wf, of "ce_junk (cr_env rq)" k sid mf ms sw "cr_alloc rq", folded c(2)]
    and rc = allocate_in_process_redis [of "ce_junk (cr_env rq)" k sid mf ms sw "cr_alloc rq" "tctl s", folded c(2)]
    and wf' = table_wf_allocate_in_process [OF wf, of "ce_junk (cr_env rq)" k sid mf ms sw "cr_alloc rq", folded c(2)]
  show ?thesis
  proof (cases "vec (tctl s) k")
    case None
    then show ?thesis using v rc wf' c(1) by (intro client_quiet [OF assms(1,2)]) auto
  next
    case (Some xs)
    note pl = client_places [OF assms(1,2), of c' k xs sid pc']
    have x: "Held i \<in> places members s sid" using assms(2) by simp
    have "place_change strs members s (s\<lparr>tctl := c', clients := (clients s)(i \<mapsto> (rq, pc'))\<rparr>)"
      by (rule move_change [OF _ _ x, where y = "In_Process k"]) (use pl v rc Some c(1) in simp_all)
    then show ?thesis using wf' v rc Some c(1) pl(3) by (simp add: change_ok_def)
  qed
qed

lemma client_place_new:
  assumes "threads_ok strs members s" and "clients s i = Some (rq, Place_New sid mf ms sw)"
    and "hash_order (ce_place (cr_env rq))" and "draws_fresh api rq (Place_New sid mf ms sw) (tctl s)"
    and "client_step api cmd rq (Place_New sid mf ms sw) (tctl s) = (pc', c')"
  shows "change_ok strs members s (s\<lparr>tctl := c', clients := (clients s)(i \<mapsto> (rq, pc'))\<rparr>)"
proof (cases "allocate_new_process (ce_place (cr_env rq)) (ce_junk (cr_env rq)) (ce_process_uuid (cr_env rq)) (cr_pid rq)
        sid mf ms sw (cr_alloc rq) (tctl s)")
  case (Inl f)
  then show ?thesis using assms(5) threads_okD(1) [OF assms(1)] by (intro client_quiet [OF assms(1,2)]) auto
next
  case (Inr c1)
  let ?k = "take 16 (ce_process_uuid (cr_env rq))"
  have c: "pc' = Mark_Alive sid" "c1 = c'" using assms(5) Inr by simp_all
  note new = threads_okD(1) [OF assms(1)] assms(3) Inr [unfolded c(2)]
  note v = vec_allocate_new_process [OF new] and pl = client_places [OF assms(1,2), of c' ?k "[]" sid pc']
  have none: "vec (tctl s) ?k = None" using assms(4) by (simp add: draws_fresh_def vec_def)
  have x: "Held i \<in> places members s sid" using assms(2) by simp
  have "place_change strs members s (s\<lparr>tctl := c', clients := (clients s)(i \<mapsto> (rq, pc'))\<rparr>)"
    by (rule move_change [OF _ _ x, where y = "In_Process ?k"]) (use pl v none c(1) in simp_all)
  then show ?thesis using table_wf_allocate_new_process [OF new] v none c(1) pl(3) by (simp add: change_ok_def)
qed

lemma client_step_change:
  assumes "redis_ok api strs members" and "threads_ok strs members s" and "clients s i = Some (rq, pc)"
    and "hash_order (ce_place (cr_env rq))" and "draws_fresh api rq pc (tctl s)"
    and "client_step api cmd rq pc (tctl s) = (pc', c')"
  shows "change_ok strs members s (s\<lparr>tctl := c', clients := (clients s)(i \<mapsto> (rq, pc'))\<rparr>)"
proof -
  note ok = threads_okD [OF assms(2)] and quiet = client_quiet [OF assms(2,3)] and l = redis_laws [OF assms(1)]
  show ?thesis
  proof (cases pc)
    case Take_Swapped
    then show ?thesis using client_take_swapped [OF assms(1,2)] assms(3,6) by simp
  next
    case Store_Details
    then show ?thesis using client_store_details [OF assms(1,2)] assms(3,5,6) by simp
  next
    case (Place_In k sid mf ms sw)
    then show ?thesis using client_place_in [OF assms(2)] assms(3,6) by blast
  next
    case (Place_New sid mf ms sw)
    then show ?thesis using client_place_new [OF assms(2)] assms(3-6) by blast
  next
    case (Reserve k sid mf ms sw)
    have "table_wf (reserve k (resources (tctl s)))"
      unfolding reserve_def using ok(1) table_wfD(3) by (intro table_wf_update_process) auto
    then show ?thesis using Reserve assms(6) by (intro quiet) auto
  next
    case (Mark_Alive sid)
    then show ?thesis using assms(6) ok(1) by (intro quiet) (auto simp: command_result_def l split: command.splits)
  qed (use assms(6) ok(1) in \<open>intro quiet; auto simp: command_result_def Let_def split: command.splits option.splits prod.splits if_splits\<close>)+
qed

section \<open>Steps of closures\<close>

text \<open>
  A closure that has not begun names a session of its process, and no other such closure names it: a
  process reports the end of a session once.
\<close>

definition notices_ok :: "'r threads \<Rightarrow> bool" where
  "notices_ok s \<longleftrightarrow>
     (\<forall>i cl. closures s i = Some cl \<longrightarrow> cl_pc cl = Remove \<longrightarrow>
        (\<exists>xs. vec (tctl s) (cl_process cl) = Some xs \<and> cl_session cl \<in> set xs) \<and>
        (\<forall>j cl'. closures s j = Some cl' \<longrightarrow> cl_pc cl' = Remove \<longrightarrow> cl_session cl' = cl_session cl \<longrightarrow> j = i))"

lemma notices_okD:
  assumes "notices_ok s" and "closures s i = Some cl" and "cl_pc cl = Remove"
  obtains xs where "vec (tctl s) (cl_process cl) = Some xs" and "cl_session cl \<in> set xs"
  using assms unfolding notices_ok_def by blast

lemma closure_quiet:
  assumes "threads_ok strs members s" and "closures s i = Some cl"
    and "vec c' = vec (tctl s)" and "table_wf (resources c')" and "strs (redis_st c') = strs (redis_st (tctl s))"
    and "\<And>p. members (redis_st c') (swapped_key p) \<subseteq> members (redis_st (tctl s)) (swapped_key p)"
    and "pc' \<in> {Unlist, Swap} \<Longrightarrow> cl_pc cl \<in> {Unlist, Swap}"
  shows "change_ok strs members s (s\<lparr>tctl := c', closures := (closures s)(i \<mapsto> cl\<lparr>cl_pc := pc'\<rparr>)\<rparr>)"
proof -
  let ?t = "s\<lparr>tctl := c', closures := (closures s)(i \<mapsto> cl\<lparr>cl_pc := pc'\<rparr>)\<rparr>"
  have "places members ?t z \<subseteq> places members s z" for z
    using assms(2,3,6,7) by (intro places_subset) (auto split: if_splits)
  then show ?thesis
    using assms(3-5) threads_okD(2) [OF assms(1)] by (auto simp: change_ok_def intro!: quiet_change)
qed

lemma closure_remove:
  assumes "threads_ok strs members s" and "notices_ok s" and "closures s i = Some cl" and "cl_pc cl = Remove"
    and "c' = (tctl s)\<lparr>resources := remove_session (cl_process cl) (cl_session cl) (resources (tctl s))\<rparr>"
  obtains xs ys where "vec (tctl s) (cl_process cl) = Some xs" and "set ys = set xs - {cl_session cl}"
    and "vec c' = (vec (tctl s))(cl_process cl \<mapsto> ys)"
    and "change_ok strs members s (s\<lparr>tctl := c', closures := (closures s)(i \<mapsto> cl\<lparr>cl_pc := Unlist\<rparr>)\<rparr>)"
proof -
  let ?k = "cl_process cl" and ?sid = "cl_session cl"
    and ?t = "s\<lparr>tctl := c', closures := (closures s)(i \<mapsto> cl\<lparr>cl_pc := Unlist\<rparr>)\<rparr>"
  note ok = threads_okD [OF assms(1)]
  obtain xs where xs: "vec (tctl s) ?k = Some xs" "?sid \<in> set xs" by (rule notices_okD [OF assms(2-4)])
  then obtain p where p: "get_process ?k (resources (tctl s)) = Some p" "proc_sessions p = xs" by (auto simp: vec_def)
  obtain ys where ys: "set ys = set xs - {?sid}" "distinct ys"
      "\<And>x. get_process x (resources c') = (if x = ?k
        then Some (p\<lparr>allocated_sessions := allocated_sessions p - 1, proc_sessions := ys\<rparr>) else get_process x (resources (tctl s)))"
    using remove_session_effect [OF ok(1) p(1), of ?sid] ok(2) [OF xs(1)] xs(2) p(2) by (auto simp: assms(5))
  have v: "vec c' = (vec (tctl s))(?k \<mapsto> ys)" by (auto simp: vec_def ys(3) fun_eq_iff)
  have rc: "redis_st c' = redis_st (tctl s)" by (simp add: assms(5))
  have x: "In_Process ?k \<in> places members s ?sid" using xs by simp
  have "places members ?t ?sid \<subseteq> insert (Closing i) (places members s ?sid - {In_Process ?k})"
    using assms(3) by (intro places_subset) (auto simp: v ys(1) rc split: if_splits)
  then have "places members ?t ?sid \<subseteq> {Closing i}" using ok(3) [OF x] by simp
  moreover have "places members ?t z \<subseteq> places members s z" if "z \<noteq> ?sid" for z
    using that assms(3) xs by (intro places_subset) (auto simp: v ys(1) rc split: if_splits)
  ultimately have "place_change strs members s ?t"
    by (intro move_change [OF _ _ x]) (simp_all add: assms(5))
  then have "change_ok strs members s ?t"
    using ok(1,2) ys(2) by (simp add: change_ok_def v) (simp add: assms(5) table_wf_remove_session)
  then show ?thesis by (rule that [OF xs(1) ys(1) v])
qed

lemma closure_swap:
  assumes "redis_ok api strs members" and "threads_ok strs members s" and "closures s i = Some cl" and "cl_pc cl = Swap"
    and "c' = (tctl s)\<lparr>redis_st := sadd api (redis_st (tctl s)) (swapped_key g) (cl_session cl)\<rparr>"
    and "pc' \<notin> {Unlist, Swap}"
  shows "change_ok strs members s (s\<lparr>tctl := c', closures := (closures s)(i \<mapsto> cl\<lparr>cl_pc := pc'\<rparr>)\<rparr>)"
proof -
  let ?sid = "cl_session cl" and ?t = "s\<lparr>tctl := c', closures := (closures s)(i \<mapsto> cl\<lparr>cl_pc := pc'\<rparr>)\<rparr>"
  note ok = threads_okD [OF assms(2)] and l = redis_laws [OF assms(1)]
  have x: "Closing i \<in> places members s ?sid" using assms(3,4) by simp
  have "places members ?t ?sid \<subseteq> insert (Swapped_For g) (places members s ?sid - {Closing i})"
    using assms(3,6) by (intro places_subset) (auto simp: assms(5) l split: if_splits)
  then have "places members ?t ?sid \<subseteq> {Swapped_For g}" using ok(3) [OF x] by simp
  moreover have "places members ?t z \<subseteq> places members s z" if "z \<noteq> ?sid" for z
    using that assms(3,6) by (intro places_subset) (auto simp: assms(5) l split: if_splits)
  ultimately have "place_change strs members s ?t"
    by (intro move_change [OF _ _ x]) (simp_all add: assms(5) l)
  then show ?thesis using ok(1,2) by (simp add: change_ok_def assms(5))
qed

lemma closure_step_change:
  assumes "redis_ok api strs members" and "threads_ok strs members s" and "notices_ok s" and "closures s i = Some cl"
    and "closure_step api cmd cl (tctl s) = (pc', c')"
  shows "change_ok strs members s (s\<lparr>tctl := c', closures := (closures s)(i \<mapsto> cl\<lparr>cl_pc := pc'\<rparr>)\<rparr>)"
proof (cases "get_process (cl_process cl) (resources (tctl s))")
  case None
  then show ?thesis
    using assms(5) threads_okD(1) [OF assms(2)] by (intro closure_quiet [OF assms(2,4)]) (auto simp: closure_step_def)
next
  case (Some p)
  note quiet = closure_quiet [OF assms(2,4)] and l = redis_laws [OF assms(1)] and wf = threads_okD(1) [OF assms(2)]
  show ?thesis
  proof (cases "cl_pc cl")
    case Remove
    then have "pc' = Unlist" "c' = (tctl s)\<lparr>resources := remove_session (cl_process cl) (cl_session cl) (resources (tctl s))\<rparr>"
      using assms(5) Some by (simp_all add: closure_step_def)
    then show ?thesis using closure_remove [OF assms(2-4) Remove] by metis
  next
    case Swap
    show ?thesis
    proof (cases "cmd = Fails_Before")
      case True
      then show ?thesis using assms(5) Some Swap wf
        by (intro quiet) (auto simp: closure_step_def closure_command_def)
    next
      case False
      then show ?thesis using assms(5) Some Swap
        by (intro closure_swap [OF assms(1,2,4) Swap, of _ "global_process_id p"])
          (auto simp: closure_step_def closure_command_def split: command.splits)
    qed
  qed (use assms(5) Some wf in \<open>intro quiet; auto simp: closure_step_def closure_command_def l split: command.splits\<close>)+
qed

text \<open>A step leaves the closures that have not begun alone, except the one that begins.\<close>

lemma notices_kept:
  assumes "notices_ok s" and "closures t = closures s"
    and "\<And>k xs. vec (tctl s) k = Some xs \<Longrightarrow> \<exists>ys. vec (tctl t) k = Some ys \<and> set xs \<subseteq> set ys"
  shows "notices_ok t"
  unfolding notices_ok_def assms(2)
proof (intro allI impI conjI)
  fix i cl assume cl: "closures s i = Some cl" "cl_pc cl = Remove"
  obtain xs where "vec (tctl s) (cl_process cl) = Some xs" "cl_session cl \<in> set xs"
    by (rule notices_okD [OF assms(1) cl])
  with assms(3) show "\<exists>ys. vec (tctl t) (cl_process cl) = Some ys \<and> cl_session cl \<in> set ys" by blast
  show "j = i" if "closures s j = Some cl'" "cl_pc cl' = Remove" "cl_session cl' = cl_session cl" for j cl'
    using assms(1) cl that unfolding notices_ok_def by blast
qed

lemma notices_same: "notices_ok s \<Longrightarrow> closures t = closures s \<Longrightarrow> vec (tctl t) = vec (tctl s) \<Longrightarrow> notices_ok t"
  by (erule notices_kept) simp_all

lemma client_step_vec:
  assumes "threads_ok strs members s" and "hash_order (ce_place (cr_env rq))" and "draws_fresh api rq pc (tctl s)"
    and "client_step api cmd rq pc (tctl s) = (pc', c')" and "vec (tctl s) k = Some xs"
  shows "\<exists>ys. vec c' k = Some ys \<and> set xs \<subseteq> set ys"
proof -
  note wf = threads_okD(1) [OF assms(1)]
  show ?thesis
  proof (cases pc)
    case (Place_In k' sid mf ms sw)
    then show ?thesis
      using assms(4,5) vec_allocate_in_process(1) [OF wf, of "ce_junk (cr_env rq)" k' sid mf ms sw "cr_alloc rq"]
      by (auto split: option.splits)
  next
    case (Place_New sid mf ms sw)
    then have "vec (tctl s) (take 16 (ce_process_uuid (cr_env rq))) = None"
      using assms(3) by (simp add: draws_fresh_def vec_def)
    then have "k \<noteq> take 16 (ce_process_uuid (cr_env rq))" using assms(5) by auto
    then show ?thesis
      using assms(4,5) Place_New vec_allocate_new_process(1) [OF wf assms(2)] by (auto split: sum.splits)
  qed (use assms(4,5) in \<open>auto simp: command_result_def Let_def split: command.splits option.splits prod.splits if_splits\<close>)+
qed

lemma closure_step_notices:
  assumes "threads_ok strs members s" and "notices_ok s" and "closures s i = Some cl"
    and "closure_step api cmd cl (tctl s) = (pc', c')"
  shows "notices_ok (s\<lparr>tctl := c', closures := (closures s)(i \<mapsto> cl\<lparr>cl_pc := pc'\<rparr>)\<rparr>)"
proof (cases "cl_pc cl = Remove \<and> get_process (cl_process cl) (resources (tctl s)) \<noteq> None")
  case True
  then have c: "pc' = Unlist" "c' = (tctl s)\<lparr>resources := remove_session (cl_process cl) (cl_session cl) (resources (tctl s))\<rparr>"
    using assms(4) by (auto simp: closure_step_def)
  obtain xs ys where v: "vec (tctl s) (cl_process cl) = Some xs" "set ys = set xs - {cl_session cl}"
      "vec c' = (vec (tctl s))(cl_process cl \<mapsto> ys)"
    using closure_remove [OF assms(1-3) _ c(2)] True by metis
  have "cl_session cl' \<noteq> cl_session cl" if "closures s j = Some cl'" "cl_pc cl' = Remove" "j \<noteq> i" for j cl'
    using assms(2,3) True that unfolding notices_ok_def by blast
  moreover have "\<exists>zs. vec c' (cl_process cl') = Some zs \<and> cl_session cl' \<in> set zs"
    if other: "closures s j = Some cl'" "cl_pc cl' = Remove" "j \<noteq> i" for j cl'
  proof -
    obtain zs where "vec (tctl s) (cl_process cl') = Some zs" "cl_session cl' \<in> set zs"
      using notices_okD [OF assms(2) other(1,2)] by blast
    then show ?thesis using calculation [OF other] v by (cases "cl_process cl' = cl_process cl") auto
  qed
  ultimately show ?thesis
    using assms(2) c(1) unfolding notices_ok_def by (auto split: if_splits)
next
  case False
  then have "vec c' = vec (tctl s)" "pc' \<noteq> Remove"
    using assms(4) by (auto simp: closure_step_def closure_command_def split: option.splits closure_pc.splits command.splits)
  then show ?thesis using assms(2,3) unfolding notices_ok_def by (auto split: if_splits)
qed

section \<open>The machine\<close>

definition threads_inv ::
  "('r \<Rightarrow> string \<rightharpoonup> string) \<Rightarrow> ('r \<Rightarrow> string \<Rightarrow> string set) \<Rightarrow> 'r threads \<Rightarrow> bool" where
  "threads_inv strs members s \<longleftrightarrow> threads_ok strs members s \<and> notices_ok s"

lemma other_quiet:
  assumes "threads_ok strs members s" and "vec c' = vec (tctl s)" and "table_wf (resources c')"
    and "\<And>z. strs (redis_st c') (session_key z) = strs (redis_st (tctl s)) (session_key z)"
    and "members (redis_st c') = members (redis_st (tctl s))"
  shows "change_ok strs members s (s\<lparr>tctl := c'\<rparr>)"
proof -
  have "places members (s\<lparr>tctl := c'\<rparr>) z \<subseteq> places members s z" for z
    using assms(2,5) by (intro places_subset) auto
  then show ?thesis
    using assms(2-4) threads_okD(2) [OF assms(1)] by (auto simp: change_ok_def intro!: quiet_change)
qed

lemma process_allocation_effect:
  assumes "redis_ok api strs members" and "c' = snd (process_allocation api uuid name c)"
  shows "vec c' = vec c" and "resources c' = resources c" and "members (redis_st c') = members (redis_st c)"
    and "strs (redis_st c') (session_key z) = strs (redis_st c) (session_key z)"
  using redis_laws [OF assms(1)] keys_differ
  by (auto simp: assms(2) process_allocation_def Let_def dest: sym)

lemma thread_step_change:
  assumes "redis_ok api strs members" and "threads_inv strs members s" and "thread_step api fails s t"
  shows "change_ok strs members s t \<and> notices_ok t"
proof -
  have ok: "threads_ok strs members s" "notices_ok s" using assms(2) by (simp_all add: threads_inv_def)
  note D = threads_okD [OF ok(1)]
  from assms(3) show ?thesis
  proof (cases rule: thread_step.cases)
    case (arrive i rq)
    have "places members t z \<subseteq> places members s z" for z
      by (intro places_subset) (auto simp: arrive split: if_splits)
    then have "place_change strs members s t" by (rule quiet_change) (simp add: arrive)
    moreover have "notices_ok t" by (rule notices_same [OF ok(2)]) (simp_all add: arrive)
    ultimately show ?thesis using D(1,2) by (simp add: change_ok_def arrive)
  next
    case (client i rq pc cmd pc' c')
    have "notices_ok t"
      by (rule notices_kept [OF ok(2)]) (use client(1) client_step_vec [OF ok(1) client(3,4,6)] in simp_all)
    then show ?thesis using client_step_change [OF assms(1) ok(1) client(2-4,6)] client(1) by simp
  next
    case (notice i k p sid)
    have "places members t z \<subseteq> places members s z" for z
      by (intro places_subset) (auto simp: notice split: if_splits)
    then have "place_change strs members s t" by (rule quiet_change) (simp add: notice)
    moreover have "notices_ok t"
      using ok(2) notice by (auto simp: notices_ok_def vec_def split: if_splits)
    ultimately show ?thesis using D(1,2) by (simp add: change_ok_def notice)
  next
    case (closure i cl cmd pc' c')
    then show ?thesis
      using closure_step_change [OF assms(1) ok closure(2,4)] closure_step_notices [OF ok closure(2,4)] by simp
  next
    case (process ok' h buf c')
    note v = process_process_vec [OF process(2)] and wf = table_wf_process_process [OF D(1) process(2)]
    show ?thesis unfolding process(1)
      by (intro conjI other_quiet [OF ok(1)] notices_same [OF ok(2)]) (simp_all add: v wf)
  next
    case (session h buf)
    show ?thesis unfolding session
      by (intro conjI other_quiet [OF ok(1)] notices_same [OF ok(2)])
        (simp_all add: process_session_vec table_wf_process_session D(1))
  next
    case (allocation uuid name)
    note e = process_allocation_effect [OF assms(1) refl, of uuid name "tctl s"]
    show ?thesis unfolding allocation
      by (intro conjI other_quiet [OF ok(1)] notices_same [OF ok(2)]) (simp_all add: e D(1))
  qed
qed

lemma threads_machine:
  assumes "redis_ok api strs members"
  shows "invariant_machine (thread_step api fails) (threads_inv strs members)"
proof
  fix s t assume "thread_step api fails s t" and i: "threads_inv strs members s"
  then have "change_ok strs members s t" "notices_ok t" using thread_step_change [OF assms] by blast+
  then show "threads_inv strs members t"
    using i place_change_ok unfolding threads_inv_def change_ok_def by metis
qed

lemma threads_init_inv:
  assumes "tables_ok strs members rs Map.empty"
  shows "threads_inv strs members (threads_init rs b)"
proof -
  let ?s = "threads_init rs b"
  have v: "vec (tctl ?s) = Map.empty"
    by (simp add: threads_init_def vec_def fun_eq_iff server_init_def Resources_init_def get_process_def)
  have pl: "places members ?s sid = {Swapped_For pid |pid. sid \<in> members rs (swapped_key pid)}" for sid
    unfolding places_def v by (auto simp: threads_init_def server_init_def)
  have "threads_ok strs members ?s"
    unfolding threads_ok_def v pl using tables_okD(4,6) [OF assms]
    by (auto simp: threads_init_def server_init_def known_def table_wf_def Resources_init_def get_process_def) blast
  then show ?thesis by (simp add: threads_inv_def notices_ok_def threads_init_def)
qed

lemma threads_reach:
  assumes "redis_ok api strs members" and "tables_ok strs members rs Map.empty"
    and "reaches (thread_step api fails) (threads_init rs b) s"
  shows "threads_inv strs members s"
  by (rule invariant_machine.reaches_inv [OF threads_machine [OF assms(1)] assms(3) threads_init_inv [OF assms(2)]])

end
