(* ===== verification/Client_Races.thy ===== *)
theory Client_Races
  imports Client_Threads
begin

text \<open>
  What the interleavings of client requests and closures can and cannot do to a session: it is in
  at most one place, it is never lost while Redis answers, a command that fails in the middle of a swap-in loses
  it for ever, and a closure that overtakes a request locks it for ever.
\<close>

section \<open>A session that is nowhere\<close>






section \<open>A session that is alive and swapped\<close>

text \<open>
  Listed both as alive and as swapped, while no thread is about to correct it: no request is past the
  test that refuses a session that is alive, and no closure has yet to take it off the list.
\<close>

definition stuck :: "('r \<Rightarrow> string \<Rightarrow> string set) \<Rightarrow> string \<Rightarrow> string \<Rightarrow> 'r threads \<Rightarrow> bool" where
  "stuck members pid sid s \<longleftrightarrow>
     sid \<in> members (redis_st (tctl s)) (alive_key pid) \<and> sid \<in> members (redis_st (tctl s)) (swapped_key pid) \<and>
     (\<forall>i rq. clients s i = Some (rq, Take_Swapped) \<longrightarrow> (cr_pid rq, cr_sid rq) \<noteq> (pid, sid)) \<and>
     (\<forall>i cl. closures s i = Some cl \<longrightarrow> cl_session cl = sid \<longrightarrow> cl_pc cl \<noteq> Unlist_Global)"

fun client_command :: "'r redis \<Rightarrow> client_request \<Rightarrow> client_pc \<Rightarrow> 'r \<Rightarrow> 'r" where
  "client_command api rq Take_Swapped rs = snd (srem api rs (swapped_key (cr_pid rq)) (cr_sid rq))"
| "client_command api rq Store_Details rs =
     rset api rs (session_key (take 16 (ce_session_uuid (cr_env rq)))) (to_string32 (cr_ms rq) @ '';'' @ to_string32 (cr_mf rq))"
| "client_command api rq (Mark_Alive sid) rs = sadd api rs (alive_key (cr_pid rq)) sid"
| "client_command api rq pc rs = rs"

lemma client_step_redis:
  assumes "client_step api cmd rq pc c = (pc', c')"
  shows "redis_st c' = redis_st c \<or> redis_st c' = client_command api rq pc (redis_st c)"
proof (cases pc)
  case (Place_New sid mf ms sw)
  then show ?thesis using assms by (auto dest: allocate_new_process_redis split: sum.splits)
qed (use assms in \<open>auto simp: command_result_def case_prod_beta Let_def split: command.splits\<close>)

lemma client_step_lists:
  assumes "redis_ok api strs members" and "client_step api cmd rq pc c = (pc', c')"
  shows "sid \<in> members (redis_st c) (alive_key pid) \<Longrightarrow> sid \<in> members (redis_st c') (alive_key pid)"
    and "pc \<noteq> Take_Swapped \<or> (cr_pid rq, cr_sid rq) \<noteq> (pid, sid) \<Longrightarrow>
      sid \<in> members (redis_st c) (swapped_key pid) \<Longrightarrow> sid \<in> members (redis_st c') (swapped_key pid)"
  using client_step_redis [OF assms(2)] redis_laws [OF assms(1)] by (cases pc; auto)+

lemma client_step_to_take:
  assumes "redis_ok api strs members" and "client_step api cmd rq pc c = (Take_Swapped, c')"
  shows "pc = Check_Alive \<and> cr_sid rq \<notin> members (redis_st c) (alive_key (cr_pid rq)) \<or> pc = Take_Swapped"
  using assms(2) redis_laws(4) [OF assms(1)]
  by (cases pc) (auto simp: command_result_def case_prod_beta Let_def split: command.splits option.splits sum.splits if_splits)

lemma closure_step_lists:
  assumes "redis_ok api strs members" and "closure_step api cmd cl c = (pc', c')"
  shows "members (redis_st c) (swapped_key pid) \<subseteq> members (redis_st c') (swapped_key pid)"
    and "cl_session cl \<noteq> sid \<or> cl_pc cl \<notin> {Unlist, Unlist_Global} \<Longrightarrow>
      sid \<in> members (redis_st c) (alive_key pid) \<Longrightarrow> sid \<in> members (redis_st c') (alive_key pid)"
    and "pc' = Unlist_Global \<Longrightarrow> cl_pc cl \<in> {Swap, Unlist_Global}"
  using assms(2) redis_laws [OF assms(1)]
  by (auto simp: closure_step_def closure_command_def split: option.splits closure_pc.splits command.splits)

lemma stuck_step:
  assumes "redis_ok api strs members" and "threads_inv strs members s" and "thread_step api fails s t"
    and "stuck members pid sid s"
  shows "stuck members pid sid t"
proof -
  have alive: "sid \<in> members (redis_st (tctl s)) (alive_key pid)" and sw: "sid \<in> members (redis_st (tctl s)) (swapped_key pid)"
    and cli: "\<And>i rq. clients s i = Some (rq, Take_Swapped) \<Longrightarrow> (cr_pid rq, cr_sid rq) \<noteq> (pid, sid)"
    and clo: "\<And>i cl. closures s i = Some cl \<Longrightarrow> cl_session cl = sid \<Longrightarrow> cl_pc cl \<noteq> Unlist_Global"
    using assms(4) unfolding stuck_def by blast+
  have "places members s sid = {Swapped_For pid}"
    using assms(2) sw threads_okD(3) [of strs members s "Swapped_For pid" sid] by (simp add: threads_inv_def)
  then have nowhere: "In_Process k \<notin> places members s sid" "Closing i \<notin> places members s sid" for k i by simp_all
  from assms(3) show ?thesis
  proof (cases rule: thread_step.cases)
    case (client i rq pc cmd pc' c')
    have "(cr_pid rq, cr_sid rq) \<noteq> (pid, sid)" if "pc' = Take_Swapped"
      using client_step_to_take [OF assms(1) client(6) [unfolded that]] cli client(2) alive by auto
    moreover have "pc \<noteq> Take_Swapped \<or> (cr_pid rq, cr_sid rq) \<noteq> (pid, sid)" using cli client(2) by blast
    ultimately show ?thesis
      using client_step_lists(1) [OF assms(1) client(6), of sid pid] client_step_lists(2) [OF assms(1) client(6), of pid sid]
        alive sw cli clo
      by (simp add: stuck_def client(1))
  next
    case (closure i cl cmd pc' c')
    have cl: "cl_session cl \<noteq> sid \<or> cl_pc cl \<notin> {Unlist, Swap, Unlist_Global}"
      using nowhere(2) [of i] clo closure(2) by auto
    then have "cl_session cl = sid \<Longrightarrow> pc' \<noteq> Unlist_Global"
      using closure_step_lists(3) [OF assms(1) closure(4)] by auto
    then show ?thesis
      using closure_step_lists(1) [OF assms(1) closure(4), of pid] closure_step_lists(2) [OF assms(1) closure(4), of sid pid]
        cl alive sw cli clo
      by (auto simp: stuck_def closure(1))
  next
    case (process ok h buf c')
    then show ?thesis using alive sw cli clo process_process_vec(2) [OF process(2)] by (simp add: stuck_def)
  next
    case (allocation uuid name)
    then show ?thesis
      using alive sw cli clo process_allocation_effect(3) [OF assms(1) refl, of uuid name "tctl s"] by (simp add: stuck_def)
  qed (use alive sw cli clo in \<open>simp_all add: stuck_def process_session_vec\<close>)
qed

lemma stuck_machine:
  assumes "redis_ok api strs members"
  shows "invariant_machine (thread_step api fails) (\<lambda>s. threads_inv strs members s \<and> stuck members pid sid s)"
  by standard (use stuck_step [OF assms] invariant_machine.step_inv [OF threads_machine [OF assms]] in blast)

lemma stuck_refused:
  assumes "redis_ok api strs members" and "stuck members pid sid s" and "cr_pid rq = pid" and "cr_sid rq = sid"
  shows "client_step api Reply rq Check_Alive (tctl s) = (Answered 400 ''Session is already alive!'', tctl s)"
  using assms(2-4) redis_laws(4) [OF assms(1)] by (simp add: stuck_def command_result_def)

section \<open>Without failures no session is lost\<close>

text \<open>A request that chose a process, and a closure, refer to a process of the table.\<close>

fun target :: "client_pc \<Rightarrow> string option" where
  "target (Reserve k sid mf ms sw) = Some k"
| "target (Place_In k sid mf ms sw) = Some k"
| "target pc = None"

definition targets_ok :: "'r threads \<Rightarrow> bool" where
  "targets_ok s \<longleftrightarrow>
     (\<forall>i rq pc k. clients s i = Some (rq, pc) \<longrightarrow> target pc = Some k \<longrightarrow> vec (tctl s) k \<noteq> None) \<and>
     (\<forall>i cl. closures s i = Some cl \<longrightarrow> vec (tctl s) (cl_process cl) \<noteq> None)"

lemma remove_session_dom: "get_process k (remove_session k' sid r) = None \<longleftrightarrow> get_process k r = None"
  by (auto simp: remove_session_def Let_def split: option.splits)

lemma closure_step_vec_dom:
  "closure_step api cmd cl c = (pc', c') \<Longrightarrow> vec c' k = None \<longleftrightarrow> vec c k = None"
  by (auto simp: closure_step_def closure_command_def vec_def remove_session_dom split: option.splits closure_pc.splits command.splits)

lemma thread_step_vec_dom:
  assumes "threads_inv strs members s" and "thread_step api fails s t" and "vec (tctl s) k \<noteq> None"
  shows "vec (tctl t) k \<noteq> None"
  using assms(2)
proof (cases rule: thread_step.cases)
  case (client i rq pc cmd pc' c')
  obtain xs where "vec (tctl s) k = Some xs" using assms(3) by blast
  then show ?thesis
    using client_step_vec [OF assms(1) [unfolded threads_inv_def, THEN conjunct1] client(3,4,6)] client(1) by fastforce
next
  case (closure i cl cmd pc' c')
  then show ?thesis using closure_step_vec_dom [OF closure(4)] assms(3) by simp
next
  case (process ok h buf c')
  then show ?thesis using process_process_vec(1) [OF process(2)] assms(3) by simp
next
  case (allocation uuid name)
  then show ?thesis using assms(3) by (simp add: process_allocation_def vec_def Let_def)
qed (use assms(3) in \<open>simp_all add: process_session_vec\<close>)

lemma find_free_in: "find_free r = Some k \<Longrightarrow> get_process k r \<noteq> None"
  by (auto simp: find_free_def get_process_def find_Some_iff map_of_eq_None_iff dest!: nth_mem intro: rev_image_eqI)

lemma client_step_target:
  assumes "client_step api cmd rq pc c = (pc', c')" and "target pc' = Some k"
  shows "vec c k \<noteq> None \<or> target pc = Some k"
  using assms find_free_in [of "resources c" k]
  by (cases pc) (auto simp: command_result_def case_prod_beta Let_def vec_def split: command.splits option.splits sum.splits if_splits)

lemma targets_step:
  assumes "threads_inv strs members s" and "thread_step api fails s t" and "targets_ok s"
  shows "targets_ok t"
proof -
  note mono = thread_step_vec_dom [OF assms(1,2)]
  have cli: "vec (tctl t) k \<noteq> None" if "clients s i = Some (rq, pc)" "target pc = Some k" for i rq pc k
    using that assms(3) mono unfolding targets_ok_def by blast
  have clo: "vec (tctl t) (cl_process cl) \<noteq> None" if "closures s i = Some cl" for i cl
    using that assms(3) mono unfolding targets_ok_def by blast
  from assms(2) show ?thesis
  proof (cases rule: thread_step.cases)
    case (client i rq pc cmd pc' c')
    have "vec (tctl t) k \<noteq> None" if "target pc' = Some k" for k
      using client_step_target [OF client(6) that] mono cli client(2) by blast
    moreover have "clients t j = (if j = i then Some (rq, pc') else clients s j)" "closures t = closures s" for j
      by (simp_all add: client(1))
    ultimately show ?thesis using cli clo unfolding targets_ok_def by (auto split: if_splits)
  next
    case (notice i k p sid)
    have "vec (tctl t) k \<noteq> None" using notice by (simp add: vec_def)
    moreover have "closures t j = (if j = i then Some \<lparr>cl_process = k, cl_session = sid, cl_pc = Remove\<rparr> else closures s j)"
      "clients t = clients s" for j by (simp_all add: notice(1))
    ultimately show ?thesis using cli clo unfolding targets_ok_def by (auto split: if_splits)
  next
    case (closure i cl cmd pc' c')
    have "closures t j = (if j = i then Some (cl\<lparr>cl_pc := pc'\<rparr>) else closures s j)" "clients t = clients s" for j
      by (simp_all add: closure(1))
    then show ?thesis using cli clo closure(2) unfolding targets_ok_def by (auto split: if_splits)
  next
    case (arrive i rq)
    have "clients t j = (if j = i then Some (rq, Lookup) else clients s j)" "closures t = closures s" for j
      by (simp_all add: arrive(1))
    then show ?thesis using cli clo unfolding targets_ok_def by (auto split: if_splits)
  qed (use cli clo in \<open>simp_all add: targets_ok_def\<close>)
qed

lemma client_step_holds:
  assumes "redis_ok api strs members" and "table_wf (resources c)" and "hash_order (ce_place (cr_env rq))"
    and "client_step api Reply rq pc c = (pc', c')" and "no_crash pc'" and "holding rq pc = Some sid"
    and "strs (redis_st c) (session_key sid) \<noteq> None" and "\<And>k. target pc = Some k \<Longrightarrow> vec c k \<noteq> None"
  shows "holding rq pc' = Some sid \<or> (\<exists>k xs. vec c' k = Some xs \<and> sid \<in> set xs)"
proof (cases pc)
  case Read_Details
  then show ?thesis using assms(4,6,7) redis_laws(1) [OF assms(1), of "session_key sid" "redis_st c"]
    by (auto simp: command_result_def case_prod_beta Let_def)
next
  case (Place_In k sid' mf ms sw)
  then obtain xs where "vec c k = Some xs" "sid' = sid" using assms(6,8) by auto
  then show ?thesis
    using Place_In assms(4) vec_allocate_in_process [OF assms(2), of "ce_junk (cr_env rq)" k sid mf ms sw "cr_alloc rq"]
    by (auto intro!: exI [of _ k])
next
  case (Place_New sid' mf ms sw)
  then show ?thesis
    using assms(4-6) vec_allocate_new_process(1) [OF assms(2,3)]
    by (auto simp: no_crash_def split: sum.splits intro!: exI [of _ "take 16 (ce_process_uuid (cr_env rq))"])
qed (use assms(4,6) in \<open>auto split: option.splits\<close>)

lemma client_step_takes:
  assumes "redis_ok api strs members" and "client_step api Reply rq Take_Swapped c = (pc', c')"
    and "cr_sid rq \<in> members (redis_st c) (swapped_key (cr_pid rq))"
  shows "holding rq pc' = Some (cr_sid rq)"
  using assms(2,3) redis_laws(7) [OF assms(1), of "swapped_key (cr_pid rq)" "redis_st c" "cr_sid rq"]
  by (auto simp: command_result_def case_prod_beta Let_def split: if_splits)

lemma client_keeps_held:
  assumes "redis_ok api strs members" and "threads_ok strs members s" and "targets_ok s"
    and "clients s i = Some (rq, pc)" and "hash_order (ce_place (cr_env rq))"
    and "client_step api Reply rq pc (tctl s) = (pc', c')" and "no_crash pc'" and "holding rq pc = Some sid"
  shows "\<exists>y. y \<in> places members (s\<lparr>tctl := c', clients := (clients s)(i \<mapsto> (rq, pc'))\<rparr>) sid"
proof -
  have "Held i \<in> places members s sid" using assms(4,8) by simp
  then have known: "strs (redis_st (tctl s)) (session_key sid) \<noteq> None" using threads_okD(4) [OF assms(2), of sid] by blast
  have "holding rq pc' = Some sid \<or> (\<exists>k xs. vec c' k = Some xs \<and> sid \<in> set xs)"
    by (rule client_step_holds [OF assms(1) threads_okD(1) [OF assms(2)] assms(5-8) known])
      (use assms(3,4) in \<open>unfold targets_ok_def, blast\<close>)
  then show ?thesis
  proof (elim disjE exE)
    assume "holding rq pc' = Some sid"
    then show ?thesis by (intro exI [of _ "Held i"]) simp
  next
    fix k xs assume "vec c' k = Some xs \<and> sid \<in> set xs"
    then show ?thesis by (intro exI [of _ "In_Process k"]) simp
  qed
qed

lemma client_keeps_session:
  assumes "redis_ok api strs members" and "threads_inv strs members s" and "targets_ok s"
    and "clients s i = Some (rq, pc)" and "hash_order (ce_place (cr_env rq))" and "draws_fresh api rq pc (tctl s)"
    and "client_step api Reply rq pc (tctl s) = (pc', c')" and "no_crash pc'" and "x \<in> places members s sid"
  shows "places members (s\<lparr>tctl := c', clients := (clients s)(i \<mapsto> (rq, pc'))\<rparr>) sid \<noteq> {}"
proof -
  let ?t = "s\<lparr>tctl := c', clients := (clients s)(i \<mapsto> (rq, pc'))\<rparr>"
  have ok: "threads_ok strs members s" using assms(2) by (simp add: threads_inv_def)
  have "\<exists>y. y \<in> places members ?t sid"
  proof (cases x)
    case (In_Process k)
    then obtain xs where "vec (tctl s) k = Some xs" "sid \<in> set xs" using assms(9) by auto
    then show ?thesis using client_step_vec [OF ok assms(5-7)] by (intro exI [of _ "In_Process k"]) fastforce
  next
    case (Swapped_For p)
    then have sw: "sid \<in> members (redis_st (tctl s)) (swapped_key p)" using assms(9) by simp
    show ?thesis
    proof (cases "pc = Take_Swapped \<and> (cr_pid rq, cr_sid rq) = (p, sid)")
      case True
      then show ?thesis using client_step_takes [OF assms(1), of rq "tctl s" pc' c'] assms(7) sw
        by (intro exI [of _ "Held i"]) auto
    next
      case False
      then show ?thesis using client_step_lists(2) [OF assms(1,7), of p sid] sw
        by (intro exI [of _ "Swapped_For p"]) auto
    qed
  next
    case (Held j)
    show ?thesis
    proof (cases "j = i")
      case True
      then have "holding rq pc = Some sid" using assms(4,9) Held by simp
      then show ?thesis by (rule client_keeps_held [OF assms(1) ok assms(3-5,7,8)])
    next
      case False
      then show ?thesis using assms(9) Held by (intro exI [of _ "Held j"]) simp
    qed
  next
    case (Closing j)
    then show ?thesis using assms(9) by (intro exI [of _ "Closing j"]) simp
  qed
  then show ?thesis by blast
qed

lemma closure_step_vec:
  assumes "threads_inv strs members s" and "closures s i = Some cl" and "get_process (cl_process cl) (resources (tctl s)) = Some p"
    and "closure_step api cmd cl (tctl s) = (pc', c')" and "vec (tctl s) k = Some xs" and "sid \<in> set xs"
  shows "(\<exists>ws. vec c' k = Some ws \<and> sid \<in> set ws) \<or> cl_session cl = sid \<and> pc' = Unlist"
proof (cases "cl_pc cl = Remove")
  case True
  have ok: "threads_ok strs members s" "notices_ok s" using assms(1) by (simp_all add: threads_inv_def)
  have c: "pc' = Unlist" "c' = (tctl s)\<lparr>resources := remove_session (cl_process cl) (cl_session cl) (resources (tctl s))\<rparr>"
    using assms(3,4) True by (simp_all add: closure_step_def)
  obtain zs ys where v: "vec (tctl s) (cl_process cl) = Some zs" "set ys = set zs - {cl_session cl}"
      "vec c' = (vec (tctl s))(cl_process cl \<mapsto> ys)"
    using closure_remove [OF ok assms(2) True c(2)] by metis
  then have "\<exists>ws. vec c' k = Some ws \<and> sid \<in> set ws" if "sid \<noteq> cl_session cl"
    unfolding v(3) using that v(1,2) assms(5,6) by (cases "k = cl_process cl") auto
  with c(1) show ?thesis by blast
next
  case False
  then have "vec c' = vec (tctl s)"
    using assms(3,4) by (auto simp: closure_step_def closure_command_def split: closure_pc.splits command.splits)
  with assms(5,6) show ?thesis by simp
qed

lemma closure_keeps_session:
  assumes "redis_ok api strs members" and "threads_inv strs members s" and "targets_ok s"
    and "closures s i = Some cl" and "closure_step api Reply cl (tctl s) = (pc', c')" and "x \<in> places members s sid"
  shows "places members (s\<lparr>tctl := c', closures := (closures s)(i \<mapsto> cl\<lparr>cl_pc := pc'\<rparr>)\<rparr>) sid \<noteq> {}"
proof -
  let ?t = "s\<lparr>tctl := c', closures := (closures s)(i \<mapsto> cl\<lparr>cl_pc := pc'\<rparr>)\<rparr>"
  obtain p where p: "get_process (cl_process cl) (resources (tctl s)) = Some p"
    using assms(3,4) unfolding targets_ok_def vec_def by fastforce
  have "\<exists>y. y \<in> places members ?t sid"
  proof (cases x)
    case (In_Process k)
    then obtain xs where xs: "vec (tctl s) k = Some xs" "sid \<in> set xs" using assms(6) by auto
    from closure_step_vec [OF assms(2,4) p assms(5) xs] show ?thesis
    proof
      assume "\<exists>ws. vec c' k = Some ws \<and> sid \<in> set ws"
      then show ?thesis by (intro exI [of _ "In_Process k"]) simp
    next
      assume "cl_session cl = sid \<and> pc' = Unlist"
      then show ?thesis by (intro exI [of _ "Closing i"]) simp
    qed
  next
    case (Swapped_For g)
    then show ?thesis using closure_step_lists(1) [OF assms(1,5), of g] assms(6)
      by (intro exI [of _ "Swapped_For g"]) auto
  next
    case (Held j)
    then show ?thesis using assms(6) by (intro exI [of _ "Held j"]) simp
  next
    case (Closing j)
    have swap: "sid \<in> members (redis_st c') (swapped_key (global_process_id p))" if "j = i" "pc' \<notin> {Unlist, Swap}"
      using that assms(4-6) Closing p redis_laws(5) [OF assms(1)] by (auto simp: closure_step_def closure_command_def)
    show ?thesis
    proof (cases "j = i \<and> pc' \<notin> {Unlist, Swap}")
      case True
      with swap show ?thesis by (intro exI [of _ "Swapped_For (global_process_id p)"]) simp
    next
      case False
      then show ?thesis using assms(4,6) Closing by (intro exI [of _ "Closing j"]) auto
    qed
  qed
  then show ?thesis by blast
qed

lemma kept_step:
  assumes "redis_ok api strs members" and "threads_inv strs members s" and "targets_ok s" and "thread_step api False s t"
    and "places members s sid \<noteq> {}"
  shows "places members t sid \<noteq> {}"
proof -
  obtain x where x: "x \<in> places members s sid" using assms(5) by blast
  have same: "x \<in> places members (s\<lparr>tctl := c'\<rparr>) sid"
    if "vec c' = vec (tctl s)" "members (redis_st c') = members (redis_st (tctl s))" for c'
    using x that by (cases x) simp_all
  from assms(4) show ?thesis
  proof (cases rule: thread_step.cases)
    case (arrive i rq)
    then have "x \<in> places members t sid" using x by (cases x) auto
    then show ?thesis by blast
  next
    case (client i rq pc cmd pc' c')
    then show ?thesis using client_keeps_session [OF assms(1-3) client(2-4) _ client(7) x] by simp
  next
    case (notice i k p sid')
    then have "x \<in> places members t sid" using x by (cases x) auto
    then show ?thesis by blast
  next
    case (closure i cl cmd pc' c')
    then show ?thesis using closure_keeps_session [OF assms(1-3) closure(2) _ x] by simp
  next
    case (process ok h buf c')
    then show ?thesis using same [of c'] process_process_vec [OF process(2)] by auto
  next
    case (session h buf)
    then show ?thesis using same [of "process_session h buf (tctl s)"] by (auto simp: process_session_vec)
  next
    case (allocation uuid name)
    then show ?thesis
      using same [OF process_allocation_effect(1,3) [OF assms(1) refl, of uuid name "tctl s"]] by auto
  qed
qed

text \<open>The session a client has been, or is about to be, given.\<close>

fun promised :: "client_pc \<Rightarrow> string option" where
  "promised (Mark_Alive sid) = Some sid"
| "promised (Answered code msg) = (if code = 200 then Some msg else None)"
| "promised pc = None"

definition promises_ok :: "('r \<Rightarrow> string \<Rightarrow> string set) \<Rightarrow> 'r threads \<Rightarrow> bool" where
  "promises_ok members s \<longleftrightarrow>
     (\<forall>i rq pc sid. clients s i = Some (rq, pc) \<longrightarrow> promised pc = Some sid \<longrightarrow> places members s sid \<noteq> {})"

lemma client_step_promised:
  assumes "client_step api Reply rq pc c = (pc', c')" and "promised pc' = Some sid"
  shows "promised pc = Some sid \<or> holding rq pc = Some sid"
  using assms by (cases pc) (auto simp: command_result_def case_prod_beta Let_def split: option.splits sum.splits if_splits)

lemma promises_step:
  assumes "redis_ok api strs members" and "threads_inv strs members s" and "targets_ok s" and "thread_step api False s t"
    and "promises_ok members s"
  shows "promises_ok members t"
proof -
  note kept = kept_step [OF assms(1-4)]
  have old: "places members t sid \<noteq> {}" if "clients s i = Some (rq, pc)" "promised pc = Some sid" for i rq pc sid
    using that assms(5) kept unfolding promises_ok_def by blast
  from assms(4) show ?thesis
  proof (cases rule: thread_step.cases)
    case (arrive i rq)
    have "clients t j = (if j = i then Some (rq, Lookup) else clients s j)" for j by (simp add: arrive(1))
    then show ?thesis using old unfolding promises_ok_def by (auto split: if_splits)
  next
    case (client i rq pc cmd pc' c')
    have "places members t sid \<noteq> {}" if "promised pc' = Some sid" for sid
    proof -
      have "promised pc = Some sid \<or> holding rq pc = Some sid"
        using client_step_promised [of api rq pc "tctl s" pc' c'] client(5,6) that by auto
      moreover have "places members s sid \<noteq> {}" if "holding rq pc = Some sid"
      proof -
        have "Held i \<in> places members s sid" using client(2) that by simp
        then show ?thesis by blast
      qed
      ultimately show ?thesis using old [OF client(2)] kept by blast
    qed
    moreover have "clients t j = (if j = i then Some (rq, pc') else clients s j)" for j by (simp add: client(1))
    ultimately show ?thesis using old unfolding promises_ok_def by (auto split: if_splits)
  qed (use old in \<open>simp_all add: promises_ok_def\<close>)
qed

lemma promises_machine:
  assumes "redis_ok api strs members"
  shows "invariant_machine (thread_step api False)
    (\<lambda>s. threads_inv strs members s \<and> targets_ok s \<and> promises_ok members s)"
proof
  fix s t assume step: "thread_step api False s t"
    and i: "threads_inv strs members s \<and> targets_ok s \<and> promises_ok members s"
  show "threads_inv strs members t \<and> targets_ok t \<and> promises_ok members t"
    using i invariant_machine.step_inv [OF threads_machine [OF assms] step] targets_step [OF _ step]
      promises_step [OF assms _ _ step] by blast
qed

section \<open>Properties\<close>

text \<open>
  C6: requests and closures that interleave, command of Redis by command of Redis, keep every session in
  at most one place: the vector of one process, the swapped sessions of one client, one request that took
  it, or one closure that has yet to store it. So of any number of concurrent requests for a swapped
  session one gets it, and no session is entered in two processes, also when commands of Redis fail.
\<close>

theorem threads_one_place:
  assumes "redis_ok api strs members" and "tables_ok strs members rs Map.empty"
    and "reaches (thread_step api fails) (threads_init rs b) s"
    and "x \<in> places members s sid" and "y \<in> places members s sid"
  shows "x = y"
  using threads_reach [OF assms(1-3)] assms(4,5) unfolding threads_inv_def threads_ok_def by blast

text \<open>
  C7: while the commands of Redis succeed, no interleaving loses a session: one whose identifier a client
  was given is afterwards in exactly one of these places, in every state.
\<close>

theorem answered_session_kept:
  assumes "redis_ok api strs members" and "tables_ok strs members rs Map.empty"
    and "reaches (thread_step api False) (threads_init rs b) s"
    and "clients s i = Some (rq, Answered 200 sid)"
  shows "\<exists>x. places members s sid = {x}"
proof -
  have "threads_inv strs members (threads_init rs b) \<and> targets_ok (threads_init rs b) \<and> promises_ok members (threads_init rs b)"
    using threads_init_inv [OF assms(2)] by (simp add: threads_init_def targets_ok_def promises_ok_def)
  from invariant_machine.reaches_inv [OF promises_machine [OF assms(1)] assms(3) this]
  have ok: "threads_ok strs members s" and "promises_ok members s" by (simp_all add: threads_inv_def)
  then have "places members s sid \<noteq> {}" using assms(4) by (auto simp: promises_ok_def)
  then show ?thesis using threads_okD(3) [OF ok] by blast
qed


text \<open>
  C36: a closure that overtakes a request leaves its session unusable. When a session has ended, and been
  stored as swapped, before the request that placed it lists it as alive, it is in both lists for ever,
  and every request for it is refused with the answer that it is alive.
\<close>

theorem overtaken_request_locks_session:
  assumes "redis_ok api strs members" and "tables_ok strs members rs Map.empty"
    and "reaches (thread_step api True) (threads_init rs b) s"
    and "clients s i = Some (rq, Mark_Alive sid)" and "sid \<in> members (redis_st (tctl s)) (swapped_key (cr_pid rq))"
    and "\<forall>j rq'. clients s j = Some (rq', Take_Swapped) \<longrightarrow> cr_sid rq' \<noteq> sid"
    and "\<forall>j cl. closures s j = Some cl \<longrightarrow> cl_session cl = sid \<longrightarrow> cl_pc cl \<noteq> Unlist_Global"
    and "hash_order (ce_place (cr_env rq))" and "client_step api Reply rq (Mark_Alive sid) (tctl s) = (pc', c')"
    and "reaches (thread_step api True) (s\<lparr>tctl := c', clients := (clients s)(i \<mapsto> (rq, pc'))\<rparr>) t"
  shows "pc' = Answered 200 sid \<and>
    sid \<in> members (redis_st (tctl t)) (alive_key (cr_pid rq)) \<and>
    sid \<in> members (redis_st (tctl t)) (swapped_key (cr_pid rq)) \<and>
    (\<forall>rq'. cr_pid rq' = cr_pid rq \<longrightarrow> cr_sid rq' = sid \<longrightarrow>
      client_step api Reply rq' Check_Alive (tctl t) = (Answered 400 ''Session is already alive!'', tctl t))"
proof -
  let ?u = "s\<lparr>tctl := c', clients := (clients s)(i \<mapsto> (rq, pc'))\<rparr>"
  note l = redis_laws [OF assms(1)]
  have s: "threads_inv strs members s" by (rule threads_reach [OF assms(1-3)])
  have c: "pc' = Answered 200 sid" "c' = (tctl s)\<lparr>redis_st := sadd api (redis_st (tctl s)) (alive_key (cr_pid rq)) sid\<rparr>"
    using assms(9) by (auto simp: command_result_def)
  have "draws_fresh api rq (Mark_Alive sid) (tctl s)" by (simp add: draws_fresh_def)
  from thread_step.client [OF assms(4,8) this _ assms(9)] have "thread_step api True s ?u" by (simp add: c no_crash_def)
  then have "threads_inv strs members ?u" by (rule invariant_machine.step_inv [OF threads_machine [OF assms(1)] _ s])
  moreover have "stuck members (cr_pid rq) sid ?u"
    using assms(5-7) by (auto simp: stuck_def c l)
  ultimately have t: "stuck members (cr_pid rq) sid t"
    using invariant_machine.reaches_inv [OF stuck_machine [OF assms(1)] assms(10)] by blast
  then have "sid \<in> members (redis_st (tctl t)) (alive_key (cr_pid rq))" "sid \<in> members (redis_st (tctl t)) (swapped_key (cr_pid rq))"
    by (simp_all add: stuck_def)
  with c(1) stuck_refused [OF assms(1) t] show ?thesis by blast
qed

section \<open>Runs\<close>

lemma run_arrive:
  assumes "reaches (thread_step api fails) s0 \<lparr>tctl = c, clients = cs, closures = ks\<rparr>" and "cs i = None"
    and "hash_order (ce_place (cr_env rq))"
  shows "reaches (thread_step api fails) s0 \<lparr>tctl = c, clients = cs(i \<mapsto> (rq, Lookup)), closures = ks\<rparr>"
  using reaches_step [OF assms(1) thread_step.arrive [of _ i rq]] assms(2,3) by simp

lemma run_client:
  assumes "reaches (thread_step api fails) s0 \<lparr>tctl = c, clients = cs, closures = ks\<rparr>" and "cs i = Some (rq, pc)"
    and "hash_order (ce_place (cr_env rq))" and "draws_fresh api rq pc c" and "cmd = Reply \<or> fails"
    and "client_step api cmd rq pc c = (pc', c')" and "no_crash pc'"
  shows "reaches (thread_step api fails) s0 \<lparr>tctl = c', clients = cs(i \<mapsto> (rq, pc')), closures = ks\<rparr>"
  using reaches_step [OF assms(1) thread_step.client [of _ i rq pc api cmd fails pc' c']] assms(2-7) by simp

lemma run_notice:
  assumes "reaches (thread_step api fails) s0 \<lparr>tctl = c, clients = cs, closures = Map.empty\<rparr>"
    and "get_process k (resources c) = Some p" and "sid \<in> set (proc_sessions p)"
  shows "reaches (thread_step api fails) s0
    \<lparr>tctl = c, clients = cs, closures = [i \<mapsto> \<lparr>cl_process = k, cl_session = sid, cl_pc = Remove\<rparr>]\<rparr>"
  using reaches_step [OF assms(1) thread_step.notice [of _ i k p sid]] assms(2,3) by simp

lemma run_closure:
  assumes "reaches (thread_step api fails) s0 \<lparr>tctl = c, clients = cs, closures = ks\<rparr>" and "ks i = Some cl"
    and "closure_step api Reply cl c = (pc', c')"
  shows "reaches (thread_step api fails) s0 \<lparr>tctl = c', clients = cs, closures = ks(i \<mapsto> cl\<lparr>cl_pc := pc'\<rparr>)\<rparr>"
  using reaches_step [OF assms(1) thread_step.closure [of _ i cl Reply fails api pc' c']] assms(2,3) by simp

text \<open>Two requests for a session that an earlier run left swapped.\<close>

definition race_db :: map_db where
  "race_db = ([process_key ''tenant-b'' \<mapsto> ''name'', session_key ''0123456789abcdef'' \<mapsto> to_string32 64 @ '';'' @ to_string32 2],
     \<lambda>k. if k = swapped_key ''tenant-b'' then {''0123456789abcdef''} else {})"

definition tenant_request :: "string \<Rightarrow> client_request" where
  "tenant_request sid = \<lparr>cr_env = demo_env, cr_pid = ''tenant-b'', cr_sid = sid, cr_fname = '''', cr_fid = '''',
     cr_mf = 1, cr_ms = 64, cr_payload = ''''\<rparr>"

lemma tenant_request_simps [simp]:
  "cr_env (tenant_request sid) = demo_env" "cr_pid (tenant_request sid) = ''tenant-b''" "cr_sid (tenant_request sid) = sid"
  "hash_order (ce_place demo_env)" "take 16 (ce_session_uuid demo_env) = ''0123456789abcdef''"
  "take 16 (ce_process_uuid demo_env) = ''fedcba9876543210''"
  by (simp_all add: tenant_request_def demo_env_def)

lemma race_tables: "tables_ok fst snd race_db Map.empty"
  by (auto simp: tables_ok_def race_db_def known_def swapped_key_def process_key_def session_key_def id16_def split: if_splits)

lemma race_run:
  "reaches (thread_step map_redis fails) (threads_init race_db b)
     \<lparr>tctl = control (server_init race_db b), clients = [0 \<mapsto> (tenant_request ''0123456789abcdef'', Take_Swapped),
        1 \<mapsto> (tenant_request ''0123456789abcdef'', Take_Swapped)], closures = Map.empty\<rparr>"
proof -
  let ?c = "control (server_init race_db b)" and ?rq = "tenant_request ''0123456789abcdef''" and ?s = "threads_init race_db b"
  have look: "client_step map_redis Reply ?rq Lookup ?c = (Check_Alive, ?c)"
    and alive: "client_step map_redis Reply ?rq Check_Alive ?c = (Take_Swapped, ?c)"
    by (simp_all add: command_result_def server_init_def race_db_def map_redis_def alive_key_def swapped_key_def)
  let ?r = "\<lambda>cs. reaches (thread_step map_redis fails) ?s \<lparr>tctl = ?c, clients = cs, closures = Map.empty\<rparr>"
  have step: "?r (cs(i \<mapsto> (?rq, Take_Swapped)))" if "?r cs" "cs i = None" for cs i
  proof -
    have "?r (cs(i \<mapsto> (?rq, Lookup)))" by (rule run_arrive [OF that]) simp
    from run_client [OF this _ _ _ _ look, of i] have "?r (cs(i \<mapsto> (?rq, Check_Alive)))"
      by (simp add: draws_fresh_def no_crash_def)
    from run_client [OF this _ _ _ _ alive, of i] show ?thesis by (simp add: draws_fresh_def no_crash_def)
  qed
  have "?r Map.empty" by (simp add: threads_init_def reaches_refl)
  from step [OF step [OF this]] show ?thesis by simp
qed

theorem threads_one_place_witness:
  "\<exists>s. reaches (thread_step map_redis True) (threads_init race_db None) s \<and>
     clients s 0 = Some (tenant_request ''0123456789abcdef'', Read_Details) \<and>
     clients s 1 = Some (tenant_request ''0123456789abcdef'', Answered 400 ''Session ID unknown!'') \<and>
     (\<forall>y. y \<in> places snd s ''0123456789abcdef'' \<longrightarrow> y = Held 0)"
proof -
  let ?c = "control (server_init race_db None)" and ?sid = "''0123456789abcdef''" and ?s = "threads_init race_db None"
  let ?rq = "tenant_request ?sid"
  define c where "c = ?c\<lparr>redis_st := snd (srem map_redis (redis_st ?c) (swapped_key ''tenant-b'') ?sid)\<rparr>"
  have take: "client_step map_redis Reply ?rq Take_Swapped ?c = (Read_Details, c)"
    and late: "client_step map_redis Reply ?rq Take_Swapped c = (Answered 400 ''Session ID unknown!'', c)"
    by (simp_all add: command_result_def server_init_def race_db_def map_redis_def c_def)
  from run_client [OF race_run [of True None] _ _ _ _ take, of 0]
  have 1: "reaches (thread_step map_redis True) ?s
      \<lparr>tctl = c, clients = [1 \<mapsto> (?rq, Take_Swapped), 0 \<mapsto> (?rq, Read_Details)], closures = Map.empty\<rparr>"
    by (simp add: draws_fresh_def no_crash_def fun_upd_twist)
  let ?t = "\<lparr>tctl = c, clients = [0 \<mapsto> (?rq, Read_Details), 1 \<mapsto> (?rq, Answered 400 ''Session ID unknown!'')], closures = Map.empty\<rparr>"
  from run_client [OF 1 _ _ _ _ late, of 1] have t: "reaches (thread_step map_redis True) ?s ?t"
    by (simp add: draws_fresh_def no_crash_def fun_upd_twist)
  have "Held 0 \<in> places snd ?t ?sid" by simp
  with threads_one_place [OF map_redis_ok race_tables t] t show ?thesis by (intro exI [of _ ?t]) (simp del: places_iff)
qed


text \<open>A request for a new session, up to its last command.\<close>

lemma new_session_placed:
  "\<exists>c p. allocate_new_process (ce_place demo_env) (ce_junk demo_env) (ce_process_uuid demo_env) ''tenant-b'' ''0123456789abcdef'' 1 64 False
      (cr_alloc (tenant_request '''')) ((control (server_init demo_db (Some demo_backend)))\<lparr>redis_st := rs\<rparr>) = Inr c \<and>
    get_process ''fedcba9876543210'' (resources c) = Some p \<and> proc_sessions p = [''0123456789abcdef''] \<and>
    global_process_id p = ''tenant-b'' \<and> redis_st c = rs"
  by (simp add: demo_env_def server_init_def Resources_init_def allocate_new_process_def setup_session_def add_session_def
      add_process_def get_process_def update_process_def update_session_def LocalBackend_allocate_process_def demo_backend_def
      CProcess_init_def CProcess_assign_def case_prod_beta Let_def cr_alloc_def tenant_request_def)

lemma new_session_run:
  "\<exists>c p. reaches (thread_step map_redis fails) (threads_init demo_db (Some demo_backend))
      \<lparr>tctl = c, clients = [0 \<mapsto> (tenant_request '''', Mark_Alive ''0123456789abcdef'')], closures = Map.empty\<rparr> \<and>
    get_process ''fedcba9876543210'' (resources c) = Some p \<and> proc_sessions p = [''0123456789abcdef''] \<and>
    global_process_id p = ''tenant-b''"
proof -
  let ?c0 = "control (server_init demo_db (Some demo_backend))" and ?rq = "tenant_request ''''" and ?sid = "''0123456789abcdef''"
  let ?r = "\<lambda>pc c. reaches (thread_step map_redis fails) (threads_init demo_db (Some demo_backend))
      \<lparr>tctl = c, clients = [0 \<mapsto> (?rq, pc)], closures = Map.empty\<rparr>"
  define rs where "rs = rset map_redis (redis_st ?c0) (session_key ?sid) (to_string32 64 @ '';'' @ to_string32 1)"
  have step: "?r pc' c'" if "?r pc c" "client_step map_redis Reply ?rq pc c = (pc', c')" "draws_fresh map_redis ?rq pc c" "no_crash pc'"
    for pc c pc' c' using run_client [OF that(1) _ _ that(3) _ that(2,4), of 0] by simp
  have "reaches (thread_step map_redis fails) (threads_init demo_db (Some demo_backend))
      \<lparr>tctl = ?c0, clients = Map.empty, closures = Map.empty\<rparr>" by (simp add: threads_init_def reaches_refl)
  from run_arrive [OF this, where i = 0 and rq = ?rq] have "?r Lookup ?c0" by simp
  then have "?r Store_Details ?c0"
    by (rule step) (simp_all add: command_result_def server_init_def demo_db_def map_redis_def draws_fresh_def no_crash_def process_key_def)
  then have "?r (Find_Free ?sid 1 64 False) (?c0\<lparr>redis_st := rs\<rparr>)"
    by (rule step) (simp_all add: command_result_def Let_def rs_def draws_fresh_def no_crash_def id16_def server_init_def demo_db_def
        map_redis_def process_key_def session_key_def, simp_all add: tenant_request_def)
  then have new: "?r (Place_New ?sid 1 64 False) (?c0\<lparr>redis_st := rs\<rparr>)"
    by (rule step) (simp_all add: find_free_def server_init_def Resources_init_def draws_fresh_def no_crash_def)
  obtain c p where c: "allocate_new_process (ce_place demo_env) (ce_junk demo_env) (ce_process_uuid demo_env) ''tenant-b'' ?sid
      1 64 False (cr_alloc ?rq) (?c0\<lparr>redis_st := rs\<rparr>) = Inr c"
    and p: "get_process ''fedcba9876543210'' (resources c) = Some p" "proc_sessions p = [?sid]" "global_process_id p = ''tenant-b''"
    using new_session_placed by blast
  have "?r (Mark_Alive ?sid) c"
    by (rule step [OF new])
      (simp_all add: c no_crash_def, simp add: draws_fresh_def server_init_def Resources_init_def get_process_def)
  with p show ?thesis by blast
qed

theorem answered_session_kept_witness:
  "\<exists>s x. reaches (thread_step map_redis False) (threads_init demo_db (Some demo_backend)) s \<and>
     clients s 0 = Some (tenant_request '''', Answered 200 ''0123456789abcdef'') \<and>
     places snd s ''0123456789abcdef'' = {x}"
proof -
  let ?rq = "tenant_request ''''" and ?sid = "''0123456789abcdef''"
  obtain c where r: "reaches (thread_step map_redis False) (threads_init demo_db (Some demo_backend))
      \<lparr>tctl = c, clients = [0 \<mapsto> (?rq, Mark_Alive ?sid)], closures = Map.empty\<rparr>" using new_session_run by blast
  define c' where "c' = c\<lparr>redis_st := sadd map_redis (redis_st c) (alive_key ''tenant-b'') ?sid\<rparr>"
  have "client_step map_redis Reply ?rq (Mark_Alive ?sid) c = (Answered 200 ?sid, c')" by (simp add: command_result_def c'_def)
  from run_client [OF r _ _ _ _ this, of 0] have s: "reaches (thread_step map_redis False) (threads_init demo_db (Some demo_backend))
      \<lparr>tctl = c', clients = [0 \<mapsto> (?rq, Answered 200 ?sid)], closures = Map.empty\<rparr>"
    by (simp add: draws_fresh_def no_crash_def)
  have "tables_ok fst snd demo_db Map.empty" by (simp add: tables_ok_def demo_db_def)
  from answered_session_kept [OF map_redis_ok this s, of 0 ?rq ?sid] s show ?thesis by auto
qed

text \<open>The session of that request ends, and its closure runs, before the request is complete.\<close>

lemma overtaking_closure:
  "\<exists>c cl. reaches (thread_step map_redis True) (threads_init demo_db (Some demo_backend))
      \<lparr>tctl = c, clients = [0 \<mapsto> (tenant_request '''', Mark_Alive ''0123456789abcdef'')], closures = [0 \<mapsto> cl]\<rparr> \<and>
    cl_pc cl = Closed \<and> ''0123456789abcdef'' \<in> snd (redis_st c) (swapped_key ''tenant-b'')"
proof -
  let ?k = "''fedcba9876543210''" and ?sid = "''0123456789abcdef''"
  let ?cl = "\<lambda>pc. \<lparr>cl_process = ?k, cl_session = ?sid, cl_pc = pc\<rparr>" and ?cs = "[0 \<mapsto> (tenant_request '''', Mark_Alive ?sid)]"
  let ?r = "\<lambda>pc c. reaches (thread_step map_redis True) (threads_init demo_db (Some demo_backend))
      \<lparr>tctl = c, clients = ?cs, closures = [0 \<mapsto> ?cl pc]\<rparr>"
  obtain c p where c: "reaches (thread_step map_redis True) (threads_init demo_db (Some demo_backend))
      \<lparr>tctl = c, clients = ?cs, closures = Map.empty\<rparr>" and p: "get_process ?k (resources c) = Some p" "proc_sessions p = [?sid]"
      "global_process_id p = ''tenant-b''" using new_session_run by blast
  have step: "?r pc' c'" if "?r pc c" "closure_step map_redis Reply (?cl pc) c = (pc', c')" for pc c pc' c'
    using run_closure [OF that(1) _ that(2), of 0] by simp
  define c1 where "c1 = c\<lparr>resources := remove_session ?k ?sid (resources c)\<rparr>"
  obtain q where q: "get_process ?k (resources c1) = Some q" "global_process_id q = ''tenant-b''"
    using remove_session_process [OF p(1), of ?sid] p(3) by (auto simp: c1_def)
  let ?d = "\<lambda>rs. c1\<lparr>redis_st := rs\<rparr>"
  have "?r Remove c" by (rule run_notice [OF c p(1)]) (simp add: p(2))
  then have un: "?r Unlist c1" by (rule step) (simp add: closure_step_def p c1_def)
  define rs where "rs = snd (srem map_redis (redis_st c1) (alive_key (cp_process_id q)) ?sid)"
  have "?r Swap (?d rs)" by (rule step [OF un]) (simp add: closure_step_def closure_command_def q rs_def)
  then have "?r Unlist_Global (?d (sadd map_redis rs (swapped_key ''tenant-b'') ?sid))"
    by (rule step) (simp add: closure_step_def closure_command_def q)
  then have "?r Closed (?d (snd (srem map_redis (sadd map_redis rs (swapped_key ''tenant-b'') ?sid) (alive_key ''tenant-b'') ?sid)))"
    by (rule step) (simp add: closure_step_def closure_command_def q)
  then show ?thesis
    by (intro exI conjI) (assumption, simp_all add: map_redis_def swapped_key_def alive_key_def)
qed

theorem overtaken_request_locks_session_witness:
  "\<exists>s. reaches (thread_step map_redis True) (threads_init demo_db (Some demo_backend)) s \<and>
     ''0123456789abcdef'' \<in> snd (redis_st (tctl s)) (alive_key ''tenant-b'') \<and>
     ''0123456789abcdef'' \<in> snd (redis_st (tctl s)) (swapped_key ''tenant-b'') \<and>
     client_step map_redis Reply (tenant_request ''0123456789abcdef'') Check_Alive (tctl s) =
       (Answered 400 ''Session is already alive!'', tctl s)"
proof -
  let ?rq = "tenant_request ''''" and ?sid = "''0123456789abcdef''"
  obtain c cl where s: "reaches (thread_step map_redis True) (threads_init demo_db (Some demo_backend))
      \<lparr>tctl = c, clients = [0 \<mapsto> (?rq, Mark_Alive ?sid)], closures = [0 \<mapsto> cl]\<rparr>"
    and cl: "cl_pc cl = Closed" "?sid \<in> snd (redis_st c) (swapped_key ''tenant-b'')"
    using overtaking_closure by (elim exE conjE)
  let ?s = "\<lparr>tctl = c, clients = [0 \<mapsto> (?rq, Mark_Alive ?sid)], closures = [0 \<mapsto> cl]\<rparr>"
  define c' where "c' = c\<lparr>redis_st := sadd map_redis (redis_st c) (alive_key ''tenant-b'') ?sid\<rparr>"
  have m: "client_step map_redis Reply ?rq (Mark_Alive ?sid) c = (Answered 200 ?sid, c')" by (simp add: command_result_def c'_def)
  let ?t = "?s\<lparr>tctl := c', clients := (clients ?s)(0 \<mapsto> (?rq, Answered 200 ?sid))\<rparr>"
  have t: "reaches (thread_step map_redis True) (threads_init demo_db (Some demo_backend)) ?t"
    using run_client [OF s _ _ _ _ m, of 0] by (simp add: draws_fresh_def no_crash_def)
  have "tables_ok fst snd demo_db Map.empty" by (simp add: tables_ok_def demo_db_def)
  note o = overtaken_request_locks_session [OF map_redis_ok this s, of 0 ?rq ?sid "Answered 200 ?sid" c' ?t]
  have o': "?sid \<in> snd (redis_st (tctl ?t)) (alive_key ''tenant-b'')" "?sid \<in> snd (redis_st (tctl ?t)) (swapped_key ''tenant-b'')"
    "client_step map_redis Reply (tenant_request ?sid) Check_Alive (tctl ?t) = (Answered 400 ''Session is already alive!'', tctl ?t)"
    using o m cl reaches_refl [of "thread_step map_redis True" ?t] by (simp_all del: client_step.simps)
  show ?thesis by (intro exI [of _ ?t] conjI t o')
qed

end
