(* ===== verification/Buffer_Queue.thy ===== *)
theory Buffer_Queue
  imports Interfaces "HOL-Library.Multiset"
begin

text \<open>
  The queue of payload buffers of \<open>src/runtime/include/praas/buffer.hpp\<close>: \<open>Buffer\<close> and
  \<open>BufferQueue\<close> over an explicit heap whose blocks are known by their size. The step relation
  \<open>pool_step\<close> is what a session does with the queue: take a buffer for an incoming payload,
  return it after the invocation, and return the default buffer of an invocation without payload.
\<close>

section \<open>Buffers and their queue\<close>

record Buffer =
  val :: ptr
  buf_size :: nat

definition Buffer_default :: Buffer where
  "Buffer_default = \<lparr>val = None, buf_size = 0\<rparr>"

record BufferQueue =
  buffers :: "Buffer list"
  elements :: nat

text \<open>The constructor pushes \<open>elements\<close> new blocks of \<open>elem_size\<close>.\<close>

fun push_blocks :: "nat \<Rightarrow> nat \<Rightarrow> Buffer list \<Rightarrow> nat heap \<Rightarrow> Buffer list \<times> nat heap" where
  "push_blocks 0 elem_size bs h = (bs, h)"
| "push_blocks (Suc n) elem_size bs h =
     (let (p, h') = heap_new elem_size h in
      push_blocks n elem_size (bs @ [\<lparr>val = p, buf_size = elem_size\<rparr>]) h')"

definition BufferQueue_init :: "nat \<Rightarrow> nat \<Rightarrow> nat heap \<Rightarrow> BufferQueue \<times> nat heap" where
  "BufferQueue_init elems elem_size h =
     (let (bs, h') = push_blocks elems elem_size [] h in (\<lparr>buffers = bs, elements = elems\<rparr>, h'))"

text \<open>The destructor deletes every block still in the queue.\<close>

fun delete_blocks :: "Buffer list \<Rightarrow> nat heap \<Rightarrow> nat heap" where
  "delete_blocks [] h = h"
| "delete_blocks (b # bs) h = delete_blocks bs (heap_delete (val b) h)"

definition BufferQueue_destroy :: "BufferQueue \<Rightarrow> nat heap \<Rightarrow> BufferQueue \<times> nat heap" where
  "BufferQueue_destroy q h = (q\<lparr>buffers := []\<rparr>, delete_blocks (buffers q) h)"

text \<open>The guard compares the number of queued buffers with the requested size, as the source does.\<close>

definition retrieve_buffer ::
  "nat \<Rightarrow> BufferQueue \<Rightarrow> nat heap \<Rightarrow> Buffer \<times> BufferQueue \<times> nat heap" where
  "retrieve_buffer sz q h =
     (case buffers q of
        [] \<Rightarrow> (\<lparr>val = None, buf_size = 0\<rparr>, q, h)
      | buf # rest \<Rightarrow>
          (let (buf', h') =
             (if length (buffers q) < sz
              then let (p, h2) = heap_new sz (heap_delete (val buf) h)
                   in (buf\<lparr>val := p, buf_size := sz\<rparr>, h2)
              else (buf, h))
           in (buf', q\<lparr>buffers := rest\<rparr>, h')))"

definition return_buffer :: "Buffer \<Rightarrow> BufferQueue \<Rightarrow> BufferQueue" where
  "return_buffer buf q = q\<lparr>buffers := buffers q @ [buf]\<rparr>"

section \<open>The pool in a session\<close>

text \<open>The queue, the buffers handed out to invocations that still run, and the heap.\<close>

record pool =
  queue :: BufferQueue
  in_use :: "Buffer list"
  heap_of :: "nat heap"

definition pool_take :: "nat \<Rightarrow> pool \<Rightarrow> pool" where
  "pool_take sz s =
     (let (buf, q, h) = retrieve_buffer sz (queue s) (heap_of s) in
      if buf_size buf = 0 then s\<lparr>queue := q, heap_of := h\<rparr>
      else s\<lparr>queue := q, in_use := in_use s @ [buf], heap_of := h\<rparr>)"

inductive pool_step :: "pool \<Rightarrow> pool \<Rightarrow> bool" where
  take: "0 < sz \<Longrightarrow> pool_step s (pool_take sz s)"
| finish: "in_use s = xs @ buf # ys \<Longrightarrow>
     pool_step s (s\<lparr>in_use := xs @ ys, queue := return_buffer buf (queue s)\<rparr>)"
| finish_empty: "pool_step s (s\<lparr>queue := return_buffer Buffer_default (queue s)\<rparr>)"

definition pool_init :: "nat \<Rightarrow> nat \<Rightarrow> pool" where
  "pool_init elems elem_size =
     (let (q, h) = BufferQueue_init elems elem_size heap_empty in \<lparr>queue = q, in_use = [], heap_of = h\<rparr>)"

section \<open>Ownership\<close>

definition addrs :: "Buffer list \<Rightarrow> nat list" where
  "addrs bs = List.map_filter val bs"

definition owned :: "nat heap \<Rightarrow> Buffer list \<Rightarrow> bool" where
  "owned h bs \<longleftrightarrow> distinct (addrs bs) \<and>
     (\<forall>b \<in> set bs. case val b of None \<Rightarrow> buf_size b = 0
        | Some a \<Rightarrow> blocks h a = Some (buf_size b) \<and> 0 < buf_size b)"

definition pool_inv :: "pool \<Rightarrow> bool" where
  "pool_inv s \<longleftrightarrow> heap_ok (heap_of s) \<and> owned (heap_of s) (buffers (queue s) @ in_use s) \<and>
     dom (blocks (heap_of s)) = set (addrs (buffers (queue s) @ in_use s)) \<and>
     (\<forall>b \<in> set (in_use s). 0 < buf_size b)"

lemma addrs_simps [simp]:
  "addrs [] = []"
  "addrs (b # bs) = (case val b of None \<Rightarrow> addrs bs | Some a \<Rightarrow> a # addrs bs)"
  "addrs (xs @ ys) = addrs xs @ addrs ys"
  by (auto simp: addrs_def List.map_filter_simps List.map_filter_def split: option.splits)

lemma addrs_iff: "a \<in> set (addrs bs) \<longleftrightarrow> (\<exists>b \<in> set bs. val b = Some a)"
  by (induction bs) (auto split: option.splits)

lemma owned_mset:
  assumes "mset xs = mset ys" "owned h xs"
  shows "owned h ys"
proof -
  have "mset (addrs xs) = mset (addrs ys)"
    unfolding addrs_def List.map_filter_def using assms(1) by (metis mset_filter mset_map)
  then have "distinct (addrs ys)"
    using assms(2) unfolding owned_def by (metis mset_eq_imp_distinct_iff)
  moreover have "set xs = set ys" using assms(1) by (rule mset_eq_setD)
  ultimately show ?thesis using assms(2) by (simp add: owned_def)
qed

lemma owned_allocated: "owned h bs \<Longrightarrow> a \<in> set (addrs bs) \<Longrightarrow> blocks h a \<noteq> None"
  by (auto simp: owned_def addrs_iff)

lemma owned_replace:
  assumes "heap_ok h" "owned h (buf # bs)" "0 < sz"
  shows "owned (snd (heap_new sz (heap_delete (val buf) h)))
    (\<lparr>val = fst (heap_new sz (heap_delete (val buf) h)), buf_size = sz\<rparr> # bs)"
proof -
  let ?n = "next_addr h"
  have nx: "next_addr (heap_delete (val buf) h) = ?n"
    by (simp add: heap_delete_def split: option.splits)
  have new: "a \<noteq> ?n" if "a \<in> set (addrs bs)" for a
  proof -
    have "a \<in> set (addrs (buf # bs))" using that by (simp split: option.splits)
    with assms(2) have "blocks h a \<noteq> None" by (rule owned_allocated)
    with assms(1) show ?thesis by (auto simp: heap_ok_def)
  qed
  have keep: "blocks (heap_delete (val buf) h) a = blocks h a" if "a \<in> set (addrs bs)" for a
    using that assms(2) by (auto simp: heap_delete_def owned_def split: option.splits)
  have bs: "owned h bs"
    using assms(2) by (auto simp: owned_def split: option.splits)
  have "blocks (snd (heap_new sz (heap_delete (val buf) h))) a = Some (buf_size b) \<and> 0 < buf_size b"
    if "b \<in> set bs" "val b = Some a" for a b
  proof -
    have a: "a \<in> set (addrs bs)" using that by (auto simp: addrs_iff)
    with bs that have "blocks h a = Some (buf_size b) \<and> 0 < buf_size b" by (auto simp: owned_def)
    with keep [OF a] new [OF a] show ?thesis by (simp add: heap_new_def nx)
  qed
  moreover have "?n \<notin> set (addrs bs)" using new by blast
  ultimately show ?thesis
    using bs assms(3) by (auto simp: owned_def heap_new_def nx split: option.splits)
qed

lemma dom_replace:
  assumes "owned h (buf # bs)" and "dom (blocks h) = set (addrs (buf # bs))"
  shows "dom (blocks (snd (heap_new sz (heap_delete (val buf) h)))) = insert (next_addr h) (set (addrs bs))"
proof -
  have "distinct (addrs (buf # bs))" using assms(1) by (simp add: owned_def)
  with assms(2) show ?thesis
    by (auto simp: heap_new_def heap_delete_def split: option.splits if_splits)
qed

lemma mset_mid: "mset (xs @ x # ys) = mset (x # xs @ ys)"
  by simp

lemma retrieve_cases:
  assumes "retrieve_buffer sz q h = (buf, q', h')"
  obtains
    (empty) "buffers q = []" "buf = Buffer_default" "q' = q" "h' = h"
  | (fresh) old rest where "buffers q = old # rest" "length (buffers q) < sz"
      "buf = \<lparr>val = fst (heap_new sz (heap_delete (val old) h)), buf_size = sz\<rparr>"
      "q' = q\<lparr>buffers := rest\<rparr>" "h' = snd (heap_new sz (heap_delete (val old) h))"
  | (kept) rest where "buffers q = buf # rest" "sz \<le> length (buffers q)"
      "q' = q\<lparr>buffers := rest\<rparr>" "h' = h"
  using assms
  by (cases "buffers q"; cases "length (buffers q) < sz")
    (auto simp: retrieve_buffer_def Buffer_default_def split: prod.splits)

lemma pool_take_inv:
  assumes inv: "pool_inv s" and "0 < sz"
  shows "pool_inv (pool_take sz s)"
proof -
  obtain buf q' h' where r: "retrieve_buffer sz (queue s) (heap_of s) = (buf, q', h')"
    using prod_cases3 by blast
  let ?q = "buffers (queue s)" and ?u = "in_use s" and ?h = "heap_of s"
  have ok: "heap_ok ?h" and own: "owned ?h (?q @ ?u)" and dm: "dom (blocks ?h) = set (addrs (?q @ ?u))"
    and pos: "\<forall>b \<in> set ?u. 0 < buf_size b"
    using inv by (simp_all add: pool_inv_def)
  from r show ?thesis
  proof (cases rule: retrieve_cases)
    case empty
    with r inv show ?thesis by (simp add: pool_take_def Buffer_default_def)
  next
    case (fresh old rest)
    then have own': "owned h' (buf # rest @ ?u)"
      using owned_replace [OF ok, of old "rest @ ?u" sz] own assms(2) by simp
    have "owned h' (rest @ ?u @ [buf])" by (rule owned_mset [OF _ own']) simp
    moreover have "dom (blocks h') = set (addrs (rest @ ?u @ [buf]))"
    proof -
      have "dom (blocks h') = insert (next_addr ?h) (set (addrs (rest @ ?u)))"
        using fresh dom_replace [of ?h old "rest @ ?u" sz] own dm by simp
      moreover have "val buf = Some (next_addr ?h)"
        using fresh by (simp add: heap_new_def heap_delete_def split: option.splits)
      ultimately show ?thesis by auto
    qed
    moreover have "heap_ok h'" using fresh ok by simp
    ultimately show ?thesis
      using r fresh assms(2) pos by (simp add: pool_take_def pool_inv_def)
  next
    case (kept rest)
    have own': "owned ?h (rest @ ?u @ [buf])"
      by (rule owned_mset [OF _ own]) (simp add: kept)
    have dm': "dom (blocks ?h) = set (addrs (rest @ ?u @ [buf]))"
      using dm kept by (auto split: option.splits)
    show ?thesis
    proof (cases "buf_size buf = 0")
      case True
      then have "val buf = None"
        using own kept by (auto simp: owned_def split: option.splits)
      then have "owned ?h (rest @ ?u)" "dom (blocks ?h) = set (addrs (rest @ ?u))"
        using own' dm' by (auto simp: owned_def)
      with True r kept ok pos show ?thesis by (simp add: pool_take_def pool_inv_def)
    next
      case False
      with r kept ok own' dm' pos show ?thesis by (simp add: pool_take_def pool_inv_def)
    qed
  qed
qed

lemma pool_step_inv: "pool_step s t \<Longrightarrow> pool_inv s \<Longrightarrow> pool_inv t"
proof (induction rule: pool_step.induct)
  case (take sz s)
  then show ?case by (simp add: pool_take_inv)
next
  case (finish s xs buf ys)
  have "mset (buffers (queue s) @ in_use s) = mset ((buffers (queue s) @ [buf]) @ xs @ ys)"
    using finish.hyps by simp
  from owned_mset [OF this] finish show ?case
    by (auto simp: pool_inv_def return_buffer_def split: option.splits)
next
  case (finish_empty s)
  then show ?case
    by (auto simp: pool_inv_def return_buffer_def Buffer_default_def owned_def)
qed

interpretation pool: invariant_machine pool_step pool_inv
  by unfold_locales (rule pool_step_inv)

lemma push_blocks_owned:
  assumes "heap_ok h" "owned h bs" "dom (blocks h) = set (addrs bs)" "0 < elem_size"
    and "push_blocks n elem_size bs h = (bs', h')"
  shows "heap_ok h' \<and> owned h' bs' \<and> dom (blocks h') = set (addrs bs') \<and> length bs' = length bs + n"
  using assms
proof (induction n arbitrary: bs h)
  case (Suc n)
  let ?b = "\<lparr>val = fst (heap_new elem_size h), buf_size = elem_size\<rparr>"
  have "owned h (Buffer_default # bs)"
    using Suc.prems(2) by (simp add: owned_def Buffer_default_def)
  from owned_replace [OF Suc.prems(1) this Suc.prems(4)]
  have own: "owned (snd (heap_new elem_size h)) (?b # bs)" by (simp add: Buffer_default_def)
  have "owned (snd (heap_new elem_size h)) (bs @ [?b])" by (rule owned_mset [OF _ own]) simp
  moreover have "dom (blocks (snd (heap_new elem_size h))) = set (addrs (bs @ [?b]))"
    using Suc.prems(3) by (auto simp: heap_new_def)
  moreover have "push_blocks n elem_size (bs @ [?b]) (snd (heap_new elem_size h)) = (bs', h')"
    using Suc.prems(5) by (simp add: heap_new_def)
  ultimately show ?case
    using Suc.IH [of "snd (heap_new elem_size h)" "bs @ [?b]"] Suc.prems(1,4) by simp
qed simp

lemma pool_init_inv:
  assumes "0 < elem_size"
  shows "pool_inv (pool_init elems elem_size)"
proof -
  obtain bs h where p: "push_blocks elems elem_size [] heap_empty = (bs, h)" by fastforce
  have "owned heap_empty []" "dom (blocks heap_empty) = set (addrs [])"
    by (simp_all add: owned_def heap_empty_def)
  from push_blocks_owned [OF heap_empty_ok this assms p] show ?thesis
    by (simp add: pool_inv_def pool_init_def BufferQueue_init_def p)
qed

lemma delete_blocks_dom: "dom (blocks (delete_blocks bs h)) = dom (blocks h) - set (addrs bs)"
  by (induction bs arbitrary: h) (auto simp: heap_delete_def split: option.splits if_splits)

lemma reaches_take: "0 < sz \<Longrightarrow> reaches pool_step s t \<Longrightarrow> reaches pool_step s (pool_take sz t)"
  by (auto intro: reaches_step pool_step.take)

lemma pool_inv_in_use:
  assumes "pool_inv s" and "b \<in> set (in_use s)"
  shows "\<exists>a. val b = Some a \<and> blocks (heap_of s) a = Some (buf_size b)"
  using assms by (force simp: pool_inv_def owned_def split: option.splits)

section \<open>Properties\<close>

text \<open>
  C28: from a fresh queue on, whatever the order of payloads and invocations, no block is in two
  buffers, every buffer handed out owns a live block of the size it records, and destroying the
  queue releases exactly the blocks of the queue, so that only blocks still in use remain.
\<close>

theorem buffer_ownership:
  assumes "0 < elem_size" and "reaches pool_step (pool_init elems elem_size) s"
  shows "distinct (addrs (buffers (queue s) @ in_use s)) \<and>
    (\<forall>b \<in> set (in_use s). \<exists>a. val b = Some a \<and> blocks (heap_of s) a = Some (buf_size b)) \<and>
    dom (blocks (snd (BufferQueue_destroy (queue s) (heap_of s)))) = set (addrs (in_use s))"
proof -
  have inv: "pool_inv s"
    using pool.reaches_inv [OF assms(2)] pool_init_inv [OF assms(1)] by blast
  with pool_inv_in_use show ?thesis
    by (auto simp: pool_inv_def owned_def BufferQueue_destroy_def delete_blocks_dom)
qed

theorem buffer_ownership_witness:
  "distinct (addrs (buffers (queue (pool_take 10 (pool_init 2 6291456))) @
     in_use (pool_take 10 (pool_init 2 6291456))))"
  using buffer_ownership [of 6291456 2 "pool_take 10 (pool_init 2 6291456)"]
    reaches_step [of pool_step, OF reaches_refl pool_step.take [of 10 "pool_init 2 6291456"]]
  by simp

text \<open>
  The guard of \<open>retrieve_buffer\<close> counts queued buffers instead of looking at the size of
  the buffer it returns. With the four buffers of a session for two functions, whatever their
  initial size, four concurrent payloads of 5, 4, 3 and 2 bytes shrink the blocks, and once three
  of them are back a payload of 3 bytes is given the block of 2 bytes.
\<close>

lemma undersized_buffer_reachable:
  "\<exists>s. reaches pool_step (pool_init 4 N) s \<and>
     (let (b, _, _) = retrieve_buffer 3 (queue s) (heap_of s) in
      buf_size b = 2 \<and> (\<exists>a. val b = Some a \<and> blocks (heap_of s) a = Some 2))"
proof -
  let ?B = "\<lambda>a n. \<lparr>val = Some a, buf_size = n\<rparr>"
  define s4 where "s4 = pool_take 2 (pool_take 3 (pool_take 4 (pool_take 5 (pool_init 4 N))))"
  define s7 where "s7 = s4\<lparr>in_use := [?B 4 5],
     queue := return_buffer (?B 5 4) (return_buffer (?B 6 3) (return_buffer (?B 7 2) (queue s4)))\<rparr>"
  have take4: "reaches pool_step (pool_init 4 N) s4"
    unfolding s4_def
    by (intro reaches_take reaches_refl) simp_all
  have use4: "in_use s4 = [?B 4 5, ?B 5 4, ?B 6 3, ?B 7 2]" and q4: "buffers (queue s4) = []"
    and h4: "blocks (heap_of s4) 7 = Some 2"
    by (simp_all add: s4_def pool_take_def pool_init_def BufferQueue_init_def retrieve_buffer_def
        heap_new_def heap_delete_def heap_empty_def eval_nat_numeral)
  have "reaches pool_step s4 s7"
  proof -
    have "pool_step s4 (s4\<lparr>in_use := [?B 4 5, ?B 5 4, ?B 6 3], queue := return_buffer (?B 7 2) (queue s4)\<rparr>)"
      using pool_step.finish [of s4 "[?B 4 5, ?B 5 4, ?B 6 3]" "?B 7 2" "[]"] use4 by simp
    moreover have "pool_step (s4\<lparr>in_use := [?B 4 5, ?B 5 4, ?B 6 3], queue := q\<rparr>)
        (s4\<lparr>in_use := [?B 4 5, ?B 5 4], queue := return_buffer (?B 6 3) q\<rparr>)" for q
      using pool_step.finish [of "s4\<lparr>in_use := [?B 4 5, ?B 5 4, ?B 6 3], queue := q\<rparr>"
          "[?B 4 5, ?B 5 4]" "?B 6 3" "[]"] by simp
    moreover have "pool_step (s4\<lparr>in_use := [?B 4 5, ?B 5 4], queue := q\<rparr>)
        (s4\<lparr>in_use := [?B 4 5], queue := return_buffer (?B 5 4) q\<rparr>)" for q
      using pool_step.finish [of "s4\<lparr>in_use := [?B 4 5, ?B 5 4], queue := q\<rparr>" "[?B 4 5]" "?B 5 4" "[]"]
      by simp
    ultimately show ?thesis unfolding s7_def by (meson reaches_refl reaches_step)
  qed
  with take4 have "reaches pool_step (pool_init 4 N) s7" by (rule reaches_trans)
  moreover have "buffers (queue s7) = [?B 7 2, ?B 6 3, ?B 5 4]" and "heap_of s7 = heap_of s4"
    by (simp_all add: s7_def return_buffer_def q4)
  ultimately show ?thesis
    using h4 by (auto simp: retrieve_buffer_def intro!: exI [of _ s7])
qed

text \<open>
  An invocation without payload puts the null buffer into the queue
  (\<open>FunctionWorker::invoke\<close> returns the buffer unconditionally). A session with two buffers that
  has served one such invocation and two with payloads reaches a state in which nothing is in use
  and the front of the queue is the null buffer: a payload no larger than the queue is then refused
  as if there were no memory, although both blocks are free.
\<close>

lemma null_buffer_reachable:
  assumes "0 < N"
  shows "\<exists>s. reaches pool_step (pool_init 2 N) s \<and> in_use s = [] \<and>
     (\<exists>b \<in> set (buffers (queue s)). buf_size b = N) \<and>
     fst (retrieve_buffer 1 (queue s) (heap_of s)) = Buffer_default"
proof -
  let ?B = "\<lambda>a. \<lparr>val = Some a, buf_size = N\<rparr>"
  let ?q = "\<lambda>bs. \<lparr>buffers = bs, elements = 2\<rparr>"
  obtain h where i: "pool_init 2 N = \<lparr>queue = ?q [?B 0, ?B 1], in_use = [], heap_of = h\<rparr>"
    by (simp add: pool_init_def BufferQueue_init_def heap_new_def heap_empty_def eval_nat_numeral)
  let ?s = "\<lambda>bs us. \<lparr>queue = ?q bs, in_use = us, heap_of = h\<rparr>"
  have 1: "pool_step (?s bs us) (?s (bs @ [Buffer_default]) us)" for bs us
    using pool_step.finish_empty [of "?s bs us"] by (simp add: return_buffer_def)
  have 2: "pool_step (?s (?B a # b # bs) us) (?s (b # bs) (us @ [?B a]))" for a b bs us
    using pool_step.take [of 1 "?s (?B a # b # bs) us"] assms
    by (simp add: pool_take_def retrieve_buffer_def)
  have 3: "pool_step (?s bs (?B a # us)) (?s (bs @ [?B a]) us)" for a bs us
    using pool_step.finish [of "?s bs (?B a # us)" "[]" "?B a" us] by (simp add: return_buffer_def)
  have "reaches pool_step (?s [?B 0, ?B 1] []) (?s [Buffer_default, ?B 0, ?B 1] [])"
  proof -
    have "reaches pool_step (?s [?B 0, ?B 1] []) (?s [?B 0, ?B 1, Buffer_default] [])"
      using reaches_step [where step = pool_step, OF reaches_refl 1 [of "[?B 0, ?B 1]" "[]"]] by simp
    then have "reaches pool_step (?s [?B 0, ?B 1] []) (?s [?B 1, Buffer_default] [?B 0])"
      using reaches_step [where step = pool_step, OF _ 2 [of 0 "?B 1" "[Buffer_default]" "[]"]] by simp
    then have "reaches pool_step (?s [?B 0, ?B 1] []) (?s [Buffer_default] [?B 0, ?B 1])"
      using reaches_step [where step = pool_step, OF _ 2 [of 1 Buffer_default "[]" "[?B 0]"]] by simp
    then have "reaches pool_step (?s [?B 0, ?B 1] []) (?s [Buffer_default, ?B 0] [?B 1])"
      using reaches_step [where step = pool_step, OF _ 3 [of "[Buffer_default]" 0 "[?B 1]"]] by simp
    then show ?thesis
      using reaches_step [where step = pool_step, OF _ 3 [of "[Buffer_default, ?B 0]" 1 "[]"]] by simp
  qed
  then show ?thesis
    unfolding i by (intro exI conjI) (auto simp: retrieve_buffer_def)
qed

end
