(* ===== verification/Session_Runtime.thy ===== *)
theory Session_Runtime
  imports Runtime_Messages Buffer_Queue Shared_Memory
begin

text \<open>
  The session executable: functions and their workers (\<open>src/runtime/include/praas/function.hpp\<close>,
  \<open>src/runtime/lib/function.cpp\<close>), the output channel to the client
  (\<open>src/runtime/include/praas/output.hpp\<close>) and the session itself (\<open>Session\<close> of
  \<open>session.hpp\<close> and \<open>session.cpp\<close>). The functions a session runs come from shared libraries of
  the user and are a parameter; what the sockets deliver and what \<open>send\<close> returns are inputs. The
  session refines the pool of \<open>Buffer_Queue\<close>.
\<close>

section \<open>The functions library\<close>

record FunctionsLibrary =
  libraries :: "string \<rightharpoonup> nat"
  lib_functions :: "string \<rightharpoonup> nat"





definition get_function :: "string \<Rightarrow> FunctionsLibrary \<Rightarrow> ptr" where
  "get_function name lib = lib_functions lib name"

section \<open>The output channel\<close>

text \<open>
  Each operation gets the results of its calls of \<open>send\<close>, -1 or the number of bytes taken, and the
  uninitialised \<open>FunctionMessage\<close>; it returns the bytes that went out.
\<close>

definition Channel_send :: "int \<Rightarrow> int \<Rightarrow> bytes \<Rightarrow> bytes \<Rightarrow> i32 \<Rightarrow> string \<Rightarrow> bool \<times> bytes list" where
  "Channel_send r1 r2 junk pl psize fid =
     (let msg = FunctionMessage_fill_payload psize fid junk in
      if r1 = -1 then (False, [])
      else if psize \<noteq> 0 then
        if r2 = -1 then (False, [take (nat r1) msg])
        else (True, [take (nat r1) msg, take (nat r2) (take (nat (sint psize)) pl)])
      else (True, [take (nat r1) msg]))"

definition Channel_mark_end :: "int \<Rightarrow> bytes \<Rightarrow> i32 \<Rightarrow> string \<Rightarrow> bool \<times> bytes list" where
  "Channel_mark_end r junk return_code fid =
     (let msg = FunctionMessage_fill_end (ucast return_code) fid junk in
      if r = -1 then (False, []) else (True, [take (nat r) msg]))"

definition Channel_send_error :: "int \<Rightarrow> bytes \<Rightarrow> Status \<Rightarrow> string \<Rightarrow> bool \<times> bytes list" where
  "Channel_send_error r junk status fid =
     (let msg = FunctionMessage_fill_error status fid junk in
      if r = -1 then (False, []) else (True, [take (nat r) msg]))"

section \<open>Sessions\<close>

text \<open>An invocation in the thread pool.\<close>

record invocation =
  i_fname :: string
  i_fid :: string
  i_bytes :: int
  i_data :: bytes
  i_buf :: Buffer

text \<open>
  A session. \<open>overflowed\<close> records that \<open>read_n\<close> stored a payload in a block smaller than it.
\<close>

record RSession =
  s_shm :: SharedMemory
  s_buffers :: BufferQueue
  s_memory_size :: i32
  s_session_id :: string
  s_ending :: bool
  s_library :: FunctionsLibrary
  s_heap :: "nat heap"
  s_pool :: "invocation list"
  overflowed :: bool

text \<open>The constructor: two buffers of 6 MiB per function.\<close>

definition RSession_init :: "FunctionsLibrary \<Rightarrow> string \<Rightarrow> i32 \<Rightarrow> i32 \<Rightarrow> RSession" where
  "RSession_init lib sid mf ms =
     (let (q, h) = BufferQueue_init (unat (scast (2 * mf) :: 64 word)) (6 * 1024 * 1024) heap_empty
      in \<lparr>s_shm = SharedMemory_default, s_buffers = q, s_memory_size = ms, s_session_id = sid, s_ending = False,
          s_library = lib, s_heap = h, s_pool = [], overflowed = False\<rparr>)"

text \<open>
  What one call of \<open>receive\<close> reads: the result of \<open>read\<close>, the message buffer after it, the result
  of \<open>read_n\<close> for the payload and the payload, and the result of sending an error.
\<close>

record recv_in =
  r_bytes :: int
  r_data :: bytes
  r_payload :: int
  r_pdata :: bytes
  r_send :: int
  r_junk :: bytes

definition Session_receive :: "recv_in \<Rightarrow> RSession \<Rightarrow> bool \<times> RSession \<times> bytes list" where
  "Session_receive r s =
     (if r_bytes r = 0 then (False, s, [])
      else if r_bytes r = -1 then (True, s, [])
      else case RecvMessageBuffer_parse (r_data r) (r_bytes r) of
        Some (FunctionRequestMsg msg) \<Rightarrow>
          (let fname = FunctionRequestMsg_function_name msg; fid = FunctionRequestMsg_function_id msg in
           if fname = '''' then (True, s, [])
           else if 0 < sint (FunctionRequestMsg_payload msg) then
             let n = nat (sint (FunctionRequestMsg_payload msg));
                 (buf, q, h) = retrieve_buffer n (s_buffers s) (s_heap s);
                 s = s\<lparr>s_buffers := q, s_heap := h\<rparr>
             in if buf_size buf = 0
                then (True, s, snd (Channel_send_error (r_send r) (r_junk r) OUT_OF_MEMORY fid))
                else (True, s\<lparr>s_pool := s_pool s @ [\<lparr>i_fname = fname, i_fid = fid, i_bytes = r_payload r, i_data = r_pdata r, i_buf = buf\<rparr>],
                       overflowed := (overflowed s \<or> int (buf_size buf) < r_payload r)\<rparr>, [])
           else (True, s\<lparr>s_pool := s_pool s @ [\<lparr>i_fname = fname, i_fid = fid, i_bytes = 0, i_data = [], i_buf = Buffer_default\<rparr>]\<rparr>, []))
      | _ \<Rightarrow> (True, s, snd (Channel_send_error (r_send r) (r_junk r) UNKNOWN_REQUEST '''')))"

text \<open>
  A function of the user: from its payload and its size, the contents and the size of the shared
  memory and the invocation identifier to its return code, the pointers and sizes it passes to
  \<open>Channel::send\<close>, and what it stores at the beginning of the shared memory. Both sizes are \<open>uint32_t\<close>
  in \<open>FuncType\<close>. A function that looks at the results of its sends is not covered; those of
  \<open>src/examples/example.cpp\<close> ignore them.
\<close>

type_synonym user_function = "bytes \<Rightarrow> 32 word \<Rightarrow> bytes \<Rightarrow> 32 word \<Rightarrow> string \<Rightarrow> i32 \<times> (bytes \<times> i32) list \<times> bytes"

text \<open>
  What the calls of \<open>::send\<close> of one invocation return: two for each \<open>Channel::send\<close> of the function, and the
  one of the end mark or of the error.
\<close>

record send_results =
  sr_payload :: "nat \<Rightarrow> int \<times> int"
  sr_last :: int

fun send_all :: "(nat \<Rightarrow> int \<times> int) \<Rightarrow> bytes \<Rightarrow> string \<Rightarrow> (bytes \<times> i32) list \<Rightarrow> bytes list" where
  "send_all rs junk fid [] = []"
| "send_all rs junk fid ((pl, n) # pls) =
     snd (Channel_send (fst (rs 0)) (snd (rs 0)) junk pl n fid) @ send_all (\<lambda>k. rs (Suc k)) junk fid pls"

definition FunctionWorker_run ::
  "(nat \<Rightarrow> user_function) \<Rightarrow> send_results \<Rightarrow> bytes \<Rightarrow> invocation \<Rightarrow> RSession \<Rightarrow> os \<Rightarrow> os \<times> bytes list" where
  "FunctionWorker_run code sr junk i s os =
     (case get_function (i_fname i) (s_library s) of
        None \<Rightarrow> (os, snd (Channel_send_error (sr_last sr) junk UNKNOWN_FUNCTION (i_fid i)))
      | Some f \<Rightarrow>
          (let (return_code, pls, stored) =
                 code f (i_data i) (word_of_int (i_bytes i)) (memory_contents (s_shm s) os) (shm_size (s_shm s)) (i_fid i)
           in (shm_store (s_shm s) stored os,
               send_all (sr_payload sr) junk (i_fid i) pls @ snd (Channel_mark_end (sr_last sr) junk return_code (i_fid i)))))"

text \<open>\<open>invoke\<close> returns the buffer whatever happened, also the null buffer.\<close>

definition FunctionWorker_invoke ::
  "(nat \<Rightarrow> user_function) \<Rightarrow> send_results \<Rightarrow> bytes \<Rightarrow> invocation \<Rightarrow> RSession \<Rightarrow> os \<Rightarrow> RSession \<times> os \<times> bytes list" where
  "FunctionWorker_invoke code sr junk i s os =
     (let (os', out) = FunctionWorker_run code sr junk i s os
      in (s\<lparr>s_buffers := return_buffer (i_buf i) (s_buffers s)\<rparr>, os', out))"

text \<open>One worker per thread of the pool, created at its first use.\<close>

definition FunctionWorkers_get :: "nat \<Rightarrow> nat set \<Rightarrow> nat set" where
  "FunctionWorkers_get thread_id ws = (if thread_id \<in> ws then ws else insert thread_id ws)"

definition Session_shutdown :: "RSession \<Rightarrow> RSession" where
  "Session_shutdown s = s\<lparr>s_ending := True\<rparr>"

text \<open>The loop over the data plane.\<close>

fun session_loop :: "recv_in list \<Rightarrow> RSession \<Rightarrow> RSession \<times> bytes list" where
  "session_loop [] s = (s, [])"
| "session_loop (r # rs) s =
     (if s_ending s then (s, [])
      else let (go, s, out) = Session_receive r s
           in if \<not> go then (s, out)
              else let (s, outs) = session_loop rs s in (s, out @ outs))"

text \<open>
  \<open>start\<close>: \<open>connect\<close> tells whether the control plane accepts a connection at an address and port,
  \<open>junk\<close> is the uninitialised port. The results: the bytes sent to the control plane and to the client.
\<close>

definition Session_start ::
  "shm_env \<Rightarrow> (string \<Rightarrow> i32 \<Rightarrow> bool) \<Rightarrow> i32 \<Rightarrow> string \<Rightarrow> recv_in \<Rightarrow> recv_in list \<Rightarrow> RSession \<Rightarrow> os \<Rightarrow>
     RSession \<times> os \<times> bytes list \<times> bytes list" where
  "Session_start env connect junk control_plane_addr first rs s os =
     (let (shm, os) = SharedMemory_open env (s_session_id s) (s_memory_size s) os in
      case shm of None \<Rightarrow> (s, os, [], [])
      | Some m \<Rightarrow>
          (let s = s\<lparr>s_shm := fst (SharedMemory_assign (s_shm s) m)\<rparr>;
               (ip_address, port_str) = split control_plane_addr (CHR '':'');
               port = from_chars32 port_str junk
           in if \<not> connect ip_address port then (s, os, [], [])
              else
                let ident = fill_session_identification (s_session_id s) SendMessage_init;
                    (_, s, out) = Session_receive first s;
                    (s, outs) = session_loop rs s
                in (s, os, [ident], out @ outs)))"

section \<open>The session as a machine\<close>

text \<open>
  Messages arrive, and a thread of the pool finishes any of the queued invocations, with any contents
  of the shared memory and any results of its sends.
\<close>

inductive session_step :: "(nat \<Rightarrow> user_function) \<Rightarrow> RSession \<Rightarrow> RSession \<Rightarrow> bool" for code where
  receive: "Session_receive r s = (go, s', out) \<Longrightarrow> session_step code s s'"
| invoke: "s_pool s = xs @ i # ys \<Longrightarrow> FunctionWorker_invoke code sr junk i (s\<lparr>s_pool := xs @ ys\<rparr>) os = (s', os', out) \<Longrightarrow>
     session_step code s s'"
| shutdown: "session_step code s (Session_shutdown s)"

inductive_cases session_stepE: "session_step code s t"

text \<open>The pool of buffers a session uses, as \<open>Buffer_Queue\<close> sees it.\<close>

definition pool_of :: "RSession \<Rightarrow> pool" where
  "pool_of s = \<lparr>queue = s_buffers s, in_use = filter (\<lambda>b. buf_size b \<noteq> 0) (map i_buf (s_pool s)), heap_of = s_heap s\<rparr>"

text \<open>An invocation without a block carries the default buffer.\<close>

definition bufs_ok :: "RSession \<Rightarrow> bool" where
  "bufs_ok s \<longleftrightarrow> (\<forall>i \<in> set (s_pool s). buf_size (i_buf i) = 0 \<longrightarrow> i_buf i = Buffer_default)"

section \<open>A session refines the pool of buffers\<close>

lemma filter_sizes_split:
  "filter (\<lambda>b. buf_size b \<noteq> 0) (map i_buf (xs @ i # ys)) =
     filter (\<lambda>b. buf_size b \<noteq> 0) (map i_buf xs) @
     (if buf_size (i_buf i) = 0 then [] else [i_buf i]) @ filter (\<lambda>b. buf_size b \<noteq> 0) (map i_buf ys)"
  by simp

lemma receive_cases:
  assumes "Session_receive r s = (go, s', out)"
  obtains
    (idle) "s' = s"
  | (no_memory) n where "0 < n" "buf_size (fst (retrieve_buffer n (s_buffers s) (s_heap s))) = 0"
      "s' = s\<lparr>s_buffers := fst (snd (retrieve_buffer n (s_buffers s) (s_heap s))),
              s_heap := snd (snd (retrieve_buffer n (s_buffers s) (s_heap s)))\<rparr>"
  | (payload) n i ov where "0 < n" "buf_size (fst (retrieve_buffer n (s_buffers s) (s_heap s))) \<noteq> 0"
      "i_buf i = fst (retrieve_buffer n (s_buffers s) (s_heap s))"
      "s' = s\<lparr>s_buffers := fst (snd (retrieve_buffer n (s_buffers s) (s_heap s))),
              s_heap := snd (snd (retrieve_buffer n (s_buffers s) (s_heap s))), s_pool := s_pool s @ [i],
              overflowed := ov\<rparr>"
  | (empty) i where "i_buf i = Buffer_default" "s' = s\<lparr>s_pool := s_pool s @ [i]\<rparr>"
proof (cases "\<exists>msg. RecvMessageBuffer_parse (r_data r) (r_bytes r) = Some (FunctionRequestMsg msg) \<and>
    FunctionRequestMsg_function_name msg \<noteq> '''' \<and> r_bytes r \<noteq> 0 \<and> r_bytes r \<noteq> -1")
  case False
  with assms have "s' = s"
    by (auto simp: Session_receive_def Let_def split: if_splits option.splits recv_message.splits)
  then show ?thesis by (rule idle)
next
  case True
  then obtain msg where m: "RecvMessageBuffer_parse (r_data r) (r_bytes r) = Some (FunctionRequestMsg msg)"
    "FunctionRequestMsg_function_name msg \<noteq> ''''" "r_bytes r \<noteq> 0" "r_bytes r \<noteq> -1" by blast
  show ?thesis
  proof (cases "0 < sint (FunctionRequestMsg_payload msg)")
    case False
    with m assms show ?thesis by (intro empty) (auto simp: Session_receive_def Let_def)
  next
    case True
    let ?n = "nat (sint (FunctionRequestMsg_payload msg))"
    obtain buf q h where rb: "retrieve_buffer ?n (s_buffers s) (s_heap s) = (buf, q, h)" using prod_cases3 by blast
    have n: "0 < ?n" using True by simp
    show ?thesis
    proof (cases "buf_size buf = 0")
      case b: True
      with n rb m True assms show ?thesis by (intro no_memory [of ?n]) (auto simp: Session_receive_def Let_def)
    next
      case b: False
      with n rb m True assms show ?thesis
        by (intro payload [of ?n "\<lparr>i_fname = FunctionRequestMsg_function_name msg, i_fid = FunctionRequestMsg_function_id msg,
            i_bytes = r_payload r, i_data = r_pdata r, i_buf = buf\<rparr>"])
          (auto simp: Session_receive_def Let_def)
    qed
  qed
qed

text \<open>
  Simulation: a step of the session is a step of the pool or leaves it alone.
\<close>

lemma session_step_pool:
  assumes "session_step code s t" and "bufs_ok s"
  shows "(pool_step (pool_of s) (pool_of t) \<or> pool_of t = pool_of s) \<and> bufs_ok t"
  using assms
proof (induction rule: session_step.induct)
  case (receive r s go s' out)
  from receive(1) show ?case
  proof (cases rule: receive_cases)
    case idle
    with receive show ?thesis by simp
  next
    case (no_memory n)
    then have "pool_of s' = pool_take n (pool_of s)"
      by (simp add: pool_of_def pool_take_def case_prod_beta)
    with no_memory receive pool_step.take [of n "pool_of s"] show ?thesis by (simp add: bufs_ok_def)
  next
    case (payload n i ov)
    then have "pool_of s' = pool_take n (pool_of s)"
      by (simp add: pool_of_def pool_take_def case_prod_beta)
    with payload receive pool_step.take [of n "pool_of s"] show ?thesis by (auto simp: bufs_ok_def)
  next
    case (empty i)
    with receive show ?thesis by (auto simp: pool_of_def bufs_ok_def Buffer_default_def)
  qed
next
  case (invoke s xs i ys sr junk os s' os' out)
  have s': "s' = s\<lparr>s_pool := xs @ ys, s_buffers := return_buffer (i_buf i) (s_buffers s)\<rparr>"
    using invoke(2) by (auto simp: FunctionWorker_invoke_def Let_def case_prod_beta)
  have ok: "bufs_ok s'" using invoke by (auto simp: bufs_ok_def s')
  show ?case
  proof (cases "buf_size (i_buf i) = 0")
    case True
    with invoke have "i_buf i = Buffer_default" by (simp add: bufs_ok_def)
    with True pool_step.finish_empty [of "pool_of s"] ok show ?thesis
      by (simp add: s' pool_of_def invoke(1))
  next
    case False
    let ?f = "\<lambda>is. filter (\<lambda>b. buf_size b \<noteq> 0) (map i_buf is)"
    have "in_use (pool_of s) = ?f xs @ i_buf i # ?f ys" using False by (simp add: pool_of_def invoke(1))
    from pool_step.finish [OF this] ok show ?thesis
      by (simp add: s' pool_of_def)
  qed
next
  case (shutdown s)
  then show ?case by (simp add: pool_of_def bufs_ok_def Session_shutdown_def)
qed

lemma session_reaches_pool:
  assumes "reaches (session_step code) s t" and "bufs_ok s"
  shows "reaches pool_step (pool_of s) (pool_of t) \<and> bufs_ok t"
  using assms
proof (induction rule: reaches.induct)
  case (reaches_step s t u)
  then have "reaches pool_step (pool_of s) (pool_of t)" "bufs_ok t" by simp_all
  with session_step_pool [OF reaches_step.hyps(2)] show ?case
    by (metis reaches.reaches_step)
qed auto

lemma pool_of_init:
  "pool_of (RSession_init lib sid mf ms) = pool_init (unat (scast (2 * mf) :: 64 word)) 6291456"
  by (simp add: pool_of_def RSession_init_def pool_init_def case_prod_beta)

section \<open>Properties\<close>

text \<open>
  C10: a session uses its buffers as the pool does, so that in every state it reaches, whatever
  the order of messages and finishing invocations, no two invocations that run at the same time
  share a block, and each owns a live block of the size its buffer records.
\<close>

theorem concurrent_invocations_disjoint:
  assumes "reaches (session_step code) (RSession_init lib sid mf ms) s"
  shows "reaches pool_step (pool_init (unat (scast (2 * mf) :: 64 word)) 6291456) (pool_of s) \<and>
    distinct (addrs (map i_buf (s_pool s))) \<and>
    (\<forall>i \<in> set (s_pool s). buf_size (i_buf i) \<noteq> 0 \<longrightarrow>
       (\<exists>a. val (i_buf i) = Some a \<and> blocks (s_heap s) a = Some (buf_size (i_buf i))))"
proof -
  have "bufs_ok (RSession_init lib sid mf ms)" by (simp add: bufs_ok_def RSession_init_def case_prod_beta)
  from session_reaches_pool [OF assms this]
  have r: "reaches pool_step (pool_init (unat (scast (2 * mf) :: 64 word)) 6291456) (pool_of s)"
    and ok: "bufs_ok s" by (simp_all add: pool_of_init)
  have inv: "pool_inv (pool_of s)"
    by (rule pool.reaches_inv [OF r pool_init_inv]) simp
  have "addrs (filter (\<lambda>b. buf_size b \<noteq> 0) (map i_buf is)) = addrs (map i_buf is)"
    if "\<forall>i \<in> set is. buf_size (i_buf i) = 0 \<longrightarrow> i_buf i = Buffer_default" for "is"
    using that by (induction "is") (auto simp: Buffer_default_def split: option.splits)
  then have "addrs (in_use (pool_of s)) = addrs (map i_buf (s_pool s))"
    using ok by (simp add: pool_of_def bufs_ok_def)
  moreover have "distinct (addrs (in_use (pool_of s)))" using inv by (simp add: pool_inv_def owned_def)
  moreover have "\<exists>a. val b = Some a \<and> blocks (s_heap s) a = Some (buf_size b)" if "b \<in> set (in_use (pool_of s))" for b
    using pool_inv_in_use [OF inv that] by (simp add: pool_of_def)
  ultimately show ?thesis using r by (auto simp: pool_of_def)
qed

definition demo_lib :: FunctionsLibrary where
  "demo_lib = \<lparr>libraries = [''lib.so'' \<mapsto> 1], lib_functions = [''f'' \<mapsto> 2]\<rparr>"

definition demo_recv :: recv_in where
  "demo_recv = \<lparr>r_bytes = 39, r_data = invocation_encode (''f'', ''1'', 5), r_payload = 5, r_pdata = [1, 2, 3, 4, 5],
     r_send = 24, r_junk = replicate 24 0\<rparr>"

theorem concurrent_invocations_disjoint_witness:
  "\<exists>s. reaches (session_step (\<lambda>_ _ _ _ _ _. (0, [], []))) (RSession_init demo_lib ''s'' 1 64) s \<and>
     s = fst (snd (Session_receive demo_recv (RSession_init demo_lib ''s'' 1 64))) \<and>
     distinct (addrs (map i_buf (s_pool s)))"
proof -
  let ?s = "RSession_init demo_lib ''s'' 1 64" and ?code = "\<lambda>_ _ _ _ _ _. (0, [], [])"
  have "session_step ?code ?s (fst (snd (Session_receive demo_recv ?s)))"
    by (rule session_step.receive [of demo_recv _ "fst (Session_receive demo_recv ?s)" _
        "snd (snd (Session_receive demo_recv ?s))"]) simp
  then have "reaches (session_step ?code) ?s (fst (snd (Session_receive demo_recv ?s)))"
    by (rule reaches_step [where step = "session_step ?code", OF reaches_refl])
  with concurrent_invocations_disjoint [OF this] show ?thesis by blast
qed

lemma length_function_messages:
  "length b = 24 \<Longrightarrow> length (FunctionMessage_fill_payload n fid b) = 24"
  "length b = 24 \<Longrightarrow> length (FunctionMessage_fill_error st fid b) = 24"
  "length b = 24 \<Longrightarrow> length (FunctionMessage_fill_end rc fid b) = 24"
  by (simp_all add: FunctionMessage_fill_payload_def FunctionMessage_fill_error_def FunctionMessage_fill_end_def
      Let_def message_ops length_put)

text \<open>
  The interpretation of a header that \<open>messages.hpp\<close> documents for the receiver: a number above
  0 is an error, a flag other than -1 ends the answer, and otherwise a payload of the given size
  follows. The first argument bounds the number of messages read; \<open>None\<close> means that the bytes end
  too early or belong to another invocation.
\<close>

datatype reply_end = Returned i16 | Failed i16

fun read_replies :: "nat \<Rightarrow> string \<Rightarrow> bytes \<Rightarrow> (bytes list \<times> reply_end \<times> bytes) option" where
  "read_replies 0 fid bs = None"
| "read_replies (Suc n) fid bs =
     (let h = take 24 bs; rest = drop 24 bs in
      if length bs < 24 \<or> string_nlen 8 16 h \<noteq> fid then None
      else if get16 0 h \<noteq> 0 then Some ([], Failed (get16 0 h), rest)
      else if get16 2 h \<noteq> -1 then Some ([], Returned (get16 2 h), rest)
      else let k = nat (sint (get32 4 h)) in
        if length rest < k then None
        else map_option (\<lambda>(pls, e, r). (take k rest # pls, e, r)) (read_replies n fid (drop k rest)))"

lemma reply_fields:
  assumes "length b = 24" and "name16 fid"
  shows "string_nlen 8 16 (FunctionMessage_fill_payload n fid b) = fid"
    and "get16 0 (FunctionMessage_fill_payload n fid b) = 0"
    and "get16 2 (FunctionMessage_fill_payload n fid b) = -1"
    and "get32 4 (FunctionMessage_fill_payload n fid b) = n"
    and "string_nlen 8 16 (FunctionMessage_fill_error st fid b) = fid"
    and "get16 0 (FunctionMessage_fill_error st fid b) = status_code st"
    and "string_nlen 8 16 (FunctionMessage_fill_end rc fid b) = fid"
    and "get16 0 (FunctionMessage_fill_end rc fid b) = 0"
    and "get16 2 (FunctionMessage_fill_end rc fid b) = rc"
  using assms
  by (simp_all add: FunctionMessage_fill_payload_def FunctionMessage_fill_error_def FunctionMessage_fill_end_def
      Let_def message_ops field_laws)

text \<open>Every send of a function takes all its bytes, and passes at least as many bytes as it says.\<close>

fun complete_sends :: "(nat \<Rightarrow> int \<times> int) \<Rightarrow> (bytes \<times> i32) list \<Rightarrow> bool" where
  "complete_sends rs [] \<longleftrightarrow> True"
| "complete_sends rs ((pl, n) # pls) \<longleftrightarrow>
     fst (rs 0) = 24 \<and> (n \<noteq> 0 \<longrightarrow> snd (rs 0) = sint n) \<and> 0 \<le> sint n \<and> sint n \<le> int (length pl) \<and>
     complete_sends (\<lambda>k. rs (Suc k)) pls"

definition payload_of :: "bytes \<times> i32 \<Rightarrow> bytes" where
  "payload_of p = take (nat (sint (snd p))) (fst p)"

lemma complete_send:
  assumes "length junk = 24" and "complete_sends rs ((pl, n) # pls)"
  shows "concat (snd (Channel_send (fst (rs 0)) (snd (rs 0)) junk pl n fid)) =
      FunctionMessage_fill_payload n fid junk @ payload_of (pl, n)"
    and "length (payload_of (pl, n)) = nat (sint n)"
  using assms by (auto simp: Channel_send_def Let_def length_function_messages payload_of_def)

lemma read_payloads:
  assumes "length junk = 24" and "name16 fid" and "complete_sends rs pls"
  shows "read_replies n fid (concat (send_all rs junk fid pls) @ fin) =
    map_option (\<lambda>(ps, e, r). (map payload_of pls @ ps, e, r)) (read_replies (n - length pls) fid fin)"
  using assms(3)
proof (induction pls arbitrary: rs n)
  case Nil
  then show ?case by (simp add: option.map_ident case_prod_beta)
next
  case (Cons p pls)
  obtain pl m where p: "p = (pl, m)" by (cases p)
  show ?case
  proof (cases n)
    case (Suc k)
    have c: "complete_sends (\<lambda>k. rs (Suc k)) pls" using Cons.prems p by simp
    note s = complete_send [OF assms(1) Cons.prems [unfolded p]]
    have "read_replies n fid (concat (send_all rs junk fid (p # pls)) @ fin) =
      map_option (\<lambda>(ps, e, r). (payload_of p # ps, e, r))
        (read_replies k fid (concat (send_all (\<lambda>k. rs (Suc k)) junk fid pls) @ fin))"
      using assms(1,2) s by (simp add: p Suc reply_fields length_function_messages Let_def)
    then show ?thesis by (simp add: Cons.IH [OF c] Suc option.map_comp comp_def case_prod_beta)
  qed simp
qed

text \<open>
  An end mark is told apart from the header of a coming payload by its flag, which is the
  function's return code cut to 16 bits. For a return code that is -1 modulo 65536, and only then,
  the end mark is the same 24 bytes as the header of an empty payload.
\<close>

lemma end_mark_ambiguous:
  assumes "length b = 24"
  shows "FunctionMessage_fill_end (ucast (rc :: i32)) fid b = FunctionMessage_fill_payload 0 fid b \<longleftrightarrow>
    (ucast rc :: i16) = -1"
proof
  assume "FunctionMessage_fill_end (ucast rc) fid b = FunctionMessage_fill_payload 0 fid b"
  then have "get16 2 (FunctionMessage_fill_end (ucast rc) fid b) = get16 2 (FunctionMessage_fill_payload 0 fid b)"
    by simp
  then show "(ucast rc :: i16) = -1"
    using assms by (simp add: FunctionMessage_fill_payload_def FunctionMessage_fill_end_def Let_def message_ops field_laws)
qed (simp add: FunctionMessage_fill_payload_def FunctionMessage_fill_end_def)

text \<open>A client that reads an end mark, and one that finds no end because it was not sent or reads as a payload.\<close>

lemma read_end:
  assumes "length junk = 24" and "name16 fid" and "0 < n"
  shows "(ucast (rc :: i32) :: i16) \<noteq> -1 \<Longrightarrow>
      read_replies n fid (FunctionMessage_fill_end (ucast rc) fid junk @ rest) = Some ([], Returned (ucast rc), rest)"
    and "(ucast rc :: i16) = -1 \<Longrightarrow> read_replies m fid (FunctionMessage_fill_end (ucast rc) fid junk) = None"
    and "read_replies n fid (FunctionMessage_fill_error UNKNOWN_FUNCTION fid junk @ rest) =
      Some ([], Failed (status_code UNKNOWN_FUNCTION), rest)"
    and "read_replies m fid [] = None"
proof -
  obtain k where n: "n = Suc k" using assms(3) by (cases n) simp_all
  show none: "read_replies m fid [] = None" for m by (cases m) simp_all
  show "read_replies n fid (FunctionMessage_fill_end (ucast rc) fid junk @ rest) = Some ([], Returned (ucast rc), rest)"
    if "(ucast rc :: i16) \<noteq> -1"
    using assms(1,2) that by (simp add: n Let_def reply_fields length_function_messages)
  show "read_replies m fid (FunctionMessage_fill_end (ucast rc) fid junk) = None" if "(ucast rc :: i16) = -1"
  proof (cases m)
    case (Suc k)
    have "FunctionMessage_fill_end (ucast rc) fid junk = FunctionMessage_fill_payload 0 fid junk"
      using end_mark_ambiguous [OF assms(1)] that by blast
    with Suc assms(1,2) none [of k] show ?thesis by (simp add: Let_def reply_fields length_function_messages)
  qed simp
  show "read_replies n fid (FunctionMessage_fill_error UNKNOWN_FUNCTION fid junk @ rest) =
      Some ([], Failed (status_code UNKNOWN_FUNCTION), rest)"
    using assms(1,2) by (simp add: n Let_def reply_fields length_function_messages)
qed

lemma invoke_result:
  assumes "FunctionWorker_invoke code sr junk i s os = (s', os', out)"
    and "get_function (i_fname i) (s_library s) = Some f"
    and "code f (i_data i) (word_of_int (i_bytes i)) (memory_contents (s_shm s) os) (shm_size (s_shm s)) (i_fid i) = (rc, pls, stored)"
  shows "s' = s\<lparr>s_buffers := return_buffer (i_buf i) (s_buffers s)\<rparr> \<and> os' = shm_store (s_shm s) stored os"
    and "length junk = 24 \<Longrightarrow> sr_last sr = 24 \<Longrightarrow>
      concat out = concat (send_all (sr_payload sr) junk (i_fid i) pls) @ FunctionMessage_fill_end (ucast rc) (i_fid i) junk"
    and "sr_last sr = -1 \<Longrightarrow> concat out = concat (send_all (sr_payload sr) junk (i_fid i) pls)"
  using assms length_function_messages(3) [of junk]
  by (auto simp: FunctionWorker_invoke_def FunctionWorker_run_def Channel_mark_end_def Let_def)

lemma invoke_replies:
  assumes "length junk = 24" and "name16 (i_fid i)" and "FunctionWorker_invoke code sr junk i s os = (s', os', out)"
    and "get_function (i_fname i) (s_library s) = Some f"
    and "code f (i_data i) (word_of_int (i_bytes i)) (memory_contents (s_shm s) os) (shm_size (s_shm s)) (i_fid i) = (rc, pls, stored)"
    and "complete_sends (sr_payload sr) pls"
  shows "sr_last sr = 24 \<Longrightarrow> (ucast rc :: i16) \<noteq> -1 \<Longrightarrow> length pls < n \<Longrightarrow>
      read_replies n (i_fid i) (concat out @ rest) = Some (map payload_of pls, Returned (ucast rc), rest)"
    and "sr_last sr = -1 \<or> sr_last sr = 24 \<and> (ucast rc :: i16) = -1 \<Longrightarrow> read_replies m (i_fid i) (concat out) = None"
proof -
  note r = invoke_result [OF assms(3-5)] and p = read_payloads [OF assms(1,2,6)] and e = read_end [OF assms(1,2)]
  show "read_replies n (i_fid i) (concat out @ rest) = Some (map payload_of pls, Returned (ucast rc), rest)"
    if "sr_last sr = 24" "(ucast rc :: i16) \<noteq> -1" "length pls < n"
    using r(2) [OF assms(1) that(1)] p e(1) [of "n - length pls" rc rest] that(2,3) by simp
  show "read_replies m (i_fid i) (concat out) = None"
    if "sr_last sr = -1 \<or> sr_last sr = 24 \<and> (ucast rc :: i16) = -1"
    using that r(2) [OF assms(1)] r(3) p [of m "[]"] p e(2,4) [of 1] by auto
qed

lemma unknown_replies:
  assumes "length junk = 24" and "name16 (i_fid i)" and "FunctionWorker_invoke code sr junk i s os = (s', os', out)"
    and "get_function (i_fname i) (s_library s) = None"
  shows "s' = s\<lparr>s_buffers := return_buffer (i_buf i) (s_buffers s)\<rparr> \<and> os' = os"
    and "sr_last sr = 24 \<Longrightarrow> 0 < n \<Longrightarrow>
      read_replies n (i_fid i) (concat out @ rest) = Some ([], Failed (status_code UNKNOWN_FUNCTION), rest)"
    and "sr_last sr = -1 \<Longrightarrow> out = []"
  using assms length_function_messages(2) [OF assms(1)] read_end(3) [OF assms(1,2)]
  by (auto simp: FunctionWorker_invoke_def FunctionWorker_run_def Channel_send_error_def Let_def)

text \<open>
  C16: what a session writes for an invocation, as a client reads it that follows the documented
  interpretation of the headers. When every \<open>::send\<close> takes all its bytes, the client reads for a known function
  exactly the payloads it sent, in order, and its return code cut to 16 bits, provided that this is
  not -1; for an unknown function it reads the error \<open>UNKNOWN_FUNCTION\<close> alone. Nothing of the bytes that follow is
  taken. When the return code is -1 modulo 65536, or the end mark or the error is not sent, the client finds no
  end of the answer, however much it reads. Whatever the sends return, the buffer of the invocation
  goes back to the queue, and the memory of the session holds what the function stored.
\<close>

theorem invocation_outcome:
  assumes "length junk = 24" and "name16 (i_fid i)" and "FunctionWorker_invoke code sr junk i s os = (s', os', out)"
    and "f = get_function (i_fname i) (s_library s)"
    and "f \<noteq> None \<Longrightarrow> code (the f) (i_data i) (word_of_int (i_bytes i)) (memory_contents (s_shm s) os)
      (shm_size (s_shm s)) (i_fid i) = (rc, pls, stored)"
  shows "(complete_sends (sr_payload sr) pls \<longrightarrow> sr_last sr = 24 \<longrightarrow> f \<noteq> None \<longrightarrow> (ucast rc :: i16) \<noteq> -1 \<longrightarrow> length pls < n \<longrightarrow>
      read_replies n (i_fid i) (concat out @ rest) = Some (map payload_of pls, Returned (ucast rc), rest)) \<and>
    (sr_last sr = 24 \<longrightarrow> f = None \<longrightarrow> 0 < n \<longrightarrow>
      read_replies n (i_fid i) (concat out @ rest) = Some ([], Failed (status_code UNKNOWN_FUNCTION), rest)) \<and>
    (complete_sends (sr_payload sr) pls \<longrightarrow> sr_last sr = -1 \<or> sr_last sr = 24 \<and> f \<noteq> None \<and> (ucast rc :: i16) = -1 \<longrightarrow>
      (\<forall>m. read_replies m (i_fid i) (concat out) = None)) \<and>
    s' = s\<lparr>s_buffers := return_buffer (i_buf i) (s_buffers s)\<rparr> \<and>
    os' = (if f = None then os else shm_store (s_shm s) stored os)"
proof (cases f)
  case None
  note u = unknown_replies [OF assms(1-3)]
  from None assms(4) u(1,2,3) read_end(4) [OF assms(1,2), of 1] show ?thesis by auto
next
  case (Some g)
  have g: "get_function (i_fname i) (s_library s) = Some g" using Some assms(4) by simp
  have c: "code g (i_data i) (word_of_int (i_bytes i)) (memory_contents (s_shm s) os)
      (shm_size (s_shm s)) (i_fid i) = (rc, pls, stored)" using Some assms(5) by simp
  from Some invoke_result(1) [OF assms(3) g c] invoke_replies [OF assms(1-3) g c] show ?thesis by auto
qed

definition full_sends :: send_results where
  "full_sends = \<lparr>sr_payload = \<lambda>k. (24, if k = 0 then 2 else 0), sr_last = 24\<rparr>"

theorem invocation_outcome_witness:
  "read_replies 3 ''1'' (concat (snd (snd (FunctionWorker_invoke (\<lambda>_ _ _ _ _ _. (7, [([1, 2], 2), ([], 0)], [])) full_sends (replicate 24 0)
     \<lparr>i_fname = ''f'', i_fid = ''1'', i_bytes = 0, i_data = [], i_buf = Buffer_default\<rparr>
     (RSession_init demo_lib ''s'' 0 64) empty_os))) @ [9]) = Some ([[1, 2], []], Returned 7, [9])"
proof -
  let ?i = "\<lparr>i_fname = ''f'', i_fid = ''1'', i_bytes = 0, i_data = [], i_buf = Buffer_default\<rparr>"
  let ?s = "RSession_init demo_lib ''s'' 0 64" and ?pls = "[([1, 2], 2), ([], 0)]"
  let ?code = "\<lambda>_ _ _ _ _ _. (7, ?pls, [])"
  have f: "get_function ''f'' (s_library ?s) = Some 2"
    by (simp add: get_function_def RSession_init_def case_prod_beta demo_lib_def)
  obtain s' os' out where r: "FunctionWorker_invoke ?code full_sends (replicate 24 0) ?i ?s empty_os = (s', os', out)"
    using prod_cases3 by blast
  have pre: "length (replicate 24 (0 :: byte)) = 24" "name16 (i_fid ?i)" by (simp_all add: name16_def)
  have c: "complete_sends (sr_payload full_sends) ?pls" "sr_last full_sends = 24" "map payload_of ?pls = [[1, 2], []]"
    by (simp_all add: full_sends_def payload_of_def)
  have "read_replies 3 (i_fid ?i) (concat out @ [9]) = Some (map payload_of ?pls, Returned (ucast (7 :: i32)), [9])"
    using invocation_outcome [OF pre r refl, of 7 ?pls "[]" 3 "[9]"] f c(1,2) by simp
  with r c(3) show ?thesis by simp
qed

section \<open>Loading the functions\<close>






end
