(* ===== verification/Session_Memory.thy ===== *)
theory Session_Memory
  imports Session_Runtime Process_Runtime
begin

text \<open>
  The memory of a session from its creation to its swapping out, and the functions of
  \<open>src/examples/example.cpp\<close>. The process that created a shared memory object and the session
  that opened it hold two mappings of one object; what a function stores through one of them is
  what the next function reads and what the process swaps out when the session exits. The locale
  \<open>shared_view\<close> states this interface once, for any number of views and stores.
\<close>

section \<open>The example functions\<close>

text \<open>
  The functions take the two sizes as \<open>size_t\<close>, where the session passes \<open>uint32_t\<close>: they are the same numbers. The
  minimum of the two is stored in an \<open>int\<close>, and the size of a send is an \<open>int\<close>. A literal is
  sent with its terminating NUL. After a payload that could not be read, \<open>noop\<close> is called with the size
  \<open>2 ^ 32 - 1\<close> and sends the size -1.
\<close>

definition c_bytes :: "string \<Rightarrow> bytes" where
  "c_bytes s = map byte_of s @ [0]"

definition noop :: user_function where
  "noop input bytes shm shm_sz function_id = (0, [(input, bytes)], [])"

definition example :: user_function where
  "example input bytes shm shm_sz function_id = (0, [(c_bytes ''Hello, World!'', 14)], [])"

definition example2 :: user_function where
  "example2 input bytes shm shm_sz function_id =
     (0, [(c_bytes ''Hello, World!'', 14), (c_bytes ''Hello, World2!'', 15)], [])"

text \<open>\<open>memcpy\<close> takes the \<open>int\<close> as a \<open>size_t\<close>.\<close>

definition size_t :: "int \<Rightarrow> nat" where
  "size_t n = unat (word_of_int n :: 64 word)"

definition shm_example :: user_function where
  "shm_example buffer bytes shm shm_sz function_id =
     (let b = word_of_nat (min (unat bytes) (unat shm_sz)) :: i32;
          msg = ''Written '' @ to_string32 b @ '' bytes''
      in (0, [(c_bytes msg, word_of_nat (length msg + 1))], take (size_t (sint b)) buffer))"

text \<open>
  \<open>shm_read_example\<close> reads four bytes of its block whatever the size of the payload;
  \<open>beyond\<close> is what the block holds after the payload. A negative number becomes a huge
  \<open>size_t\<close>, so that the whole memory is sent.
\<close>

definition shm_read_example :: "bytes \<Rightarrow> user_function" where
  "shm_read_example beyond buffer bytes shm shm_sz function_id =
     (let bytes_to_read = size_t (sint (get32 0 (buffer @ beyond)));
          bytes_to_send = word_of_nat (min bytes_to_read (unat shm_sz)) :: i32
      in (0, [(shm, bytes_to_send)], []))"

section \<open>Views of one memory\<close>

text \<open>
  Several holders view one state \<open>b\<close>: \<open>view m b s\<close> says that \<open>m\<close> views contents \<open>b\<close> in the
  state \<open>s\<close>. A store through one view is seen by all of them.
\<close>

locale shared_view =
  fixes view :: "'m \<Rightarrow> 'b \<Rightarrow> 's \<Rightarrow> bool"
    and look :: "'m \<Rightarrow> 's \<Rightarrow> 'b"
    and store :: "'m \<Rightarrow> 'b \<Rightarrow> 's \<Rightarrow> 's"
    and over :: "'b \<Rightarrow> 'b \<Rightarrow> 'b"
    and fits :: "'b \<Rightarrow> 'b \<Rightarrow> bool"
  assumes look_view: "view m b s \<Longrightarrow> look m s = b"
    and store_view: "view m b s \<Longrightarrow> view m' b s \<Longrightarrow> fits d b \<Longrightarrow> view m' (over d b) (store m d s)"
    and fits_over: "fits d b \<Longrightarrow> fits d' (over d b) \<longleftrightarrow> fits d' b"
begin

lemma stores_view:
  assumes "\<forall>m \<in> M. view m b s" and "\<forall>(m, d) \<in> set ws. m \<in> M \<and> fits d b" and "m' \<in> M"
  shows "view m' (fold over (map snd ws) b) (fold (\<lambda>(m, d). store m d) ws s)"
  using assms
proof (induction ws arbitrary: b s)
  case (Cons w ws)
  obtain m d where w: "w = (m, d)" by (cases w)
  with Cons.prems have "\<forall>x \<in> M. view x (over d b) (store m d s)" using store_view by auto
  moreover have "\<forall>(x, e) \<in> set ws. x \<in> M \<and> fits e (over d b)" using Cons.prems w fits_over by auto
  ultimately show ?case using Cons.IH Cons.prems(3) w by simp
qed simp

lemma look_after_stores:
  assumes "\<forall>m \<in> M. view m b s" and "\<forall>(m, d) \<in> set ws. m \<in> M \<and> fits d b" and "m' \<in> M"
  shows "look m' (fold (\<lambda>(m, d). store m d) ws s) = fold over (map snd ws) b"
  using stores_view [OF assms] by (rule look_view)

end

text \<open>A mapping of all of an object, and a store at the beginning of it.\<close>

definition attached :: "string \<Rightarrow> SharedMemory \<Rightarrow> bytes \<Rightarrow> os \<Rightarrow> bool" where
  "attached name m bs os \<longleftrightarrow>
     (case shm_ptr m of None \<Rightarrow> False | Some a \<Rightarrow> mappings os a = Some name) \<and>
     segments os name = Some bs \<and> int (length bs) = sint (shm_size m)"

definition over_start :: "bytes \<Rightarrow> bytes \<Rightarrow> bytes" where
  "over_start d bs = d @ drop (length d) bs"

interpretation shm: shared_view "attached name" memory_contents shm_store over_start
    "\<lambda>d b. length d \<le> length b"
proof
  fix m m' b d os
  show "attached name m b os \<Longrightarrow> memory_contents m os = b"
    by (auto simp: attached_def memory_contents_def split: option.splits)
  have "nat (int (length b)) = length b" by simp
  then show "attached name m b os \<Longrightarrow> attached name m' b os \<Longrightarrow> length d \<le> length b \<Longrightarrow>
      attached name m' (over_start d b) (shm_store m d os)"
    by (auto simp: attached_def shm_store_def over_start_def put_def split: option.splits)
qed (simp add: over_start_def)

section \<open>Lemmas\<close>

lemma receive_shm: "Session_receive r s = (go, s', out) \<Longrightarrow> s_shm s' = s_shm s \<and> s_library s' = s_library s"
  by (erule receive_cases) simp_all

lemma session_loop_shm: "session_loop rs s = (s', out) \<Longrightarrow> s_shm s' = s_shm s \<and> s_library s' = s_library s"
  by (induction rs arbitrary: s s' out) (auto simp: Let_def dest: receive_shm split: if_splits prod.splits)

lemma create_attached:
  assumes "SharedMemory_create api sw st env sid kb os = (Some m, os')"
    and "0 \<le> sint kb" and "segments os (c_str (''/'' @ sid)) = None"
  shows "attached (c_str (''/'' @ sid)) m (replicate (nat (sint (shm_bytes kb))) 0) os'"
  using assms create_Some(2) [OF assms(1)]
  by (auto simp: attached_def SharedMemory_create_def Let_def map_segment_def resize_segment_def shm_bytes_def
      split: if_splits)

lemma open_attached:
  assumes "SharedMemory_open env sid sz os = (Some m', os')" and "shm_size m = sz"
    and "attached (c_str (''/'' @ sid)) m bs os"
  shows "attached (c_str (''/'' @ sid)) m' bs os'" and "attached (c_str (''/'' @ sid)) m bs os'"
    and "shm_size m' = sz"
  using assms
  by (auto simp: attached_def SharedMemory_open_def Let_def map_segment_def split: if_splits option.splits)

lemma size_t_nonneg [simp]: "0 \<le> n \<Longrightarrow> n < 2 ^ 63 \<Longrightarrow> size_t n = nat n"
  by (simp add: size_t_def unsigned_of_int take_bit_int_eq_self)

lemma sint_word_of_nat: "n < 2 ^ 31 \<Longrightarrow> sint (word_of_nat n :: i32) = int n"
  by (simp add: signed_of_nat signed_take_bit_int_eq_self)

lemma size_t_i32 [simp]: "0 \<le> sint (w :: i32) \<Longrightarrow> size_t (sint w) = nat (sint w)"
  using sint_less [of w] by (intro size_t_nonneg) simp_all

lemma unat_word_of_nat32: "n < 2 ^ 31 \<Longrightarrow> unat (word_of_nat n :: i32) = n"
  by (simp add: unsigned_of_nat take_bit_nat_eq_self)

lemma unat_sint32:
  assumes "0 \<le> sint (w :: i32)" shows "unat w = nat (sint w)"
proof -
  have "w = word_of_nat (nat (sint w))" using assms by simp
  moreover have "nat (sint w) < 2 ^ 31" using sint_less [of w] by simp
  ultimately show ?thesis using unat_word_of_nat32 by metis
qed

lemma attached_size:
  assumes "attached name m bs os"
  shows "unat (shm_size m) = length bs" and "length bs < 2 ^ 31"
proof -
  have n: "sint (shm_size m) = int (length bs)" using assms by (simp add: attached_def)
  show "length bs < 2 ^ 31" using sint_less [of "shm_size m"] unfolding n by simp
  show "unat (shm_size m) = length bs" using unat_sint32 [of "shm_size m"] unfolding n by simp
qed

lemma length_c_bytes [simp]: "length (c_bytes s) = Suc (length s)"
  by (simp add: c_bytes_def)

lemma payload_of_nat: "n < 2 ^ 31 \<Longrightarrow> payload_of (bs, word_of_nat n) = take n bs"
  by (simp add: payload_of_def sint_word_of_nat)

lemma shm_example_eq:
  assumes "attached name m bs os" and "length p \<le> length bs"
  shows "\<exists>n. shm_example p (word_of_nat (length p)) shm (shm_size m) fid =
      (0, [(c_bytes (''Written '' @ to_string32 (word_of_nat (length p)) @ '' bytes''), n)], p) \<and>
    payload_of (c_bytes (''Written '' @ to_string32 (word_of_nat (length p)) @ '' bytes''), n) =
      c_bytes (''Written '' @ to_string32 (word_of_nat (length p)) @ '' bytes'')"
proof -
  let ?msg = "''Written '' @ to_string32 (word_of_nat (length p)) @ '' bytes''"
  have p: "length p < 2 ^ 31" using attached_size(2) [OF assms(1)] assms(2) by simp
  have "length ?msg + 1 < 2 ^ 31" using length_to_string32 [of "word_of_nat (length p)"] by simp
  then have "payload_of (c_bytes ?msg, word_of_nat (length ?msg + 1)) = c_bytes ?msg"
    by (simp only: payload_of_nat) simp
  moreover have "min (unat (word_of_nat (length p) :: i32)) (unat (shm_size m)) = length p"
    using attached_size(1) [OF assms(1)] assms(2) by (simp only: unat_word_of_nat32 [OF p] min_def) simp
  ultimately show ?thesis using p by (simp add: shm_example_def sint_word_of_nat Let_def)
qed

lemma shm_read_example_eq:
  assumes "attached name m bs os" and "get32 0 (buf @ beyond) = word_of_nat k" and "k \<le> length bs"
  shows "shm_read_example beyond buf n bs (shm_size m) fid = (0, [(bs, word_of_nat k)], [])"
    and "payload_of (bs, word_of_nat k) = take k bs"
proof -
  have k: "k < 2 ^ 31" using attached_size(2) [OF assms(1)] assms(3) by simp
  then show "payload_of (bs, word_of_nat k) = take k bs" by (rule payload_of_nat)
  have "min (size_t (sint (word_of_nat k :: i32))) (unat (shm_size m)) = k"
    using attached_size(1) [OF assms(1)] assms(3) k by (simp add: sint_word_of_nat min_def)
  then show "shm_read_example beyond buf n bs (shm_size m) fid = (0, [(bs, word_of_nat k)], [])"
    using assms(2) by (simp add: shm_read_example_def Let_def)
qed

section \<open>The pool and the memory\<close>

text \<open>The call of a function for an invocation, and an invocation all of whose bytes are taken by \<open>::send\<close>.\<close>

abbreviation called :: "(nat \<Rightarrow> user_function) \<Rightarrow> nat \<Rightarrow> invocation \<Rightarrow> RSession \<Rightarrow> os \<Rightarrow> i32 \<times> (bytes \<times> i32) list \<times> bytes" where
  "called code f i s os \<equiv>
     code f (i_data i) (word_of_int (i_bytes i)) (memory_contents (s_shm s) os) (shm_size (s_shm s)) (i_fid i)"

definition all_sent :: "(nat \<Rightarrow> user_function) \<Rightarrow> send_results \<Rightarrow> invocation \<Rightarrow> RSession \<Rightarrow> os \<Rightarrow> bool" where
  "all_sent code sr i s os \<longleftrightarrow> sr_last sr = 24 \<and>
     (\<forall>f. get_function (i_fname i) (s_library s) = Some f \<longrightarrow> complete_sends (sr_payload sr) (fst (snd (called code f i s os))))"

text \<open>
  The session with the memory it shares: messages arrive, and a thread of the pool takes any queued invocation
  and runs it, here one whose function stores nothing; its sends may fail.
\<close>

inductive quiet_step :: "(nat \<Rightarrow> user_function) \<Rightarrow> RSession \<times> os \<Rightarrow> RSession \<times> os \<Rightarrow> bool" for code where
  receive: "Session_receive r s = (go, s', out) \<Longrightarrow> quiet_step code (s, os) (s', os)"
| invoke: "s_pool s = xs @ i # ys \<Longrightarrow>
     (\<And>f. get_function (i_fname i) (s_library s) = Some f \<Longrightarrow> snd (snd (called code f i s os)) = []) \<Longrightarrow>
     FunctionWorker_invoke code sr junk i (s\<lparr>s_pool := xs @ ys\<rparr>) os = (s', os', out) \<Longrightarrow> quiet_step code (s, os) (s', os')"
| shutdown: "quiet_step code (s, os) (Session_shutdown s, os)"

definition memory_is :: "string \<Rightarrow> SharedMemory \<Rightarrow> FunctionsLibrary \<Rightarrow> bytes \<Rightarrow> RSession \<times> os \<Rightarrow> bool" where
  "memory_is name m lib b c \<longleftrightarrow> s_shm (fst c) = m \<and> s_library (fst c) = lib \<and> attached name m b (snd c)"

lemma invoke_memory:
  assumes "FunctionWorker_invoke code sr junk i s os = (s', os', out)"
    and "\<And>f. get_function (i_fname i) (s_library s) = Some f \<Longrightarrow> snd (snd (called code f i s os)) = d" and "length d \<le> length b"
    and "memory_is name m lib b (s, os)"
  shows "memory_is name m lib (if get_function (i_fname i) lib = None then b else over_start d b) (s', os')"
proof (cases "get_function (i_fname i) (s_library s)")
  case None
  with assms(1,4) show ?thesis by (auto simp: memory_is_def FunctionWorker_invoke_def FunctionWorker_run_def)
next
  case (Some f)
  obtain rc pls where c: "called code f i s os = (rc, pls, d)" using assms(2) [OF Some] prod_cases3 by (metis snd_conv)
  from invoke_result(1) [OF assms(1) Some c] Some shm.store_view [of name m b os m d] assms(3,4)
  show ?thesis by (simp add: memory_is_def)
qed

interpretation quiet: invariant_machine "quiet_step code" "memory_is name m lib b" for code name m lib b
proof
  fix c d assume "quiet_step code c d" and inv: "memory_is name m lib b c"
  then show "memory_is name m lib b d"
  proof cases
    case (receive r s go s' out os)
    with inv receive_shm [OF receive(3)] show ?thesis by (simp add: memory_is_def)
  next
    case (invoke s xs i ys os sr junk s' os' out)
    have "memory_is name m lib b (s\<lparr>s_pool := xs @ ys\<rparr>, os)" using inv invoke by (simp add: memory_is_def)
    with invoke_memory [OF invoke(5), of "[]" b name m lib] invoke(2,4) show ?thesis
      by (simp add: over_start_def split: if_splits)
  qed (use inv in \<open>simp add: memory_is_def Session_shutdown_def\<close>)
qed

section \<open>Properties\<close>

text \<open>
  C18: the memory of a session lasts from one invocation to the next. A thread of the pool runs \<open>shm_example\<close> with
  a payload that fits into the memory; then any messages arrive and the pool runs any of the queued
  invocations, in any order, whose functions store nothing; then a thread runs \<open>shm_read_example\<close>, asked for
  as many bytes. If the sends of these two invocations are complete, the second replies exactly
  that payload, both replies read as one payload and the return code 0, and the rest of the memory is unchanged.
\<close>

theorem memory_between_invocations:
  assumes "length junk = 24" and "length junk' = 24" and "name16 (i_fid i)" and "name16 (i_fid j)"
    and "attached name (s_shm s) bs os"
    and "get_function (i_fname i) (s_library s) = Some f" and "code f = shm_example"
    and "get_function (i_fname j) (s_library s) = Some g" and "code g = shm_read_example beyond"
    and "i_bytes i = int (length (i_data i))" and "length (i_data i) \<le> length bs"
    and "get32 0 (i_data j @ beyond) = word_of_nat (length (i_data i))"
    and "s_pool s = xs @ i # ys" and "FunctionWorker_invoke code sr junk i (s\<lparr>s_pool := xs @ ys\<rparr>) os = (s1, os1, out1)"
    and "reaches (quiet_step code) (s1, os1) (s2, os2)"
    and "s_pool s2 = xs' @ j # ys'" and "FunctionWorker_invoke code sr' junk' j (s2\<lparr>s_pool := xs' @ ys'\<rparr>) os2 = (s3, os3, out3)"
    and "all_sent code sr i s os" and "all_sent code sr' j s2 os2"
  shows "read_replies 2 (i_fid i) (concat out1 @ rest) =
      Some ([c_bytes (''Written '' @ to_string32 (word_of_nat (length (i_data i))) @ '' bytes'')], Returned 0, rest) \<and>
    read_replies 2 (i_fid j) (concat out3 @ rest) = Some ([i_data i], Returned 0, rest) \<and>
    memory_contents (s_shm s3) os3 = i_data i @ drop (length (i_data i)) bs"
proof -
  let ?msg = "c_bytes (''Written '' @ to_string32 (word_of_nat (length (i_data i))) @ '' bytes'')"
  let ?bs = "over_start (i_data i) bs" and ?s = "s\<lparr>s_pool := xs @ ys\<rparr>" and ?s2 = "s2\<lparr>s_pool := xs' @ ys'\<rparr>"
  obtain n where c: "called code f i ?s os = (0, [(?msg, n)], i_data i)" and n: "payload_of (?msg, n) = ?msg"
    using shm_example_eq [OF assms(5,11), of bs "i_fid i"] shm.look_view [OF assms(5)] assms(7,10) by auto
  have f: "get_function (i_fname i) (s_library ?s) = Some f" using assms(6) by simp
  have "complete_sends (sr_payload sr) [(?msg, n)]" "sr_last sr = 24"
    using assms(6,18) c by (simp_all add: all_sent_def)
  from invoke_replies(1) [OF assms(1,3,14) f c this, of 2 rest] n
  have first: "read_replies 2 (i_fid i) (concat out1 @ rest) = Some ([?msg], Returned 0, rest)" by simp
  have "memory_is name (s_shm s) (s_library s) ?bs (s1, os1)"
    using invoke_memory [OF assms(14), of "i_data i" bs name] assms(5,11) f c by (simp add: memory_is_def)
  then have m2: "memory_is name (s_shm s) (s_library s) ?bs (s2, os2)" by (rule quiet.reaches_inv [OF assms(15)])
  have att: "attached name (s_shm s2) ?bs os2" and lib: "s_library s2 = s_library s" using m2 by (simp_all add: memory_is_def)
  have len: "length (i_data i) \<le> length ?bs" "take (length (i_data i)) ?bs = i_data i" by (simp_all add: over_start_def)
  note r = shm_read_example_eq [OF att assms(12) len(1)]
  have d: "called code g j ?s2 os2 = (0, [(?bs, word_of_nat (length (i_data i)))], [])"
    using r(1) shm.look_view [OF att] assms(9) by simp
  have g: "get_function (i_fname j) (s_library ?s2) = Some g" using assms(8) lib by simp
  have "complete_sends (sr_payload sr') [(?bs, word_of_nat (length (i_data i)))]" "sr_last sr' = 24"
    using assms(8,19) d lib by (simp_all add: all_sent_def)
  from invoke_replies(1) [OF assms(2,4,17) g d this, of 2 rest] r(2) len(2)
  have "read_replies 2 (i_fid j) (concat out3 @ rest) = Some ([i_data i], Returned 0, rest)" by simp
  moreover have "memory_is name (s_shm s) (s_library s) ?bs (s3, os3)"
    using invoke_memory [OF assms(17), of "[]" ?bs name "s_shm s" "s_library s"] m2 g d by (simp add: memory_is_def over_start_def)
  then have "memory_contents (s_shm s3) os3 = ?bs" using shm.look_view by (auto simp: memory_is_def)
  ultimately show ?thesis using first by (simp add: over_start_def)
qed

text \<open>A session whose library has the two functions and whose memory of eight bytes is mapped.\<close>

definition demo_code :: "nat \<Rightarrow> user_function" where
  "demo_code f = (if f = 1 then shm_example else shm_read_example [])"

definition demo_shm :: SharedMemory where
  "demo_shm = \<lparr>shm_size = 8, fd = 3, path = ''/s'', shm_ptr = Some 0, shm_owned = False\<rparr>"

definition demo_session :: RSession where
  "demo_session = (RSession_init \<lparr>libraries = Map.empty, lib_functions = [''put'' \<mapsto> 1, ''get'' \<mapsto> 2]\<rparr> ''s'' 0 8)
     \<lparr>s_shm := demo_shm\<rparr>"

definition demo_call :: "string \<Rightarrow> string \<Rightarrow> bytes \<Rightarrow> invocation" where
  "demo_call fname fid d = \<lparr>i_fname = fname, i_fid = fid, i_bytes = int (length d), i_data = d, i_buf = Buffer_default\<rparr>"

lemma demo_session_functions:
  "get_function ''put'' (s_library demo_session) = Some 1" "get_function ''get'' (s_library demo_session) = Some 2"
  by (simp_all add: get_function_def demo_session_def RSession_init_def case_prod_beta)

text \<open>Its pool holds a call that stores, one of a function it does not have, and one that reads.\<close>

definition busy_session :: RSession where
  "busy_session = demo_session\<lparr>s_pool := [demo_call ''put'' ''1'' [7, 8, 9], demo_call ''none'' ''3'' [], demo_call ''get'' ''2'' [3, 0, 0, 0]]\<rparr>"

definition demo_memory :: os where
  "demo_memory = \<lparr>segments = [''/s'' \<mapsto> replicate 8 0], mappings = [0 \<mapsto> ''/s''], next_map = 1\<rparr>"

definition sends_of :: "int \<Rightarrow> send_results" where
  "sends_of n = \<lparr>sr_payload = \<lambda>k. (24, n), sr_last = 24\<rparr>"

theorem memory_between_invocations_witness:
  "\<exists>s1 os1 out1 s2 os2 out2 s3 os3 out3.
     FunctionWorker_invoke demo_code (sends_of 16) (replicate 24 0) (demo_call ''put'' ''1'' [7, 8, 9])
       (busy_session\<lparr>s_pool := [] @ tl (s_pool busy_session)\<rparr>) demo_memory = (s1, os1, out1) \<and>
     FunctionWorker_invoke demo_code (sends_of 0) (replicate 24 0) (demo_call ''none'' ''3'' [])
       (s1\<lparr>s_pool := [] @ tl (s_pool s1)\<rparr>) os1 = (s2, os2, out2) \<and>
     FunctionWorker_invoke demo_code (sends_of 3) (replicate 24 0) (demo_call ''get'' ''2'' [3, 0, 0, 0])
       (s2\<lparr>s_pool := [] @ tl (s_pool s2)\<rparr>) os2 = (s3, os3, out3) \<and>
     read_replies 2 ''2'' (concat out3) = Some ([[7, 8, 9]], Returned 0, [])"
proof -
  let ?i = "demo_call ''put'' ''1'' [7, 8, 9]" and ?j = "demo_call ''get'' ''2'' [3, 0, 0, 0]" and ?k = "demo_call ''none'' ''3'' []"
  let ?junk = "replicate 24 (0 :: byte)"
  obtain s1 os1 out1 where 1: "FunctionWorker_invoke demo_code (sends_of 16) ?junk ?i
      (busy_session\<lparr>s_pool := [] @ tl (s_pool busy_session)\<rparr>) demo_memory = (s1, os1, out1)" using prod_cases3 by blast
  obtain s2 os2 out2 where 2: "FunctionWorker_invoke demo_code (sends_of 0) ?junk ?k
      (s1\<lparr>s_pool := [] @ tl (s_pool s1)\<rparr>) os1 = (s2, os2, out2)" using prod_cases3 by blast
  obtain s3 os3 out3 where 3: "FunctionWorker_invoke demo_code (sends_of 3) ?junk ?j
      (s2\<lparr>s_pool := [] @ tl (s_pool s2)\<rparr>) os2 = (s3, os3, out3)" using prod_cases3 by blast
  have lib: "get_function ''none'' (s_library busy_session) = None" "s_library busy_session = s_library demo_session"
    by (simp_all add: get_function_def busy_session_def demo_session_def RSession_init_def case_prod_beta)
  have s1: "s1 = busy_session\<lparr>s_pool := [?k, ?j], s_buffers := return_buffer Buffer_default (s_buffers busy_session)\<rparr>"
    using 1 by (simp add: FunctionWorker_invoke_def case_prod_beta busy_session_def demo_call_def)
  have s2: "s_pool s2 = [] @ ?j # []" using 2 s1 by (auto simp: FunctionWorker_invoke_def case_prod_beta)
  have "quiet_step demo_code (s1, os1) (s2, os2)"
    by (rule quiet_step.invoke [of s1 "[]" ?k "[?j]" demo_code os1 "sends_of 0" ?junk])
      (use s1 lib 2 in \<open>simp_all add: demo_call_def\<close>)
  then have r: "reaches (quiet_step demo_code) (s1, os1) (s2, os2)"
    by (rule reaches_step [where step = "quiet_step demo_code", OF reaches_refl])
  have pre: "length ?junk = 24" "length ?junk = 24" "name16 (i_fid ?i)" "name16 (i_fid ?j)"
    by (simp_all add: name16_def demo_call_def)
  have att: "attached ''/s'' (s_shm busy_session) (replicate 8 0) demo_memory"
    by (simp add: attached_def busy_session_def demo_session_def demo_shm_def demo_memory_def)
  have fs: "get_function (i_fname ?i) (s_library busy_session) = Some 1" "demo_code 1 = shm_example"
    "get_function (i_fname ?j) (s_library busy_session) = Some 2" "demo_code 2 = shm_read_example []"
    using demo_session_functions lib(2) by (simp_all add: demo_call_def demo_code_def fun_eq_iff)
  have data: "i_bytes ?i = int (length (i_data ?i))" "length (i_data ?i) \<le> length (replicate 8 (0 :: byte))"
    "get32 0 (i_data ?j @ []) = word_of_nat (length (i_data ?i))"
    by (simp_all add: demo_call_def get32_def sub_bytes_def)
  have pool: "s_pool busy_session = [] @ ?i # tl (s_pool busy_session)" by (simp add: busy_session_def)
  have sent: "all_sent demo_code (sends_of 16) ?i busy_session demo_memory"
    using fs(1,2) by (simp add: all_sent_def sends_of_def shm_example_def demo_call_def Let_def c_bytes_def
        busy_session_def demo_session_def demo_shm_def to_string32_def int_string_def nat_string.simps)
  have shm: "s_shm busy_session = demo_shm" by (simp add: busy_session_def demo_session_def)
  have "snd (snd (called demo_code 1 ?i (busy_session\<lparr>s_pool := [] @ tl (s_pool busy_session)\<rparr>) demo_memory)) = [7, 8, 9]"
    using fs(2) by (simp add: shm_example_def demo_call_def Let_def shm demo_shm_def)
  then have "memory_is ''/s'' demo_shm (s_library busy_session) ([7, 8, 9] @ replicate 5 0) (s1, os1)"
    using invoke_memory [OF 1, of "[7, 8, 9]" "replicate 8 0" "''/s''" demo_shm "s_library busy_session"] fs(1) att shm
    by (simp add: memory_is_def over_start_def)
  then have "memory_is ''/s'' demo_shm (s_library busy_session) ([7, 8, 9] @ replicate 5 0) (s2, os2)"
    by (rule quiet.reaches_inv [OF r])
  then have "s_shm s2 = demo_shm" "s_library s2 = s_library busy_session" "memory_contents demo_shm os2 = [7, 8, 9] @ replicate 5 0"
    using shm.look_view by (auto simp: memory_is_def)
  then have sent2: "all_sent demo_code (sends_of 3) ?j s2 os2"
    using fs(3,4) by (simp add: all_sent_def sends_of_def shm_read_example_def demo_call_def Let_def demo_shm_def
        get32_def sub_bytes_def)
  have "FunctionWorker_invoke demo_code (sends_of 3) ?junk ?j (s2\<lparr>s_pool := [] @ []\<rparr>) os2 = (s3, os3, out3)"
    using 3 s2 by simp
  from memory_between_invocations [OF pre att fs data pool 1 r s2 this sent sent2, where rest = "[]"]
  have "read_replies 2 ''2'' (concat out3) = Some ([[7, 8, 9]], Returned 0, [])" by (simp add: demo_call_def)
  with 1 2 3 show ?thesis by (intro exI conjI)
qed

section \<open>A session's memory over its life\<close>

text \<open>Invocations the pool runs one after the other, and what they do to a plain array of bytes.\<close>

fun invoke_all ::
  "(nat \<Rightarrow> user_function) \<Rightarrow> (nat \<Rightarrow> send_results) \<Rightarrow> bytes \<Rightarrow> invocation list \<Rightarrow> RSession \<Rightarrow> os \<Rightarrow> RSession \<times> os" where
  "invoke_all code srs junk [] s os = (s, os)"
| "invoke_all code srs junk (i # is) s os =
     (let (s', os', out) = FunctionWorker_invoke code (srs 0) junk i s os in invoke_all code (\<lambda>k. srs (Suc k)) junk is s' os')"

fun memory_run ::
  "(nat \<Rightarrow> user_function) \<Rightarrow> FunctionsLibrary \<Rightarrow> i32 \<Rightarrow> invocation list \<Rightarrow> bytes \<Rightarrow> bytes" where
  "memory_run code lib sz [] b = b"
| "memory_run code lib sz (i # is) b =
     memory_run code lib sz is
       (case get_function (i_fname i) lib of None \<Rightarrow> b
        | Some f \<Rightarrow> over_start (take (length b) (snd (snd (code f (i_data i) (word_of_int (i_bytes i)) b sz (i_fid i))))) b)"

lemma shm_store_take:
  assumes "attached name m b os" shows "shm_store m d os = shm_store m (take (length b) d) os"
  using assms by (auto simp: attached_def shm_store_def split: option.splits)

lemma invoke_attached:
  assumes "FunctionWorker_invoke code sr junk i s os = (s', os', out)"
    and "attached name (s_shm s) b os" and "attached name m b os"
  shows "s_shm s' = s_shm s \<and> s_library s' = s_library s \<and>
    attached name m (memory_run code (s_library s) (shm_size (s_shm s)) [i] b) os'"
proof (cases "get_function (i_fname i) (s_library s)")
  case None
  with assms show ?thesis by (auto simp: FunctionWorker_invoke_def FunctionWorker_run_def)
next
  case (Some f)
  let ?d = "snd (snd (code f (i_data i) (word_of_int (i_bytes i)) b (shm_size (s_shm s)) (i_fid i)))"
  have "os' = shm_store (s_shm s) ?d os" and "s_shm s' = s_shm s" "s_library s' = s_library s"
    using assms(1) Some shm.look_view [OF assms(2)]
    by (auto simp: FunctionWorker_invoke_def FunctionWorker_run_def split: prod.splits)
  with Some shm.store_view [OF assms(2,3), of "take (length b) ?d"] shm_store_take [OF assms(2), of ?d]
  show ?thesis by simp
qed

lemma invoke_all_attached:
  assumes "invoke_all code srs junk is s os = (s', os')" and "attached name (s_shm s) b os" and "attached name m b os"
  shows "attached name m (memory_run code (s_library s) (shm_size (s_shm s)) is b) os'"
  using assms
proof (induction "is" arbitrary: srs s os b)
  case (Cons i "is")
  obtain s1 os1 out where i: "FunctionWorker_invoke code (srs 0) junk i s os = (s1, os1, out)" using prod_cases3 by blast
  note inv = invoke_attached [OF i Cons.prems(2)]
  from Cons.IH [of _ s1 os1] Cons.prems(1) i inv [OF Cons.prems(2)] inv [OF Cons.prems(3)]
  show ?case by simp
qed simp

lemma session_deleted_swaps:
  assumes "session_deleted api pid (p\<lparr>sessions := ss @ [s]\<rparr>) st os = (msg, p', st', os')"
    and "\<forall>x \<in> set ss. child_pid x \<noteq> pid" and "child_pid s = pid"
    and "enabled (swapper p)" and "s3_client (swapper p)"
  shows "msg = Some (fill_session_close (shm_size (memory s)) (fork_session_id s) SendMessage_init)"
    and "st' = snd (PutObject api st (bucket_of (swapper p)) (fork_session_id s) (memory_contents (memory s) os))"
proof -
  have pos: "find_pos (\<lambda>x. child_pid x = pid) (ss @ [s]) = length ss"
    using assms(2,3) by (intro find_posI) (auto simp: nth_append)
  show "msg = Some (fill_session_close (shm_size (memory s)) (fork_session_id s) SendMessage_init)"
    and "st' = snd (PutObject api st (bucket_of (swapper p)) (fork_session_id s) (memory_contents (memory s) os))"
    using assms(1,4,5) pos
    by (auto simp: session_deleted_def Let_def S3Swapper_is_enabled_def S3Swapper_swap_def split: prod.splits)
qed

text \<open>
  C13: what is swapped out is what the functions left. A process creates a session of a positive
  size below \<open>2 ^ 21\<close> KiB whose object is new; the session opens it and runs any invocations, and
  exits. If the put succeeds, S3 then holds under the identifier of the session the array of zeros
  after the stores of these invocations, of exactly the requested size, and the control plane is told
  that size.
\<close>

theorem session_memory_swapped_out:
  assumes "s3_ok api stored"
    and "allocate_session api st env pid peer msg p os = (SUCCESS, p1, argv, os1)"
    and "sid = SessionRequestMsg_session_id msg" and "n = SessionRequestMsg_memory_size msg"
    and "0 \<le> sint n" and "sint n < 2 ^ 21" and "segments os (c_str (''/'' @ sid)) = None"
    and "\<forall>x \<in> set (sessions p). child_pid x \<noteq> pid" and "enabled (swapper p)" and "s3_client (swapper p)"
    and "SharedMemory_open env' sid (n * 1024) os1 = (Some m, os2)" and "s_shm s = m"
    and "invoke_all code srs junk is s os2 = (s', os3)"
    and "session_deleted api pid p1 st' os3 = (notice, p2, st2, os4)"
    and "d = memory_run code (s_library s) (n * 1024) is (replicate (nat (sint n) * 1024) 0)"
    and "fst (PutObject api st' (bucket_of (swapper p)) sid d)"
  shows "stored st2 (bucket_of (swapper p), sid) = Some d \<and> length d = nat (sint n) * 1024 \<and>
    notice = Some (fill_session_close (n * 1024) sid SendMessage_init)"
proof -
  let ?name = "c_str (''/'' @ sid)"
  obtain w where w: "SessionFork_fork api (swapper p) st env pid peer (hole_puncher_address p) (requested msg) os =
      (True, w, argv, os1)" "p1 = p\<lparr>sessions := sessions p @ [w]\<rparr>"
    using assms(2) by (cases rule: allocate_session_cases) (auto split: if_splits)
  obtain k where k: "w = (requested msg)\<lparr>child_pid := pid, memory := k\<rparr>"
    "SharedMemory_create api (swapper p) st env sid n os = (Some k, os1)"
    using w(1) assms(3,4) by (cases rule: fork_cases) auto
  have sz: "shm_bytes n = n * 1024" "nat (sint (shm_bytes n)) = nat (sint n) * 1024" "shm_size k = n * 1024"
    using assms(5,6) sint_shm_bytes [of n] create_Some(1) [OF k(2)] by (simp_all add: shm_bytes_def nat_mult_distrib)
  have "attached ?name k (replicate (nat (sint n) * 1024) 0) os1"
    using create_attached [OF k(2) assms(5,7)] sz by simp
  note o2 = open_attached [OF assms(11) sz(3) this]
  have att: "attached ?name k d os3"
    using invoke_all_attached [OF assms(13) _ o2(2)] o2(1,3) assms(12,15) by simp
  have mem: "memory_contents k os3 = d" using att by (rule shm.look_view)
  have "int (length d) = sint (shm_bytes n)" using att sz by (simp add: attached_def)
  then have len: "length d = nat (sint n) * 1024" using sz(2) by simp
  have del: "notice = Some (fill_session_close (n * 1024) sid SendMessage_init)"
    "st2 = snd (PutObject api st' (bucket_of (swapper p)) sid d)"
    using session_deleted_swaps [OF assms(14) [unfolded w(2)] assms(8) _ assms(9,10)] k(1) sz(3) mem assms(3) by simp_all
  from assms(1,16) have "stored st2 (bucket_of (swapper p), sid) = Some d"
    unfolding del(2) s3_ok_def by simp
  with len del(1) show ?thesis by simp
qed

lemma request_fields:
  assumes "id16 (fst m)"
  shows "SessionRequestMsg_session_id (drop 2 (session_request_encode m)) = fst m"
    and "SessionRequestMsg_memory_size (drop 2 (session_request_encode m)) = snd (snd m)"
proof -
  obtain buf where "RecvMessageBuffer_parse (session_request_encode m) (int Recv_EXPECTED_LENGTH) =
      Some (SessionRequestMsg buf)"
    and m: "(SessionRequestMsg_session_id buf, SessionRequestMsg_max_functions buf, SessionRequestMsg_memory_size buf) = m"
    using assms by (rule parse_session_request)
  then have "buf = drop 2 (session_request_encode m)"
    by (auto simp: RecvMessageBuffer_parse_def Let_def split: if_splits simp del: session_request_encode.simps)
  with m show "SessionRequestMsg_session_id (drop 2 (session_request_encode m)) = fst m"
    and "SessionRequestMsg_memory_size (drop 2 (session_request_encode m)) = snd (snd m)"
    by (metis fst_conv, metis snd_conv)
qed

theorem session_memory_swapped_out_witness:
  "\<exists>p1 argv os1 m os2 s' os3 notice p2 st2 os4.
     allocate_session map_s3 Map.empty good_env 7 ''c'' (drop 2 (session_request_encode (''0123456789abcdef'', 1, 1)))
       ((Process_init ''p'' ''h'' 4)\<lparr>swapper := \<lparr>s3_client = True, enabled = True, user_s3_bucket = None\<rparr>\<rparr>) empty_os =
       (SUCCESS, p1, argv, os1) \<and>
     SharedMemory_open good_env ''0123456789abcdef'' 1024 os1 = (Some m, os2) \<and>
     invoke_all demo_code (\<lambda>_. sends_of 16) [] [demo_call ''put'' ''1'' [7, 8, 9]] (demo_session\<lparr>s_shm := m\<rparr>) os2 = (s', os3) \<and>
     session_deleted map_s3 7 p1 Map.empty os3 = (notice, p2, st2, os4) \<and>
     st2 (''praas-swapping'', ''0123456789abcdef'') = Some ([7, 8, 9] @ replicate 1021 0)"
proof -
  let ?p = "(Process_init ''p'' ''h'' 4)\<lparr>swapper := \<lparr>s3_client = True, enabled = True, user_s3_bucket = None\<rparr>\<rparr>"
  let ?msg = "drop 2 (session_request_encode (''0123456789abcdef'', 1, 1))" and ?sid = "''0123456789abcdef''"
  let ?is = "[demo_call ''put'' ''1'' [7, 8, 9]]"
  have id: "SessionRequestMsg_session_id ?msg = ?sid" "SessionRequestMsg_memory_size ?msg = 1"
    using request_fields [of "(?sid, 1, 1)"] by (simp_all add: id16_def del: session_request_encode.simps)
  obtain p1 argv os1 where a: "allocate_session map_s3 Map.empty good_env 7 ''c'' ?msg ?p empty_os = (SUCCESS, p1, argv, os1)"
    and "segments os1 (c_str (''/'' @ ?sid)) \<noteq> None"
    by (simp add: allocate_session_def Process_init_def max_sessions_size_def SessionFork_fork_def id
        SharedMemory_create_def SessionFork_init_def good_env_def empty_os_def Let_def resize_segment_def
        map_segment_def del: session_request_encode.simps)
  then obtain m os2 where o: "SharedMemory_open good_env ?sid (1 * 1024) os1 = (Some m, os2)" and m: "shm_size m = 1024"
    by (auto simp: SharedMemory_open_def good_env_def map_segment_def Let_def)
  let ?s = "demo_session\<lparr>s_shm := m\<rparr>"
  obtain s' os3 where r: "invoke_all demo_code (\<lambda>_. sends_of 16) [] ?is ?s os2 = (s', os3)" by fastforce
  obtain notice p2 st2 os4 where d: "session_deleted map_s3 7 p1 Map.empty os3 = (notice, p2, st2, os4)"
    using prod_cases4 by blast
  have pre: "(0 :: int) \<le> sint (1 :: i32)" "sint (1 :: i32) < 2 ^ 21" "segments empty_os (c_str (''/'' @ ?sid)) = None"
    "\<forall>x \<in> set (sessions ?p). child_pid x \<noteq> 7" "enabled (swapper ?p)" "s3_client (swapper ?p)"
    by (simp_all add: empty_os_def Process_init_def)
  have run: "memory_run demo_code (s_library ?s) (1 * 1024) ?is (replicate (nat (sint (1 :: i32)) * 1024) 0) =
      [7, 8, 9] @ replicate 1021 0"
    using demo_session_functions
    by (simp add: demo_call_def demo_code_def shm_example_def over_start_def Let_def sint_word_of_nat)
  have "fst (PutObject map_s3 Map.empty (bucket_of (swapper ?p)) ?sid ([7, 8, 9] @ replicate 1021 0))"
    by (simp add: map_s3_def)
  note swapped = session_memory_swapped_out [OF map_s3_ok a id [symmetric] pre o _ r d run [symmetric] this]
  have "bucket_of (swapper ?p) = ''praas-swapping''" by (simp add: bucket_of_def DEFAULT_S3_BUCKET_def)
  with swapped a o r d show ?thesis by simp
qed

end
