(* ===== verification/Worker_Servers.thy ===== *)
theory Worker_Servers
  imports Process_Runtime
begin

text \<open>
  The two servers that start processes for the control plane: the local worker
  (\<open>src/system/local-worker/server.cpp\<close>), which runs each process on a thread, and the serving
  worker (\<open>src/system/praas-serving/server.cpp\<close>, \<open>subprocess.cpp\<close>), which executes
  \<open>process_exec\<close> (\<open>src/runtime/process/cli.cpp\<close>). Both keep their processes in an array of
  optional slots, of which they take the first empty one.
\<close>

section \<open>Slots\<close>

definition claim_process :: "'a \<Rightarrow> 'a option list \<Rightarrow> (nat \<times> 'a option list) option" where
  "claim_process p ps =
     (let pos = find_pos (\<lambda>x. x = None) ps in
      if pos = length ps then None else Some (pos, ps[pos := Some p]))"

interpretation slots: slot_array "\<lambda>x. x = None" "\<lambda>p i. Some p" claim_process
  by unfold_locales (auto simp: claim_process_def Let_def)

section \<open>The local worker\<close>

record local_worker =
  lw_processes :: "Process option list"
  lw_threads :: "bool list"
  lw_hole_puncher :: string
  lw_ending :: bool
  lw_enable_swapping :: bool

definition local_worker_init :: "nat \<Rightarrow> string \<Rightarrow> bool \<Rightarrow> local_worker" where
  "local_worker_init n hp sw =
     \<lparr>lw_processes = replicate n None, lw_threads = replicate n False, lw_hole_puncher = hp, lw_ending = False,
      lw_enable_swapping = sw\<rparr>"

text \<open>
  One turn of \<open>start\<close>: whether an end was requested while waiting, the result of reading the
  request, its bytes, the bucket variable of the environment and whether the control plane accepts
  the connection of the new process. The second result is the code sent back, if any; the
  connection is closed in every case.
\<close>

record lw_in =
  li_ending :: bool
  li_n :: int
  li_data :: bytes
  li_bucket :: "string option"
  li_accepted :: bool

definition local_worker_turn :: "lw_in \<Rightarrow> local_worker \<Rightarrow> (local_worker \<times> i32 option) loop_result" where
  "local_worker_turn inp s =
     (if li_ending inp then Break (s\<lparr>lw_ending := True\<rparr>, None)
      else if li_n inp = 0 then Continue (s, None)
      else if li_n inp \<noteq> int Request_EXPECTED_LENGTH then Continue (s, Some 2)
      else
        let req = li_data inp;
            free_process = find_pos (\<lambda>x. x = None) (lw_processes s)
        in if free_process = length (lw_processes s) then Continue (s, Some 1)
           else case Process_create (li_bucket inp) (li_accepted inp) (ProcessRequest_process_id req)
                       (lw_hole_puncher s) (ProcessRequest_max_sessions req) (lw_enable_swapping s) of
               Some p \<Rightarrow>
                 Continue (s\<lparr>lw_processes := (lw_processes s)[free_process := Some p],
                             lw_threads := (lw_threads s)[free_process := True]\<rparr>, Some 0)
             | None \<Rightarrow> Continue (s, Some 2))"

fun local_worker_start :: "lw_in list \<Rightarrow> local_worker \<Rightarrow> local_worker \<times> i32 option list" where
  "local_worker_start [] s = (s, [])"
| "local_worker_start (i # is) s =
     (if lw_ending s then (s, [])
      else case local_worker_turn i s of
        Break (s, r) \<Rightarrow> (s, [])
      | Continue (s, r) \<Rightarrow> (let (s, rs) = local_worker_start is s in (s, r # rs)))"

definition local_worker_shutdown :: "local_worker \<Rightarrow> local_worker" where
  "local_worker_shutdown s =
     s\<lparr>lw_ending := True, lw_processes := map (map_option Process_shutdown) (lw_processes s)\<rparr>"

section \<open>The serving worker\<close>

record SubprocessFork =
  sp_pos :: int
  sp_pid :: int

text \<open>\<open>addr\<close>: the address and port, put together with \<open>strcat\<close> in an array of 40 characters.\<close>

definition subprocess_addr :: "bytes \<Rightarrow> string" where
  "subprocess_addr req = c_str (ProcessRequest_ip_address req) @ '':'' @ to_string32 (ProcessRequest_port req)"

definition subprocess_args :: "bytes \<Rightarrow> string \<Rightarrow> bool \<Rightarrow> string list" where
  "subprocess_args req hp sw =
     [''/dev-praas/bin/process_exec'',
      ''--process-id'', c_str (ProcessRequest_process_id req),
      ''--control-plane-address'', c_str (subprocess_addr req),
      ''--hole-puncher-address'', c_str hp,
      ''--max-sessions'', int_string (sint (ProcessRequest_max_sessions req)),
      ''--enable-swapping'', (if sw then ''1'' else ''0''),
      ''-v'']"

definition subprocess_argv :: "bytes \<Rightarrow> string \<Rightarrow> bool \<Rightarrow> bool \<Rightarrow> string list" where
  "subprocess_argv req hp sw use_docker =
     (if use_docker then [''/usr/bin/docker'', ''run'', ''praas/runtime''] else []) @
     subprocess_args req hp sw"

text \<open>\<open>fork\<close> in the parent, and the command line of the child if there is one.\<close>

definition SubprocessFork_fork ::
  "int \<Rightarrow> bytes \<Rightarrow> string \<Rightarrow> bool \<Rightarrow> bool \<Rightarrow> SubprocessFork \<Rightarrow> SubprocessFork \<times> string list option" where
  "SubprocessFork_fork vfork_result req hp sw docker f =
     (f\<lparr>sp_pid := vfork_result\<rparr>,
      if vfork_result = -1 then None else Some (subprocess_argv req hp sw docker))"

record serving_worker =
  sv_processes :: "SubprocessFork option list"
  sv_hole_puncher :: string
  sv_ending :: bool
  sv_enable_swapping :: bool
  sv_use_docker :: bool

definition serving_init :: "nat \<Rightarrow> string \<Rightarrow> bool \<Rightarrow> bool \<Rightarrow> serving_worker" where
  "serving_init n hp sw docker =
     \<lparr>sv_processes = replicate n None, sv_hole_puncher = hp, sv_ending = False, sv_enable_swapping = sw,
      sv_use_docker = docker\<rparr>"

text \<open>
  One turn of \<open>start\<close>. The third result is the request handed to the forking thread together with
  its slot; the fork itself is \<open>serving_fork\<close>, which runs on that thread.
\<close>

definition serving_turn ::
  "bool \<Rightarrow> int \<Rightarrow> bytes \<Rightarrow> serving_worker \<Rightarrow>
     (serving_worker \<times> i32 option \<times> (nat \<times> bytes) option) loop_result" where
  "serving_turn stop n data s =
     (if stop then Break (s\<lparr>sv_ending := True\<rparr>, None, None)
      else if n = 0 then Continue (s, None, None)
      else if n \<noteq> int Request_EXPECTED_LENGTH then Continue (s, Some 2, None)
      else let free_process = find_pos (\<lambda>x. x = None) (sv_processes s) in
        if free_process = length (sv_processes s) then Continue (s, Some 1, None)
        else Continue (s\<lparr>sv_processes := (sv_processes s)[free_process :=
               Some \<lparr>sp_pos = int free_process, sp_pid = 0\<rparr>]\<rparr>, Some 0, Some (free_process, data)))"

text \<open>\<open>shutdown\<close>: the one of a subprocess does nothing.\<close>

definition serving_shutdown :: "serving_worker \<Rightarrow> serving_worker" where
  "serving_shutdown s = s\<lparr>sv_ending := True\<rparr>"

definition serving_fork :: "int \<Rightarrow> nat \<times> bytes \<Rightarrow> serving_worker \<Rightarrow> serving_worker \<times> string list option" where
  "serving_fork vfork_result job s =
     (case sv_processes s ! fst job of None \<Rightarrow> (s, None)
      | Some f \<Rightarrow>
          (let (f, argv) = SubprocessFork_fork vfork_result (snd job) (sv_hole_puncher s) (sv_enable_swapping s)
                 (sv_use_docker s) f
           in (s\<lparr>sv_processes := (sv_processes s)[fst job := Some f]\<rparr>, argv)))"

text \<open>\<open>main\<close> of \<open>process_exec\<close>: the address of the control plane from its option.\<close>

definition process_exec_address :: "i32 \<Rightarrow> string \<Rightarrow> string \<times> i32" where
  "process_exec_address junk control_plane_address =
     (let (ip_address, port_str) = split control_plane_address (CHR '':'')
      in (ip_address, from_chars32 port_str junk))"

definition process_exec_main ::
  "i32 \<Rightarrow> string option \<Rightarrow> (string \<Rightarrow> i32 \<Rightarrow> bool) \<Rightarrow> string \<Rightarrow> string \<Rightarrow> string \<Rightarrow> i16 \<Rightarrow> bool \<Rightarrow> Process option" where
  "process_exec_main junk bucket_env connect pid control_plane_address hp n sw =
     (let (ip, port) = process_exec_address junk control_plane_address
      in Process_create bucket_env (connect ip port) pid hp n sw)"

section \<open>Lemmas\<close>

lemma Process_create_None:
  "Process_create bucket accepted pid hp n sw = None \<longleftrightarrow> \<not> accepted"
  by (auto simp: Process_create_def Process_connect_def S3Swapper_enable_swapping_def Let_def)

lemma length_c_str: "length (c_str s) \<le> length s"
  by (simp add: c_str_def length_takeWhile_le)

lemma no_NUL_c_str: "NUL \<notin> set (c_str s)"
  by (auto simp: c_str_def dest: set_takeWhileD)

lemma c_str_id: "NUL \<notin> set s \<Longrightarrow> c_str s = s"
  by (simp add: c_str_def)

lemma to_string32_no: "\<not> is_digit c \<Longrightarrow> c \<noteq> CHR ''-'' \<Longrightarrow> c \<notin> set (to_string32 w)"
  by (simp add: to_string32_def int_string_no)

lemma subprocess_addr_c_str: "c_str (subprocess_addr req) = subprocess_addr req"
  by (rule c_str_id) (simp add: subprocess_addr_def no_NUL_c_str to_string32_no is_digit_def)

text \<open>A request that is read completely while a slot is empty and the control plane accepts.\<close>

lemma local_worker_starts:
  assumes "\<not> li_ending inp" and "li_n inp = int Request_EXPECTED_LENGTH"
    and "None \<in> set (lw_processes s)" and "li_accepted inp"
  obtains p i where "i < length (lw_processes s)" and "lw_processes s ! i = None"
    and "\<forall>j<i. lw_processes s ! j \<noteq> None"
    and "used_slots (\<lambda>x. x = None) ((lw_processes s)[i := Some p]) = Suc (used_slots (\<lambda>x. x = None) (lw_processes s))"
    and "process_id p = ProcessRequest_process_id (li_data inp)"
    and "max_sessions p = ProcessRequest_max_sessions (li_data inp)" and "socket_open p"
    and "local_worker_turn inp s = Continue (s\<lparr>lw_processes := (lw_processes s)[i := Some p],
           lw_threads := (lw_threads s)[i := True]\<rparr>, Some 0)"
proof -
  let ?i = "find_pos (\<lambda>x. x = None) (lw_processes s)"
  have i: "?i \<noteq> length (lw_processes s)"
    using assms(3) find_pos_full [of "\<lambda>x. x = None" "lw_processes s"] by blast
  obtain p where p: "Process_create (li_bucket inp) (li_accepted inp) (ProcessRequest_process_id (li_data inp))
      (lw_hole_puncher s) (ProcessRequest_max_sessions (li_data inp)) (lw_enable_swapping s) = Some p"
    using Process_create_None assms(4) by blast
  then have pf: "process_id p = ProcessRequest_process_id (li_data inp)"
    "max_sessions p = ProcessRequest_max_sessions (li_data inp)" "socket_open p"
    by (auto simp: Process_create_def Process_connect_def Process_init_def S3Swapper_enable_swapping_def Let_def
        split: if_splits)
  have "claim_process p (lw_processes s) = Some (?i, (lw_processes s)[?i := Some p])"
    using i by (simp add: claim_process_def Let_def)
  note c = slots.claim_Some [OF this]
  have "local_worker_turn inp s = Continue (s\<lparr>lw_processes := (lw_processes s)[?i := Some p],
      lw_threads := (lw_threads s)[?i := True]\<rparr>, Some 0)"
    using i p assms by (simp add: local_worker_turn_def Let_def Request_EXPECTED_LENGTH_def)
  with c pf that [of ?i p] show ?thesis by simp
qed

section \<open>Properties\<close>

text \<open>
  The local worker answers a complete request with 0, 1 or 2 as its comment says: 1 exactly
  when every slot is taken, 2 when the process cannot connect to the control plane, and 0 when a
  process with the requested identifier and limit was put into the first empty slot. Only an
  answer of 0 changes the worker, and it takes exactly one slot.
\<close>

lemma local_worker_answer:
  assumes "\<not> li_ending inp" and "li_n inp = int Request_EXPECTED_LENGTH"
    and "local_worker_turn inp s = Continue (s', r)"
  shows "r = Some (if \<forall>p \<in> set (lw_processes s). p \<noteq> None then 1 else if li_accepted inp then 0 else 2) \<and>
    (r \<noteq> Some 0 \<longrightarrow> s' = s) \<and>
    (r = Some 0 \<longrightarrow> (\<exists>i p. i < length (lw_processes s) \<and> lw_processes s ! i = None \<and>
       (\<forall>j<i. lw_processes s ! j \<noteq> None) \<and> lw_processes s' = (lw_processes s)[i := Some p] \<and>
       process_id p = ProcessRequest_process_id (li_data inp) \<and>
       max_sessions p = ProcessRequest_max_sessions (li_data inp) \<and>
       used_slots (\<lambda>x. x = None) (lw_processes s') = Suc (used_slots (\<lambda>x. x = None) (lw_processes s))))"
proof (cases "None \<in> set (lw_processes s)")
  case False
  then have "find_pos (\<lambda>x. x = None) (lw_processes s) = length (lw_processes s)"
    by (metis (mono_tags) find_pos_full)
  with False assms show ?thesis
    by (auto simp: local_worker_turn_def Let_def Request_EXPECTED_LENGTH_def)
next
  case free: True
  then have i: "find_pos (\<lambda>x. x = None) (lw_processes s) \<noteq> length (lw_processes s)"
    using find_pos_full [of "\<lambda>x. x = None" "lw_processes s"] by blast
  show ?thesis
  proof (cases "li_accepted inp")
    case acc: False
    then have "Process_create (li_bucket inp) (li_accepted inp) (ProcessRequest_process_id (li_data inp))
        (lw_hole_puncher s) (ProcessRequest_max_sessions (li_data inp)) (lw_enable_swapping s) = None"
      by (simp add: Process_create_None)
    with i free acc assms show ?thesis by (auto simp: local_worker_turn_def Let_def Request_EXPECTED_LENGTH_def)
  next
    case True
    from local_worker_starts [OF assms(1,2) free True] obtain p i where
      p: "i < length (lw_processes s)" "lw_processes s ! i = None" "\<forall>j<i. lw_processes s ! j \<noteq> None"
      "used_slots (\<lambda>x. x = None) ((lw_processes s)[i := Some p]) = Suc (used_slots (\<lambda>x. x = None) (lw_processes s))"
      "process_id p = ProcessRequest_process_id (li_data inp)"
      "max_sessions p = ProcessRequest_max_sessions (li_data inp)"
      and t: "local_worker_turn inp s = Continue (s\<lparr>lw_processes := (lw_processes s)[i := Some p],
        lw_threads := (lw_threads s)[i := True]\<rparr>, Some 0)" by blast
    from t assms(3) have "r = Some 0" "lw_processes s' = (lw_processes s)[i := Some p]" by auto
    with True free p show ?thesis by (intro conjI impI exI [of _ i] exI [of _ p]) auto
  qed
qed

text \<open>
  For any 39-byte request, the address of the control plane fits the array of 40 characters
  with its final zero, also with a port of eleven characters; the command line has the 15 entries
  the debug loop prints when the subprocess runs in a container; and \<open>process_exec\<close> reads from it
  the address and the port of the request.
\<close>

lemma subprocess_address:
  assumes "length req = Request_EXPECTED_LENGTH" and "CHR '':'' \<notin> set (ProcessRequest_ip_address req)"
  shows "length (subprocess_addr req) < 40 \<and> length (subprocess_argv req hp sw True) = 15 \<and>
    subprocess_args req hp sw ! 4 = subprocess_addr req \<and>
    process_exec_address junk (subprocess_args req hp sw ! 4) =
      (c_str (ProcessRequest_ip_address req), ProcessRequest_port req)"
proof -
  have "length (ProcessRequest_ip_address req) = 15"
    using assms(1) by (simp add: ProcessRequest_ip_address_def string_n_def sub_bytes_def Request_EXPECTED_LENGTH_def)
  then have len: "length (subprocess_addr req) < 40"
    using length_c_str [of "ProcessRequest_ip_address req"] length_to_string32 [of "ProcessRequest_port req"]
    by (simp add: subprocess_addr_def)
  have "CHR '':'' \<notin> set (c_str (ProcessRequest_ip_address req))"
    using assms(2) by (auto simp: c_str_def dest: set_takeWhileD)
  then have "split (subprocess_addr req) (CHR '':'') =
      (c_str (ProcessRequest_ip_address req), to_string32 (ProcessRequest_port req))"
    using split_append by (simp add: subprocess_addr_def)
  with len show ?thesis
    by (simp add: subprocess_argv_def subprocess_args_def subprocess_addr_c_str process_exec_address_def
        from_chars_to_string32)
qed

end
