(* ===== verification/Local_Memory.thy ===== *)
theory Local_Memory
  imports Common_Messages
begin

text \<open>
  The local memory service of \<open>src/runtime/local-memory/\<close> and its client in
  \<open>src/runtime/include/praas/global_memory.hpp\<close>: the 38-byte messages, the cache of objects, the
  worker that answers a request and the client. Objects point into an explicit heap. The connections
  and the event loop are in \<open>Memory_Server\<close>.
\<close>

section \<open>Messages\<close>

datatype MemType = UNKNOWN | CREATE | GET | PUT | DELETE | CREATE_REPLY | GET_REPLY | PUT_REPLY | DELETE_REPLY

fun mem_code :: "MemType \<Rightarrow> i16" where
  "mem_code UNKNOWN = -1"
| "mem_code CREATE = 100"
| "mem_code GET = 101"
| "mem_code PUT = 102"
| "mem_code DELETE = 103"
| "mem_code CREATE_REPLY = 104"
| "mem_code GET_REPLY = 105"
| "mem_code PUT_REPLY = 106"
| "mem_code DELETE_REPLY = 107"

definition REPLY_OFFSET :: i16 where
  "REPLY_OFFSET = mem_code CREATE_REPLY - mem_code CREATE"

text \<open>\<open>reply\<close> adds the offset to the code, so that its result may have no name.\<close>

definition mem_reply :: "MemType \<Rightarrow> i16" where
  "mem_reply t = mem_code t + REPLY_OFFSET"

definition mem_BUF_SIZE :: nat where
  "mem_BUF_SIZE = 38"

definition mem_send :: "i16 \<Rightarrow> string \<Rightarrow> i32 \<Rightarrow> bytes \<Rightarrow> bytes" where
  "mem_send type object_id payload buffer =
     (let b = put16 0 type buffer;
          b = put32 2 payload b
      in strncpy_at 6 object_id 32 b)"

text \<open>A code between \<open>CREATE\<close> and \<open>DELETE_REPLY\<close> is a type; they are consecutive.\<close>

definition mem_parse_type :: "bytes \<Rightarrow> MemType" where
  "mem_parse_type buffer =
     (let c = get16 0 buffer in
      if mem_code CREATE \<le>s c \<and> c \<le>s mem_code DELETE_REPLY
      then [CREATE, GET, PUT, DELETE, CREATE_REPLY, GET_REPLY, PUT_REPLY, DELETE_REPLY] ! (unat c - 100)
      else UNKNOWN)"

definition mem_payload :: "bytes \<Rightarrow> i32" where
  "mem_payload buffer = get32 2 buffer"

definition mem_is_error :: "bytes \<Rightarrow> bool" where
  "mem_is_error buffer \<longleftrightarrow> sint (mem_payload buffer) < 0"

definition mem_object_name :: "bytes \<Rightarrow> string" where
  "mem_object_name buffer = string_nlen 6 32 buffer"

section \<open>The cache\<close>

record Object =
  obj_data :: ptr
  obj_size :: nat

type_synonym Cache = "string \<rightharpoonup> Object"

text \<open>\<open>insert\<close> tells whether the key is new; the value is assigned in either case.\<close>

definition Cache_create :: "Cache \<Rightarrow> string \<Rightarrow> Object \<Rightarrow> bool \<times> Cache" where
  "Cache_create c k obj = (c k = None, c(k \<mapsto> obj))"

definition Cache_put :: "Cache \<Rightarrow> string \<Rightarrow> Object \<Rightarrow> bool \<times> Cache" where
  "Cache_put c k obj = (if c k \<noteq> None then (True, c(k \<mapsto> obj)) else (False, c))"

definition Cache_get :: "Cache \<Rightarrow> string \<Rightarrow> Object option" where
  "Cache_get c k = c k"

definition Cache_erase :: "Cache \<Rightarrow> string \<Rightarrow> bool \<times> Cache" where
  "Cache_erase c k = (c k \<noteq> None, c(k := None))"

interpretation cache: object_store Cache_get Cache_create Cache_put Cache_erase
  by unfold_locales
    (auto simp: Cache_get_def Cache_create_def Cache_put_def Cache_erase_def fun_eq_iff)

section \<open>The worker\<close>

record memory =
  cache_of :: Cache
  mem_heap :: "bytes heap"

text \<open>The bytes a pointer gives access to; \<open>None\<close> where the read is not inside a live block.\<close>

definition read_block :: "bytes heap \<Rightarrow> ptr \<Rightarrow> nat \<Rightarrow> bytes option" where
  "read_block h p n =
     (case p of None \<Rightarrow> None
      | Some a \<Rightarrow> (case blocks h a of None \<Rightarrow> None
          | Some bs \<Rightarrow> if n \<le> length bs then Some (take n bs) else None))"

text \<open>\<open>size_t\<close> of an \<open>int32_t\<close>.\<close>

definition size_of32 :: "i32 \<Rightarrow> nat" where
  "size_of32 n = unat (scast n :: 64 word)"

text \<open>
  What a worker writes: the reply, and after it the payload of a \<open>GET\<close>, \<open>Some None\<close> when the
  pointer it writes from is not valid.
\<close>

record answer =
  a_reply :: bytes
  a_payload :: "bytes option option"

text \<open>
  \<open>handle_session_message\<close>. \<open>recv_data\<close> and \<open>bs\<close> are what reading the payload gave, \<open>junk\<close> the
  uninitialised reply. The first result tells whether the \<open>busy\<close> flag was cleared.
\<close>

definition handle_session_message ::
  "bytes \<Rightarrow> int \<Rightarrow> bytes \<Rightarrow> bytes \<Rightarrow> memory \<Rightarrow> bool \<times> memory \<times> answer option" where
  "handle_session_message junk recv_data bs buffer m =
     (let pl = mem_payload buffer;
          (data, h) = (if 0 < sint pl then heap_new (take (nat (sint pl)) (bs @ replicate (nat (sint pl)) 0)) (mem_heap m)
                       else (None, mem_heap m))
      in if 0 < sint pl \<and> recv_data < sint pl then (False, m\<lparr>mem_heap := h\<rparr>, None)
         else
           let name = mem_object_name buffer;
               obj = \<lparr>obj_data = data, obj_size = size_of32 pl\<rparr>;
               (result, accessor, cch) = (case mem_parse_type buffer of
                   CREATE \<Rightarrow> (let (r, c) = Cache_create (cache_of m) name obj in (r, None, c))
                 | GET \<Rightarrow> (Cache_get (cache_of m) name \<noteq> None, Cache_get (cache_of m) name, cache_of m)
                 | PUT \<Rightarrow> (let (r, c) = Cache_put (cache_of m) name obj in (r, None, c))
                 | DELETE \<Rightarrow> (let (r, c) = Cache_erase (cache_of m) name in (r, None, c))
                 | _ \<Rightarrow> (False, None, cache_of m));
               ret_payload = (if result then (case accessor of None \<Rightarrow> 0 | Some o1 \<Rightarrow> word_of_nat (obj_size o1)) else -1);
               reply = mem_send (mem_reply (mem_parse_type buffer)) name ret_payload junk;
               sent = (if 0 < sint ret_payload
                       then (case accessor of None \<Rightarrow> None
                             | Some o1 \<Rightarrow> Some (read_block h (obj_data o1) (nat (sint ret_payload))))
                       else None)
           in (True, m\<lparr>cache_of := cch, mem_heap := heap_delete data h\<rparr>, Some \<lparr>a_reply = reply, a_payload = sent\<rparr>))"

section \<open>The client\<close>

text \<open>
  \<open>Memory::create\<close> and \<open>Memory::get\<close> up to the reply, and what they make of it; \<open>erase\<close> and
  \<open>put\<close> send nothing.
\<close>

definition Memory_create_request :: "string \<Rightarrow> bytes \<Rightarrow> bytes \<Rightarrow> bytes list" where
  "Memory_create_request i obj junk =
     mem_send (mem_code CREATE) i (word_of_nat (length obj)) junk # (if length obj \<noteq> 0 then [obj] else [])"

definition Memory_create_result :: "bytes \<Rightarrow> bool" where
  "Memory_create_result reply = (\<not> mem_is_error reply)"

definition Memory_get_request :: "string \<Rightarrow> bytes \<Rightarrow> bytes list" where
  "Memory_get_request i junk = [mem_send (mem_code GET) i 0 junk]"

text \<open>
  \<open>get\<close> allocates as many bytes as the reply announces, whose contents \<open>fresh\<close> are not initialised, and reads
  into them once; \<open>data\<close> is what that read delivers.
\<close>

definition filled :: "nat \<Rightarrow> (nat \<Rightarrow> 8 word) \<Rightarrow> bytes \<Rightarrow> bytes" where
  "filled n fresh data = take n data @ map fresh [length data..<n]"

definition Memory_get_result :: "bytes \<Rightarrow> (nat \<Rightarrow> 8 word) \<Rightarrow> bytes \<Rightarrow> bytes option" where
  "Memory_get_result reply fresh data =
     (if mem_is_error reply then None else Some (filled (nat (sint (mem_payload reply))) fresh data))"

definition Memory_erase :: "string \<Rightarrow> bool" where
  "Memory_erase i \<longleftrightarrow> i = ''''"

definition Memory_put :: "string \<Rightarrow> bytes \<Rightarrow> bool" where
  "Memory_put i obj \<longleftrightarrow> i = ''''"

section \<open>Lemmas on messages\<close>

definition name32 :: "string \<Rightarrow> bool" where
  "name32 s \<longleftrightarrow> length s \<le> 32 \<and> NUL \<notin> set s"

interpretation namef32: wire_field 32 "\<lambda>s. strncpy_bytes s 32"
  "\<lambda>bs. of_bytes (takeWhile (\<lambda>b. b \<noteq> 0) bs)" name32
  by unfold_locales (simp_all add: strncpy_nlen name32_def)

fun mem_encode :: "MemType \<times> string \<times> i32 \<Rightarrow> bytes" where
  "mem_encode (t, name, n) = mem_send (mem_code t) name n (replicate mem_BUF_SIZE 0)"

definition mem_decode :: "bytes \<Rightarrow> (MemType \<times> string \<times> i32) option" where
  "mem_decode b =
     (if mem_parse_type b = UNKNOWN then None else Some (mem_parse_type b, mem_object_name b, mem_payload b))"

fun mem_valid :: "MemType \<times> string \<times> i32 \<Rightarrow> bool" where
  "mem_valid (t, name, n) \<longleftrightarrow> t \<noteq> UNKNOWN \<and> name32 name"

lemma mem_send_fields:
  assumes "length junk = 38"
  shows "length (mem_send c name n junk) = 38" and "get16 0 (mem_send c name n junk) = c"
    and "mem_payload (mem_send c name n junk) = n"
    and "name32 name \<Longrightarrow> mem_object_name (mem_send c name n junk) = name"
  using assms
  by (simp_all add: mem_send_def mem_payload_def mem_object_name_def Let_def message_ops field_laws
      namef32.load_stored namef32.dec_enc)

lemma parse_mem_code:
  "get16 0 b = mem_code t \<Longrightarrow> mem_parse_type b = t"
  by (cases t) (simp_all add: mem_parse_type_def word_sle_eq)

lemma mem_decode_send:
  "length junk = 38 \<Longrightarrow> t \<noteq> UNKNOWN \<Longrightarrow> name32 name \<Longrightarrow>
     mem_decode (mem_send (mem_code t) name n junk) = Some (t, name, n)"
  by (simp add: mem_decode_def parse_mem_code mem_send_fields)

interpretation memreq: frame_codec 38 mem_encode mem_decode mem_valid
proof unfold_locales
  show "length (mem_encode m) = 38" for m
    by (cases m) (simp add: mem_send_fields mem_BUF_SIZE_def)
  show "mem_decode (mem_encode m) = Some m" if "mem_valid m" for m
    using that by (cases m) (simp add: mem_decode_send mem_BUF_SIZE_def)
qed

section \<open>Properties\<close>

text \<open>
  A message of the memory service, written into an uninitialised buffer, is read back with the
  same type, object name and payload size, and a stream of messages as the same messages in order.
\<close>

lemma memory_message_stream:
  assumes "list_all mem_valid ms" and "length junk = mem_BUF_SIZE" and "t \<noteq> UNKNOWN" and "name32 name"
  shows "map mem_decode (frames mem_BUF_SIZE (length ms) (concat (map mem_encode ms) @ rest)) = map Some ms \<and>
    mem_decode (mem_send (mem_code t) name n junk) = Some (t, name, n)"
  using assms memreq.decode_stream [OF assms(1)] mem_decode_send
  by (simp add: mem_BUF_SIZE_def)

lemma name32_object_name: "name32 (mem_object_name b)"
proof -
  let ?bs = "takeWhile (\<lambda>b. b \<noteq> 0) (sub_bytes 6 32 b)"
  have "length ?bs \<le> 32"
    using length_takeWhile_le [of "\<lambda>b. b \<noteq> 0" "sub_bytes 6 32 b"] by (simp add: sub_bytes_def)
  moreover have "NUL \<noteq> char_at x" if "x \<in> set ?bs" for x
    using set_takeWhileD [OF that] byte_of_char_at [of x] byte_of_NUL by metis
  ultimately show ?thesis by (auto simp: name32_def mem_object_name_def string_nlen_eq)
qed

lemma reply_types:
  "get16 0 b = mem_reply CREATE \<Longrightarrow> mem_parse_type b = CREATE_REPLY"
  "get16 0 b = mem_reply GET \<Longrightarrow> mem_parse_type b = GET_REPLY"
  "get16 0 b = mem_reply PUT \<Longrightarrow> mem_parse_type b = PUT_REPLY"
  "get16 0 b = mem_reply DELETE \<Longrightarrow> mem_parse_type b = DELETE_REPLY"
  by (auto simp: mem_reply_def REPLY_OFFSET_def intro!: parse_mem_code)

definition reply_type :: "MemType \<Rightarrow> MemType" where
  "reply_type t = (case t of CREATE \<Rightarrow> CREATE_REPLY | GET \<Rightarrow> GET_REPLY | PUT \<Rightarrow> PUT_REPLY | _ \<Rightarrow> DELETE_REPLY)"

lemma reply_type_parse:
  assumes "length junk = 38" and "t \<in> {CREATE, GET, PUT, DELETE}"
  shows "mem_parse_type (mem_send (mem_reply t) name n junk) = reply_type t"
  using assms(2) reply_types mem_send_fields(2) [OF assms(1)] by (auto simp: reply_type_def)

lemma sint_small: "k < 2 ^ 31 \<Longrightarrow> sint (word_of_nat k :: i32) = int k"
proof -
  assume "k < 2 ^ 31"
  then have "sint (word_of_int (int k) :: i32) = int k" unfolding int_word_sint by simp
  then show ?thesis by simp
qed

text \<open>The object a \<open>CREATE\<close> or \<open>PUT\<close> stores.\<close>

definition new_object :: "bytes \<Rightarrow> memory \<Rightarrow> Object" where
  "new_object buffer m =
     \<lparr>obj_data = (if 0 < sint (mem_payload buffer) then Some (next_addr (mem_heap m)) else None),
      obj_size = size_of32 (mem_payload buffer)\<rparr>"

definition stored :: "MemType \<Rightarrow> string \<Rightarrow> Object \<Rightarrow> Cache \<Rightarrow> Cache" where
  "stored t name obj c =
     (case t of CREATE \<Rightarrow> c(name \<mapsto> obj) | PUT \<Rightarrow> (if c name = None then c else c(name \<mapsto> obj))
      | DELETE \<Rightarrow> c(name := None) | _ \<Rightarrow> c)"

text \<open>
  The payload size of a reply: 0 or the size of the object, as 32 bits, for a success, and -1 for a failure.
\<close>

definition reply_payload :: "MemType \<Rightarrow> Object option \<Rightarrow> i32" where
  "reply_payload t ob =
     (case t of CREATE \<Rightarrow> (if ob = None then 0 else -1)
      | GET \<Rightarrow> (case ob of None \<Rightarrow> -1 | Some o1 \<Rightarrow> word_of_nat (obj_size o1))
      | _ \<Rightarrow> (if ob = None then -1 else 0))"

lemma size_of32_back [simp]: "word_of_nat (size_of32 n) = n"
  by (simp add: size_of32_def unsigned_ucast_eq, rule bit_word_eqI) (auto simp: bit_simps min_def dest: le_less_Suc_eq)

text \<open>
  C32: a complete request of one of the four types is answered with exactly one reply of the
  matching type for the same object, whatever sizes the objects of the cache have. Its payload size is -1 when
  an object to create exists or one to get, put or delete does not, the stored size for a \<open>GET\<close> of an object
  that exists, and 0 otherwise. \<open>DELETE\<close> removes the object, \<open>PUT\<close> replaces one that exists, \<open>CREATE\<close> stores the
  object also when it reports a failure, and nothing else changes in the cache. The size stored is the payload
  size of the request, which is not checked: an object created with a negative size is there, and a later \<open>GET\<close>
  of it is answered with that negative size, which the client takes for a failure.
\<close>

theorem memory_reply_spec:
  assumes "mem_parse_type buffer = t" and "t \<in> {CREATE, GET, PUT, DELETE}" and "length junk = mem_BUF_SIZE"
    and "sint (mem_payload buffer) \<le> recv_data \<or> sint (mem_payload buffer) \<le> 0"
  shows "\<exists>m' a. handle_session_message junk recv_data bs buffer m = (True, m', Some a) \<and>
    mem_parse_type (a_reply a) = reply_type t \<and> mem_object_name (a_reply a) = mem_object_name buffer \<and>
    mem_payload (a_reply a) = reply_payload t (cache_of m (mem_object_name buffer)) \<and>
    cache_of m' = stored t (mem_object_name buffer) (new_object buffer m) (cache_of m) \<and>
    word_of_nat (obj_size (new_object buffer m)) = mem_payload buffer"
proof -
  let ?name = "mem_object_name buffer"
  have j: "length junk = 38" using assms(3) by (simp add: mem_BUF_SIZE_def)
  note f = mem_send_fields [OF j] and r = reply_type_parse [OF j assms(2)]
  have nn: "\<not> (0 < sint (mem_payload buffer) \<and> recv_data < sint (mem_payload buffer))" using assms(4) by auto
  have fst_new: "fst (heap_new x (mem_heap m)) = Some (next_addr (mem_heap m))" for x by (simp add: heap_new_def)
  show ?thesis
    using assms(1,2) nn r name32_object_name [of buffer]
    by (cases t; cases "cache_of m ?name")
      (simp_all add: handle_session_message_def Let_def case_prod_beta f reply_payload_def stored_def
        Cache_create_def Cache_put_def Cache_get_def Cache_erase_def new_object_def fst_new)
qed

text \<open>An object that was created with the size -5: a request to get it.\<close>

theorem memory_reply_spec_witness:
  "\<exists>m' a. handle_session_message (replicate 38 0) 0 [] (mem_encode (GET, ''/o'', 0))
      \<lparr>cache_of = [''/o'' \<mapsto> \<lparr>obj_data = None, obj_size = size_of32 (-5)\<rparr>], mem_heap = heap_empty\<rparr> = (True, m', Some a) \<and>
    mem_payload (a_reply a) = -5 \<and> cache_of m' ''/o'' \<noteq> None"
proof -
  have "mem_decode (mem_encode (GET, ''/o'', 0)) = Some (GET, ''/o'', 0)"
    by (rule memreq.decode_encode) (simp add: name32_def)
  then have "mem_parse_type (mem_encode (GET, ''/o'', 0)) = GET" "mem_payload (mem_encode (GET, ''/o'', 0)) = 0"
    "mem_object_name (mem_encode (GET, ''/o'', 0)) = ''/o''"
    by (simp_all add: mem_decode_def split: if_splits del: mem_encode.simps)
  then show ?thesis
    using memory_reply_spec [of "mem_encode (GET, ''/o'', 0)" GET "replicate 38 0" 0 "[]"
        "\<lparr>cache_of = [''/o'' \<mapsto> \<lparr>obj_data = None, obj_size = size_of32 (-5)\<rparr>], mem_heap = heap_empty\<rparr>"]
    by (force simp: mem_BUF_SIZE_def reply_payload_def stored_def simp del: mem_encode.simps)
qed

section \<open>Objects outlive their memory\<close>

inductive mem_step :: "memory \<Rightarrow> memory \<Rightarrow> bool" where
  request: "handle_session_message junk recv_data bs buffer m = (cleared, m', ans) \<Longrightarrow> mem_step m m'"

inductive_cases mem_stepE: "mem_step m m'"

definition dangling :: "memory \<Rightarrow> bool" where
  "dangling m \<longleftrightarrow> (\<forall>k ob a. cache_of m k = Some ob \<longrightarrow> obj_data ob = Some a \<longrightarrow>
     a < next_addr (mem_heap m) \<and> blocks (mem_heap m) a = None)"

lemma handle_cases:
  assumes "handle_session_message junk recv_data bs buffer m = (cleared, m', ans)"
  obtains (short) bl where "cleared = False" "0 < sint (mem_payload buffer)" "ans = None"
      "m' = m\<lparr>mem_heap := snd (heap_new bl (mem_heap m))\<rparr>"
  | (full) bl cch where "cleared = True"
      "cch = cache_of m \<or> cch = (cache_of m)(mem_object_name buffer \<mapsto> new_object buffer m) \<or>
         cch = (cache_of m)(mem_object_name buffer := None)"
      "m' = m\<lparr>cache_of := cch, mem_heap := (if 0 < sint (mem_payload buffer)
         then heap_delete (Some (next_addr (mem_heap m))) (snd (heap_new bl (mem_heap m))) else mem_heap m)\<rparr>"
proof -
  have new: "fst (heap_new x (mem_heap m)) = Some (next_addr (mem_heap m))" for x by (simp add: heap_new_def)
  let ?bl = "take (nat (sint (mem_payload buffer))) (bs @ replicate (nat (sint (mem_payload buffer))) 0)"
  show ?thesis
  proof (cases "0 < sint (mem_payload buffer) \<and> recv_data < sint (mem_payload buffer)")
    case True
    with assms show ?thesis by (intro short [of ?bl]) (auto simp: handle_session_message_def Let_def case_prod_beta)
  next
    case False
    let ?c = "cache_of m'"
    have "cleared = True" and m': "m' = m\<lparr>cache_of := ?c, mem_heap := (if 0 < sint (mem_payload buffer)
         then heap_delete (Some (next_addr (mem_heap m))) (snd (heap_new ?bl (mem_heap m))) else mem_heap m)\<rparr>"
      using False assms by (auto simp: handle_session_message_def Let_def case_prod_beta new)
    moreover have "?c = cache_of m \<or> ?c = (cache_of m)(mem_object_name buffer \<mapsto> new_object buffer m) \<or>
         ?c = (cache_of m)(mem_object_name buffer := None)"
      using False assms
      by (cases "mem_parse_type buffer")
        (auto simp: handle_session_message_def Let_def case_prod_beta new new_object_def
          Cache_create_def Cache_put_def Cache_erase_def split: if_splits)
    ultimately show ?thesis by (intro full [of ?c ?bl])
  qed
qed

lemma mem_step_dangling: "mem_step m m' \<Longrightarrow> dangling m \<Longrightarrow> dangling m'"
proof (induction rule: mem_step.induct)
  case (request junk recv_data bs buffer m cleared m' ans)
  from request(1) show ?case
  proof (cases rule: handle_cases)
    case (short bl)
    with request(2) show ?thesis by (auto simp: dangling_def heap_new_def less_SucI)
  next
    case (full bl cch)
    with request(2) show ?thesis
      by (auto simp: dangling_def heap_new_def heap_delete_def new_object_def less_SucI split: if_splits)
  qed
qed

interpretation mem: invariant_machine mem_step dangling
  by unfold_locales (rule mem_step_dangling)

text \<open>
  No \<open>GET\<close> ever returns the bytes of an object. The worker stores the pointer to the
  received payload in the cache and then deletes the block, so that in every state the service
  reaches by handling requests one after the other, a \<open>GET\<close> of an object with a positive size
  announces that size and writes from memory that was released.
\<close>

lemma get_reads_released_memory:
  assumes "reaches mem_step \<lparr>cache_of = Map.empty, mem_heap = heap_empty\<rparr> m"
    and "cache_of m (mem_object_name buffer) = Some ob" and "0 < obj_size ob" and "obj_size ob < 2 ^ 31"
    and "mem_parse_type buffer = GET" and "mem_payload buffer = 0"
  shows "\<exists>m' a. handle_session_message junk recv_data bs buffer m = (True, m', Some a) \<and> a_payload a = Some None"
proof -
  have "dangling \<lparr>cache_of = Map.empty, mem_heap = heap_empty\<rparr>" by (simp add: dangling_def)
  with mem.reaches_inv [OF assms(1)] have "dangling m" by blast
  with assms(2) have "read_block (mem_heap m) (obj_data ob) (obj_size ob) = None"
    by (auto simp: dangling_def read_block_def split: option.splits)
  then show ?thesis
    using assms(2-6) by (simp add: handle_session_message_def Let_def case_prod_beta Cache_get_def sint_small)
qed

section \<open>A client and the service\<close>

lemma create_request_fields:
  assumes "length junk = 38" and "name32 k" and "length obj < 2 ^ 31"
  shows "mem_parse_type (hd (Memory_create_request k obj junk)) = CREATE"
    and "mem_object_name (hd (Memory_create_request k obj junk)) = k"
    and "sint (mem_payload (hd (Memory_create_request k obj junk))) = int (length obj)"
  using assms
  by (simp_all add: Memory_create_request_def parse_mem_code [of _ CREATE] mem_send_fields sint_small del: mem_code.simps)

lemma get_request_fields:
  assumes "length junk = 38" and "name32 k"
  shows "mem_parse_type (hd (Memory_get_request k junk)) = GET"
    and "mem_object_name (hd (Memory_get_request k junk)) = k" and "mem_payload (hd (Memory_get_request k junk)) = 0"
  using assms by (simp_all add: Memory_get_request_def parse_mem_code [of _ GET] mem_send_fields del: mem_code.simps)

lemma size_of32_nonneg: "0 \<le> sint n \<Longrightarrow> size_of32 n = nat (sint n)"
  by (simp add: size_of32_def unat_scast64)

lemma create_then_get:
  assumes "length j1 = 38" and "length j2 = 38" and "length j3 = 38" and "length j4 = 38"
    and "name32 k" and "obj \<noteq> []" and "length obj < 2 ^ 31"
  shows "\<exists>m1 a1 m2 a2.
    handle_session_message j2 (int (length obj)) obj (hd (Memory_create_request k obj j1)) m = (True, m1, Some a1) \<and>
    handle_session_message j4 0 [] (hd (Memory_get_request k j3)) m1 = (True, m2, Some a2) \<and>
    (Memory_create_result (a_reply a1) \<longleftrightarrow> cache_of m k = None) \<and>
    a_payload a2 = Some None \<and> mem_payload (a_reply a2) = word_of_nat (length obj) \<and> (\<forall>k'. k' \<noteq> k \<longrightarrow> cache_of m2 k' = cache_of m k')"
proof -
  let ?c = "hd (Memory_create_request k obj j1)" and ?g = "hd (Memory_get_request k j3)"
  note c = create_request_fields [OF assms(1,5,7)] and g = get_request_fields [OF assms(3,5)]
  let ?ob = "\<lparr>obj_data = Some (next_addr (mem_heap m)), obj_size = length obj\<rparr>"
  have pos: "0 < sint (mem_payload ?c)" "\<not> int (length obj) < sint (mem_payload ?c)" using c(3) assms(6) by simp_all
  have size: "size_of32 (mem_payload ?c) = length obj" using c(3) by (simp add: size_of32_nonneg)
  obtain m1 a1 where h1: "handle_session_message j2 (int (length obj)) obj ?c m = (True, m1, Some a1)"
    and cache1: "cache_of m1 = (cache_of m)(k \<mapsto> ?ob)" and heap1: "blocks (mem_heap m1) (next_addr (mem_heap m)) = None"
    and r1: "mem_payload (a_reply a1) = (if cache_of m k = None then 0 else -1)"
    using pos mem_send_fields(3) [OF assms(2)]
    by (simp add: handle_session_message_def Let_def c(1,2) size heap_new_def heap_delete_def Cache_create_def)
  have "read_block (mem_heap m1) (Some (next_addr (mem_heap m))) n = None" for n
    using heap1 by (simp add: read_block_def)
  then obtain m2 a2 where h2: "handle_session_message j4 0 [] ?g m1 = (True, m2, Some a2)"
    and r2: "mem_payload (a_reply a2) = word_of_nat (length obj)" "a_payload a2 = Some None"
    and cache2: "cache_of m2 = cache_of m1"
    using cache1 assms(6,7) mem_send_fields(3) [OF assms(4)]
    by (simp add: handle_session_message_def Let_def g Cache_get_def sint_small)
  have "Memory_create_result (a_reply a1) \<longleftrightarrow> cache_of m k = None"
    using r1 by (simp add: Memory_create_result_def mem_is_error_def)
  then show ?thesis
    using h1 h2 r2 cache1 cache2 by (intro exI [of _ m1] exI [of _ a1] exI [of _ m2] exI [of _ a2]) simp
qed

lemma filled_bytes: "length (filled n fresh data) = n" "take (length data) (filled n fresh data) = take n data"
  by (cases "length data \<le> n"; simp add: filled_def)+

lemma get_result:
  assumes "mem_payload reply = word_of_nat n" and "n < 2 ^ 31"
  shows "Memory_get_result reply fresh data = Some (filled n fresh data)"
  using assms by (simp add: Memory_get_result_def mem_is_error_def sint_small)

text \<open>
  C31: a client creates an object and gets it back over the service. The creation is reported as
  successful exactly when the name was free; the request to get it is answered with exactly the size of the
  object just created, in either case; the bytes that follow are written from memory the service released; and
  the client returns exactly as many bytes as the object had, first those that its only read delivers.
\<close>

theorem memory_client_create_get:
  assumes "length j1 = 38" and "length j2 = 38" and "length j3 = 38" and "length j4 = 38"
    and "name32 k" and "obj \<noteq> []" and "length obj < 2 ^ 31"
  shows "\<exists>m1 a1 m2 a2.
    handle_session_message j2 (int (length obj)) obj (hd (Memory_create_request k obj j1)) m = (True, m1, Some a1) \<and>
    handle_session_message j4 0 [] (hd (Memory_get_request k j3)) m1 = (True, m2, Some a2) \<and>
    (Memory_create_result (a_reply a1) \<longleftrightarrow> cache_of m k = None) \<and>
    sint (mem_payload (a_reply a2)) = int (length obj) \<and> a_payload a2 = Some None \<and>
    (\<forall>fresh data. \<exists>r. Memory_get_result (a_reply a2) fresh data = Some r \<and> length r = length obj \<and>
       take (length data) r = take (length obj) data)"
proof -
  obtain m1 a1 m2 a2 where
    "handle_session_message j2 (int (length obj)) obj (hd (Memory_create_request k obj j1)) m = (True, m1, Some a1)"
    "handle_session_message j4 0 [] (hd (Memory_get_request k j3)) m1 = (True, m2, Some a2)"
    "Memory_create_result (a_reply a1) \<longleftrightarrow> cache_of m k = None" "a_payload a2 = Some None"
    and p: "mem_payload (a_reply a2) = word_of_nat (length obj)"
    using create_then_get [OF assms, of m] by (elim exE conjE) (rule that)
  moreover have "Memory_get_result (a_reply a2) fresh data = Some (filled (length obj) fresh data)" for fresh data
    by (rule get_result [OF p assms(7)])
  moreover have "sint (mem_payload (a_reply a2)) = int (length obj)" using p assms(7) by (simp add: sint_small)
  ultimately show ?thesis by (intro exI conjI allI) (assumption | simp add: filled_bytes)+
qed

theorem memory_client_create_get_witness:
  "\<exists>m1 a1 m2 a2. handle_session_message (replicate 38 0) 2 [1, 2] (hd (Memory_create_request ''/obj1'' [1, 2] (replicate 38 0)))
      \<lparr>cache_of = Map.empty, mem_heap = heap_empty\<rparr> = (True, m1, Some a1) \<and> Memory_create_result (a_reply a1) \<and>
    handle_session_message (replicate 38 0) 0 [] (hd (Memory_get_request ''/obj1'' (replicate 38 0))) m1 = (True, m2, Some a2) \<and>
    sint (mem_payload (a_reply a2)) = 2"
proof -
  let ?j = "replicate 38 0 :: bytes" and ?m = "\<lparr>cache_of = Map.empty, mem_heap = heap_empty\<rparr>"
  have l: "length ?j = 38" "name32 ''/obj1''" "[1, 2] \<noteq> ([] :: bytes)" "length ([1, 2] :: bytes) < 2 ^ 31"
    by (simp_all add: name32_def)
  obtain m1 a1 m2 a2 where
    "handle_session_message ?j (int (length [1 :: 8 word, 2])) [1, 2] (hd (Memory_create_request ''/obj1'' [1, 2] ?j)) ?m = (True, m1, Some a1)"
    "handle_session_message ?j 0 [] (hd (Memory_get_request ''/obj1'' ?j)) m1 = (True, m2, Some a2)"
    "Memory_create_result (a_reply a1) \<longleftrightarrow> cache_of ?m ''/obj1'' = None"
    "sint (mem_payload (a_reply a2)) = int (length [1 :: 8 word, 2])"
    using memory_client_create_get [OF l(1) l(1) l(1) l(1) l(2-4), of ?m] by (elim exE conjE) (rule that)
  then show ?thesis by (intro exI [of _ m1] exI [of _ a1] exI [of _ m2] exI [of _ a2]) simp
qed

section \<open>The example client\<close>

text \<open>
  A whole call of the client against the service: the request, its handling and the reading of the
  reply; \<open>None\<close> when no reply comes. \<open>released\<close> is what a released block holds when it is written out.
\<close>

definition Memory_create :: "bytes \<Rightarrow> string \<Rightarrow> bytes \<Rightarrow> memory \<Rightarrow> (bool \<times> memory) option" where
  "Memory_create junk i obj m =
     (case handle_session_message junk (int (length obj)) obj (hd (Memory_create_request i obj junk)) m of
        (_, m', Some a) \<Rightarrow> Some (Memory_create_result (a_reply a), m')
      | (_, m', None) \<Rightarrow> None)"

definition Memory_get :: "bytes \<Rightarrow> (nat \<Rightarrow> 8 word) \<Rightarrow> bytes \<Rightarrow> string \<Rightarrow> memory \<Rightarrow> (bytes option \<times> memory) option" where
  "Memory_get junk fresh released i m =
     (case handle_session_message junk 0 [] (hd (Memory_get_request i junk)) m of
        (_, m', Some a) \<Rightarrow> Some (Memory_get_result (a_reply a) fresh
          (case a_payload a of Some (Some bs) \<Rightarrow> bs | Some None \<Rightarrow> released | None \<Rightarrow> []), m')
      | (_, m', None) \<Rightarrow> None)"

text \<open>
  \<open>main\<close> of \<open>src/examples/memory.cpp\<close>: what it prints; \<open>None\<close> also when \<open>obj.value()\<close> throws.
\<close>

definition memory_example_main :: "bytes \<Rightarrow> (nat \<Rightarrow> 8 word) \<Rightarrow> bytes \<Rightarrow> memory \<Rightarrow> (bool \<times> bytes \<times> bool) option" where
  "memory_example_main junk fresh released m =
     Option.bind (Memory_create junk ''/obj1'' (to_bytes ''MY SECRET'' @ [0]) m) (\<lambda>(result, m).
     Option.bind (Memory_get junk fresh released ''/obj1'' m) (\<lambda>(obj, m).
     Option.bind obj (\<lambda>value.
     Option.bind (Memory_get junk fresh released ''/obj2'' m) (\<lambda>(obj2, m).
     Some (result, value, obj2 \<noteq> None)))))"

text \<open>
  The example ends and prints what its texts expect, except that the ten bytes of the object it gets
  back are whatever the released block holds.
\<close>

lemma memory_example_output:
  assumes "length junk = 38" and "length released = 10" and "cache_of m ''/obj2'' = None"
  shows "memory_example_main junk fresh released m = Some (cache_of m ''/obj1'' = None, released, False)"
proof -
  let ?obj = "to_bytes ''MY SECRET'' @ [0]"
  have n: "name32 ''/obj1''" "name32 ''/obj2''" "?obj \<noteq> []" "length ?obj < 2 ^ 31"
    by (simp_all add: name32_def)
  obtain m1 a1 m2 a2 where
    1: "handle_session_message junk (int (length ?obj)) ?obj (hd (Memory_create_request ''/obj1'' ?obj junk)) m = (True, m1, Some a1)"
    and 2: "handle_session_message junk 0 [] (hd (Memory_get_request ''/obj1'' junk)) m1 = (True, m2, Some a2)"
    and r: "Memory_create_result (a_reply a1) \<longleftrightarrow> cache_of m ''/obj1'' = None" "a_payload a2 = Some None"
      "mem_payload (a_reply a2) = word_of_nat (length ?obj)"
      "\<forall>k'. k' \<noteq> ''/obj1'' \<longrightarrow> cache_of m2 k' = cache_of m k'"
    using create_then_get [OF assms(1) assms(1) assms(1) assms(1) n(1,3,4), of m] by (elim exE conjE) (rule that)
  note g = get_request_fields [OF assms(1) n(2)]
  have "cache_of m2 ''/obj2'' = None" using r(4) assms(3) by simp
  then obtain m3 a3 where 3: "handle_session_message junk 0 [] (hd (Memory_get_request ''/obj2'' junk)) m2 = (True, m3, Some a3)"
    and "mem_payload (a_reply a3) = -1"
    using mem_send_fields(3) [OF assms(1)] by (simp add: handle_session_message_def Let_def g Cache_get_def)
  then have none: "Memory_get_result (a_reply a3) fresh bs = None" for bs by (simp add: Memory_get_result_def mem_is_error_def)
  have "Memory_create junk ''/obj1'' ?obj m = Some (cache_of m ''/obj1'' = None, m1)"
    unfolding Memory_create_def 1 using r(1) by simp
  moreover have "Memory_get junk fresh released ''/obj1'' m1 = Some (Some released, m2)"
    unfolding Memory_get_def 2 using r(2) get_result [OF r(3) n(4)] assms(2) by (simp add: filled_def)
  moreover have "Memory_get junk fresh released ''/obj2'' m2 = Some (None, m3)"
    unfolding Memory_get_def 3 using none by simp
  ultimately show ?thesis unfolding memory_example_main_def by simp
qed

end
