(* ===== verification/Memory_Server.thy ===== *)
theory Memory_Server
  imports Local_Memory
begin

text \<open>
  The server of the local memory service: its connections
  (\<open>src/runtime/local-memory/connections.hpp\<close>), the event loop (\<open>server.cpp\<close>) and the threads that
  run \<open>Worker::handle_message\<close> (\<open>worker.hpp\<close>). The loop and the workers share the \<open>busy\<close> flag of a
  connection; the machine below has one step for every access to it, so that the loop may be stopped
  between pushing a task and setting the flag, and a worker between clearing the flag and answering.
\<close>

section \<open>Connections\<close>

datatype ConnType = SESSION_CONN | P2P

record Connection =
  conn_sock :: "nat option"
  conn_busy :: bool
  conn_pos :: int
  conn_id :: string
  conn_type :: ConnType

definition Connection_default :: "ConnType \<Rightarrow> Connection" where
  "Connection_default junk =
     \<lparr>conn_sock = None, conn_busy = False, conn_pos = -1, conn_id = '''', conn_type = junk\<rparr>"

definition Connection_session :: "nat \<Rightarrow> ConnType \<Rightarrow> int \<Rightarrow> Connection" where
  "Connection_session h ty p = \<lparr>conn_sock = Some h, conn_busy = False, conn_pos = p, conn_id = '''', conn_type = ty\<rparr>"

definition Connection_peer :: "nat \<Rightarrow> ConnType \<Rightarrow> string \<Rightarrow> Connection" where
  "Connection_peer h ty i = \<lparr>conn_sock = Some h, conn_busy = False, conn_pos = -1, conn_id = i, conn_type = ty\<rparr>"

text \<open>Move assignment takes everything but the identifier.\<close>

definition Connection_assign :: "Connection \<Rightarrow> Connection \<Rightarrow> Connection" where
  "Connection_assign this obj =
     this\<lparr>conn_sock := conn_sock obj, conn_pos := conn_pos obj, conn_type := conn_type obj, conn_busy := conn_busy obj\<rparr>"

definition MAX_CONNECTIONS :: nat where
  "MAX_CONNECTIONS = 64"

record SessionConnections =
  active :: "bool list"
  connections :: "Connection list"

definition SessionConnections_init :: "ConnType \<Rightarrow> SessionConnections" where
  "SessionConnections_init junk =
     \<lparr>active = replicate MAX_CONNECTIONS False, connections = replicate MAX_CONNECTIONS (Connection_default junk)\<rparr>"

text \<open>\<open>std::find(active, active + MAX_CONNECTIONS, false)\<close>, then the flag is set.\<close>

definition claim_active :: "unit \<Rightarrow> bool list \<Rightarrow> (nat \<times> bool list) option" where
  "claim_active _ act =
     (let pos = find_pos (\<lambda>b. b = False) act in
      if pos = length act then None else Some (pos, act[pos := True]))"

definition SessionConnections_insert :: "nat \<Rightarrow> SessionConnections \<Rightarrow> nat option \<times> SessionConnections" where
  "SessionConnections_insert h s =
     (case claim_active () (active s) of
        None \<Rightarrow> (None, s)
      | Some (i, act) \<Rightarrow>
          (Some i, s\<lparr>active := act, connections := (connections s)[i :=
             Connection_assign (connections s ! i) (Connection_session h SESSION_CONN (int i))]\<rparr>))"

definition SessionConnections_release :: "nat \<Rightarrow> SessionConnections \<Rightarrow> SessionConnections" where
  "SessionConnections_release i s =
     s\<lparr>active := (active s)[i := False],
       connections := (connections s)[i := (connections s ! i)\<lparr>conn_sock := None\<rparr>]\<rparr>"

interpretation act: slot_array "\<lambda>b. b = False" "\<lambda>_ _. True" claim_active
  by unfold_locales (auto simp: claim_active_def Let_def)

definition P2PConnections_insert ::
  "ConnType \<Rightarrow> string \<Rightarrow> nat \<Rightarrow> (string \<rightharpoonup> Connection) \<Rightarrow> (string \<rightharpoonup> Connection)" where
  "P2PConnections_insert junk i h cs =
     (let old = (case cs i of None \<Rightarrow> Connection_default junk | Some c \<Rightarrow> c)
      in cs(i \<mapsto> Connection_assign old (Connection_peer h P2P i)))"

definition P2PConnections_release :: "string \<Rightarrow> (string \<rightharpoonup> Connection) \<Rightarrow> (string \<rightharpoonup> Connection)" where
  "P2PConnections_release i cs = cs(i := None)"

section \<open>The event loop\<close>

text \<open>
  The state: the connections, which slots epoll watches, the tasks that wait for a thread, the
  connection whose flag the loop sets next if it just pushed a task, the requests whose payload has
  been read but which are not answered yet, and whether the loop has been left.
\<close>

record lm_server =
  lm_conns :: SessionConnections
  lm_peers :: "string \<rightharpoonup> Connection"
  lm_polled :: "nat set"
  lm_tasks :: "(nat \<times> bytes) list"
  lm_setting :: "nat option"
  lm_running :: "(nat \<times> bytes \<times> int \<times> bytes) list"
  lm_memory :: memory
  lm_ending :: bool
  lm_stopped :: bool

definition lm_init :: "ConnType \<Rightarrow> lm_server" where
  "lm_init junk = \<lparr>lm_conns = SessionConnections_init junk, lm_peers = Map.empty, lm_polled = {}, lm_tasks = [],
     lm_setting = None, lm_running = [], lm_memory = \<lparr>cache_of = Map.empty, mem_heap = heap_empty\<rparr>,
     lm_ending = False, lm_stopped = False\<rparr>"

definition set_busy :: "bool \<Rightarrow> nat \<Rightarrow> SessionConnections \<Rightarrow> SessionConnections" where
  "set_busy b i s = s\<lparr>connections := (connections s)[i := (connections s ! i)\<lparr>conn_busy := b\<rparr>]\<rparr>"

text \<open>
  A new connection; \<open>None\<close> where the null pointer of a refused insertion is dereferenced. The result
  of \<open>add_epoll\<close> is ignored.
\<close>

definition lm_accept :: "bool \<Rightarrow> nat \<Rightarrow> lm_server \<Rightarrow> lm_server option" where
  "lm_accept ctl_ok h s =
     (case SessionConnections_insert h (lm_conns s) of
        (None, _) \<Rightarrow> None
      | (Some i, cs) \<Rightarrow>
          Some (s\<lparr>lm_conns := cs, lm_polled := (if ctl_ok then insert i (lm_polled s) else lm_polled s)\<rparr>))"

text \<open>End of file or a failed read: the connection is released by its position or by its identifier.\<close>

definition lm_release :: "nat \<Rightarrow> lm_server \<Rightarrow> lm_server" where
  "lm_release i s =
     (let c = connections (lm_conns s) ! i in
      if conn_type c = SESSION_CONN
      then s\<lparr>lm_conns := SessionConnections_release (nat (conn_pos c)) (lm_conns s),
             lm_polled := lm_polled s - {nat (conn_pos c)}\<rparr>
      else s\<lparr>lm_peers := P2PConnections_release (conn_id c) (lm_peers s)\<rparr>)"

text \<open>Activity on a connection: \<open>recv_data\<close> and the bytes of the message.\<close>

definition lm_activity :: "nat \<Rightarrow> int \<Rightarrow> bytes \<Rightarrow> lm_server \<Rightarrow> lm_server" where
  "lm_activity i recv_data msg s =
     (if conn_busy (connections (lm_conns s) ! i) then s
      else if recv_data = 0 \<or> recv_data = -1 then lm_release i s
      else s\<lparr>lm_tasks := lm_tasks s @ [(i, msg)], lm_setting := Some i\<rparr>)"

text \<open>
  \<open>handle_message\<close> up to the flag: a payload that is too short ends the task with the flag set;
  otherwise the flag is cleared and the answer follows. Messages of peers are ignored.
\<close>

definition lm_read :: "nat \<Rightarrow> bytes \<Rightarrow> int \<Rightarrow> bytes \<Rightarrow> lm_server \<Rightarrow> lm_server" where
  "lm_read i msg recv_data bs s =
     (if conn_type (connections (lm_conns s) ! i) \<noteq> SESSION_CONN then s
      else if 0 < sint (mem_payload msg) \<and> recv_data < sint (mem_payload msg)
      then s\<lparr>lm_memory := fst (snd (handle_session_message [] recv_data bs msg (lm_memory s)))\<rparr>
      else s\<lparr>lm_conns := set_busy False i (lm_conns s), lm_running := lm_running s @ [(i, msg, recv_data, bs)]\<rparr>)"

definition lm_shutdown :: "lm_server \<Rightarrow> lm_server" where
  "lm_shutdown s = s\<lparr>lm_ending := True\<rparr>"

text \<open>The loop is left when an end was requested, or when \<open>epoll_wait\<close> fails other than with \<open>EINVAL\<close>.\<close>

definition lm_leaves :: "bool \<Rightarrow> bool \<Rightarrow> lm_server \<Rightarrow> bool" where
  "lm_leaves failed einval s \<longleftrightarrow> lm_ending s \<or> failed \<and> \<not> einval"

text \<open>The set-up before the loop, from the results of opening the socket and of the two epoll calls.\<close>

definition lm_start :: "bool \<Rightarrow> bool \<Rightarrow> bool \<Rightarrow> lm_server \<Rightarrow> lm_server" where
  "lm_start listening epoll_ok add_ok s =
     (if \<not> listening \<or> \<not> epoll_ok \<or> \<not> add_ok then s\<lparr>lm_stopped := True\<rparr> else s)"

inductive lm_step :: "lm_server \<Rightarrow> lm_server \<Rightarrow> bool" where
  accept: "\<not> lm_stopped s \<Longrightarrow> lm_setting s = None \<Longrightarrow> lm_accept ctl_ok h s = Some s' \<Longrightarrow> lm_step s s'"
| activity: "\<not> lm_stopped s \<Longrightarrow> lm_setting s = None \<Longrightarrow> i \<in> lm_polled s \<Longrightarrow> lm_step s (lm_activity i recv_data msg s)"
| set_flag: "lm_setting s = Some i \<Longrightarrow>
     lm_step s (s\<lparr>lm_conns := set_busy True i (lm_conns s), lm_setting := None\<rparr>)"
| read: "lm_tasks s = xs @ (i, msg) # ys \<Longrightarrow> lm_step s (lm_read i msg recv_data bs (s\<lparr>lm_tasks := xs @ ys\<rparr>))"
| answer: "lm_running s = xs @ (i, msg, recv_data, bs) # ys \<Longrightarrow>
     handle_session_message junk recv_data bs msg (lm_memory s) = (cleared, m, ans) \<Longrightarrow>
     lm_step s (s\<lparr>lm_running := xs @ ys, lm_memory := m\<rparr>)"
| shutdown: "lm_step s (lm_shutdown s)"
| leave: "lm_setting s = None \<Longrightarrow> lm_leaves failed einval s \<Longrightarrow> lm_step s (s\<lparr>lm_stopped := True\<rparr>)"

inductive_cases lm_stepE: "lm_step s t"

section \<open>The invariant of the connections\<close>

text \<open>An active slot holds an open session connection that knows its position.\<close>

definition conn_ok :: "nat \<Rightarrow> Connection \<Rightarrow> bool" where
  "conn_ok i c \<longleftrightarrow> conn_pos c = int i \<and> conn_type c = SESSION_CONN \<and> conn_sock c \<noteq> None"

definition conns_ok :: "SessionConnections \<Rightarrow> bool" where
  "conns_ok cs \<longleftrightarrow> length (active cs) = MAX_CONNECTIONS \<and> length (connections cs) = MAX_CONNECTIONS \<and>
     (\<forall>i < MAX_CONNECTIONS. active cs ! i \<longrightarrow> conn_ok i (connections cs ! i))"

text \<open>A task belongs to an active connection that is busy, or about to be marked as busy.\<close>

definition task_ok :: "lm_server \<Rightarrow> nat \<Rightarrow> bool" where
  "task_ok s i \<longleftrightarrow> i < MAX_CONNECTIONS \<and> active (lm_conns s) ! i \<and>
     (conn_busy (connections (lm_conns s) ! i) \<or> lm_setting s = Some i)"

definition lm_inv :: "lm_server \<Rightarrow> bool" where
  "lm_inv s \<longleftrightarrow> conns_ok (lm_conns s) \<and> distinct (map fst (lm_tasks s)) \<and>
     (\<forall>i \<in> fst ` set (lm_tasks s). task_ok s i) \<and>
     (\<forall>i. lm_setting s = Some i \<longrightarrow> i < MAX_CONNECTIONS \<and> active (lm_conns s) ! i) \<and>
     (\<forall>i \<in> lm_polled s. i < MAX_CONNECTIONS \<and> active (lm_conns s) ! i)"

lemma conns_ok_init [simp]: "conns_ok (SessionConnections_init junk)"
  by (simp add: conns_ok_def SessionConnections_init_def)

lemma lm_inv_init: "lm_inv (lm_init junk)"
  by (simp add: lm_inv_def lm_init_def)

lemma set_busy_simps [simp]:
  "active (set_busy b i cs) = active cs"
  "length (connections (set_busy b i cs)) = length (connections cs)"
  by (simp_all add: set_busy_def)

lemma conns_ok_set_busy: "conns_ok cs \<Longrightarrow> conns_ok (set_busy b i cs)"
  by (cases "i < length (connections cs)") (auto simp: conns_ok_def set_busy_def conn_ok_def nth_list_update)

lemma busy_set_busy:
  "i < length (connections cs) \<Longrightarrow> conn_busy (connections (set_busy b j cs) ! i) = (if i = j then b else conn_busy (connections cs ! i))"
  by (simp add: set_busy_def nth_list_update)

text \<open>What a successful insertion does, through the contract of the array of slots.\<close>

lemma insert_Some:
  assumes "SessionConnections_insert h cs = (Some i, cs')" and "conns_ok cs"
  shows "i < MAX_CONNECTIONS" and "\<not> active cs ! i" and "active cs' = (active cs)[i := True]"
    and "\<forall>j. j \<noteq> i \<longrightarrow> connections cs' ! j = connections cs ! j" and "conns_ok cs'"
proof -
  obtain act where c: "claim_active () (active cs) = Some (i, act)"
    and cs': "cs' = cs\<lparr>active := act, connections := (connections cs)[i :=
             Connection_assign (connections cs ! i) (Connection_session h SESSION_CONN (int i))]\<rparr>"
    using assms(1) by (auto simp: SessionConnections_insert_def split: option.splits)
  note s = act.claim_Some [OF c]
  show i: "i < MAX_CONNECTIONS" using s(1) assms(2) by (simp add: conns_ok_def)
  show "\<not> active cs ! i" "active cs' = (active cs)[i := True]" using s(2,3) cs' by simp_all
  show "\<forall>j. j \<noteq> i \<longrightarrow> connections cs' ! j = connections cs ! j" using cs' by simp
  show "conns_ok cs'"
    using assms(2) cs' s(3) i
    by (auto simp: conns_ok_def conn_ok_def Connection_assign_def Connection_session_def nth_list_update)
qed

lemma conns_ok_release: "i < MAX_CONNECTIONS \<Longrightarrow> conns_ok cs \<Longrightarrow> conns_ok (SessionConnections_release i cs)"
  by (auto simp: conns_ok_def SessionConnections_release_def nth_list_update)

lemma lm_release_active:
  assumes "conns_ok (lm_conns s)" and "i < MAX_CONNECTIONS" and "active (lm_conns s) ! i"
  shows "lm_release i s = s\<lparr>lm_conns := SessionConnections_release i (lm_conns s), lm_polled := lm_polled s - {i}\<rparr>"
  using assms by (auto simp: lm_release_def conns_ok_def conn_ok_def Let_def)

text \<open>Each step keeps the invariant.\<close>

lemma accept_inv:
  assumes "lm_inv s" and "lm_accept ctl_ok h s = Some s'" and "lm_setting s = None"
  shows "lm_inv s'"
proof -
  obtain i cs where ins: "SessionConnections_insert h (lm_conns s) = (Some i, cs)"
    and s': "s' = s\<lparr>lm_conns := cs, lm_polled := (if ctl_ok then insert i (lm_polled s) else lm_polled s)\<rparr>"
    using assms(2) by (auto simp: lm_accept_def split: prod.splits option.splits)
  have ok: "conns_ok (lm_conns s)" using assms(1) by (simp add: lm_inv_def)
  note c = insert_Some [OF ins ok]
  have len: "length (active (lm_conns s)) = MAX_CONNECTIONS" using ok by (simp add: conns_ok_def)
  have "i \<notin> fst ` set (lm_tasks s)" using assms(1) c(2) by (auto simp: lm_inv_def task_ok_def)
  then have "task_ok s' j" if "j \<in> fst ` set (lm_tasks s)" for j
  proof -
    have "j \<noteq> i" "task_ok s j" using that \<open>i \<notin> _\<close> assms(1) by (auto simp: lm_inv_def)
    then show ?thesis using c(3,4) s' by (simp add: task_ok_def)
  qed
  moreover have "active cs ! j" if "j = i \<or> active (lm_conns s) ! j" for j
    using that c(1,3) len by (auto simp: nth_list_update)
  ultimately show ?thesis
    using assms(1,3) c(1,5) s' by (auto simp: lm_inv_def)
qed

lemma activity_inv:
  assumes "lm_inv s" and "i \<in> lm_polled s" and "lm_setting s = None"
  shows "lm_inv (lm_activity i recv_data msg s)"
proof (cases "conn_busy (connections (lm_conns s) ! i)")
  case False
  have ok: "conns_ok (lm_conns s)" "i < MAX_CONNECTIONS" "active (lm_conns s) ! i" using assms by (auto simp: lm_inv_def)
  have no: "i \<notin> fst ` set (lm_tasks s)" using assms(1,3) False by (auto simp: lm_inv_def task_ok_def)
  show ?thesis
  proof (cases "recv_data = 0 \<or> recv_data = -1")
    case True
    let ?s = "s\<lparr>lm_conns := SessionConnections_release i (lm_conns s), lm_polled := lm_polled s - {i}\<rparr>"
    have "task_ok ?s j" if "j \<in> fst ` set (lm_tasks s)" for j
      proof -
      have "j \<noteq> i" "task_ok s j" using that no assms(1) by (auto simp: lm_inv_def)
      then show ?thesis by (simp add: task_ok_def SessionConnections_release_def)
    qed
    moreover have "active (lm_conns ?s) ! j" if "j \<in> lm_polled ?s" for j
      using that assms(1) by (auto simp: lm_inv_def SessionConnections_release_def)
    ultimately have "lm_inv ?s" using assms(1,3) conns_ok_release [OF ok(2,1)] by (auto simp: lm_inv_def)
    with True False show ?thesis by (simp add: lm_activity_def lm_release_active [OF ok])
  next
    case rd: False
    with False no ok assms show ?thesis
      by (auto simp: lm_activity_def lm_inv_def task_ok_def)
  qed
qed (simp add: lm_activity_def assms(1))

lemma set_flag_inv:
  assumes "lm_inv s" and "lm_setting s = Some i"
  shows "lm_inv (s\<lparr>lm_conns := set_busy True i (lm_conns s), lm_setting := None\<rparr>)"
proof -
  have "length (connections (lm_conns s)) = MAX_CONNECTIONS" using assms(1) by (simp add: lm_inv_def conns_ok_def)
  with assms show ?thesis by (auto simp: lm_inv_def conns_ok_set_busy task_ok_def busy_set_busy)
qed

lemma read_inv:
  assumes "lm_inv s" and "lm_tasks s = xs @ (i, msg) # ys"
  shows "lm_inv (lm_read i msg recv_data bs (s\<lparr>lm_tasks := xs @ ys\<rparr>))"
proof -
  have i: "i \<notin> fst ` set (xs @ ys)" "\<forall>j \<in> fst ` set (xs @ ys). task_ok s j" using assms by (auto simp: lm_inv_def)
  have ok: "conns_ok (lm_conns s)" "distinct (map fst (xs @ ys))" using assms by (auto simp: lm_inv_def)
  have keep: "task_ok (s\<lparr>lm_tasks := xs @ ys, lm_conns := set_busy False i (lm_conns s), lm_running := r\<rparr>) j"
    if "j \<in> fst ` set (xs @ ys)" for j r
  proof -
    have "j \<noteq> i" "task_ok s j" using that i by blast+
    moreover have "length (connections (lm_conns s)) = MAX_CONNECTIONS" using ok(1) by (simp add: conns_ok_def)
    ultimately show ?thesis by (simp add: task_ok_def busy_set_busy)
  qed
  have same: "task_ok (s\<lparr>lm_tasks := xs @ ys\<rparr>) j" "task_ok (s\<lparr>lm_tasks := xs @ ys, lm_memory := m\<rparr>) j"
    if "j \<in> fst ` set (xs @ ys)" for j m
    using that i(2) by (auto simp: task_ok_def)
  show ?thesis
    using assms(1) ok keep same by (auto simp: lm_read_def lm_inv_def conns_ok_set_busy)
qed

lemma lm_step_inv: "lm_step s t \<Longrightarrow> lm_inv s \<Longrightarrow> lm_inv t"
proof (induction rule: lm_step.induct)
  case accept then show ?case using accept_inv by blast
next
  case activity then show ?case using activity_inv by blast
next
  case set_flag then show ?case using set_flag_inv by blast
next
  case read then show ?case using read_inv by blast
qed (simp_all add: lm_inv_def task_ok_def lm_shutdown_def)

interpretation conns: invariant_machine lm_step lm_inv
  by unfold_locales (rule lm_step_inv)

text \<open>The first connection of a fresh server.\<close>

lemma accept_fresh:
  "\<exists>s. lm_accept True h (lm_init junk) = Some s \<and> 0 \<in> lm_polled s \<and> lm_tasks s = [] \<and> lm_setting s = None \<and>
     \<not> lm_stopped s \<and> \<not> conn_busy (connections (lm_conns s) ! 0)"
proof -
  have "find_pos (\<lambda>b. b = False) (replicate 64 False) = 0" by (rule find_posI) simp_all
  then show ?thesis
    by (simp add: lm_accept_def SessionConnections_insert_def claim_active_def lm_init_def Let_def
        SessionConnections_init_def MAX_CONNECTIONS_def Connection_assign_def Connection_session_def)
qed

section \<open>Properties\<close>

text \<open>
  C30: in every state the memory service reaches, whatever the order in which its loop and its
  threads run, at most one task waits to read from a connection, and only from one that is active;
  every active slot holds an open connection of a session that knows its own position, so that an
  end of file releases the right slot.
\<close>

theorem connection_reads_exclusive:
  assumes "reaches lm_step (lm_init junk) s"
  shows "distinct (map fst (lm_tasks s)) \<and>
    (\<forall>(i, msg) \<in> set (lm_tasks s). i < MAX_CONNECTIONS \<and> active (lm_conns s) ! i) \<and>
    (\<forall>i < MAX_CONNECTIONS. active (lm_conns s) ! i \<longrightarrow>
       conn_sock (connections (lm_conns s) ! i) \<noteq> None \<and>
       lm_release i s = s\<lparr>lm_conns := SessionConnections_release i (lm_conns s), lm_polled := lm_polled s - {i}\<rparr>)"
proof -
  have inv: "lm_inv s" using conns.reaches_inv [OF assms lm_inv_init] .
  then have "conns_ok (lm_conns s)" by (simp add: lm_inv_def)
  with inv show ?thesis
    by (auto simp: lm_inv_def task_ok_def lm_release_active conns_ok_def conn_ok_def)
qed

theorem connection_reads_exclusive_witness:
  "\<exists>s. reaches lm_step (lm_init SESSION_CONN) s \<and> lm_tasks s = [(0, [])] \<and> distinct (map fst (lm_tasks s)) \<and>
     active (lm_conns s) ! 0"
proof -
  obtain s1 where a: "lm_accept True 7 (lm_init SESSION_CONN) = Some s1" and s1: "0 \<in> lm_polled s1" "lm_tasks s1 = []"
    "lm_setting s1 = None" "\<not> lm_stopped s1" "\<not> conn_busy (connections (lm_conns s1) ! 0)"
    using accept_fresh [of 7 SESSION_CONN] by blast
  let ?s2 = "lm_activity 0 38 [] s1"
  have "lm_step (lm_init SESSION_CONN) s1" by (rule lm_step.accept [OF _ _ a]) (simp_all add: lm_init_def)
  moreover have "lm_step s1 ?s2" by (rule lm_step.activity) (use s1 in simp_all)
  ultimately have r: "reaches lm_step (lm_init SESSION_CONN) ?s2" by (meson reaches_refl reaches_step)
  have "lm_tasks ?s2 = [(0, [])]" using s1 by (simp add: lm_activity_def)
  with r connection_reads_exclusive [OF r] show ?thesis by (intro exI [of _ ?s2]) auto
qed

text \<open>
  A new connection is given the first inactive slot and no other slot changes; when all 64
  are active, the loop dereferences the null pointer that \<open>insert\<close> returns.
\<close>

lemma accept_first_free_slot:
  assumes "conns_ok (lm_conns s)"
  shows "(lm_accept ctl_ok h s = None \<longleftrightarrow> (\<forall>i < MAX_CONNECTIONS. active (lm_conns s) ! i)) \<and>
   (\<forall>s'. lm_accept ctl_ok h s = Some s' \<longrightarrow>
      (\<exists>i < MAX_CONNECTIONS. \<not> active (lm_conns s) ! i \<and> (\<forall>j<i. active (lm_conns s) ! j) \<and>
         active (lm_conns s') = (active (lm_conns s))[i := True] \<and>
         (\<forall>j. j \<noteq> i \<longrightarrow> connections (lm_conns s') ! j = connections (lm_conns s) ! j)))"
proof (cases "claim_active () (active (lm_conns s))")
  case None
  then show ?thesis
    using act.claim_None_iff [of "()" "active (lm_conns s)"] assms
    by (auto simp: lm_accept_def SessionConnections_insert_def conns_ok_def all_set_conv_all_nth)
next
  case (Some iy)
  obtain i ys where iy: "iy = (i, ys)" by fastforce
  note c = act.claim_Some [OF Some [unfolded iy]]
  have i: "i < MAX_CONNECTIONS" using c(1) assms by (simp add: conns_ok_def)
  have "\<exists>i < MAX_CONNECTIONS. \<not> active (lm_conns s) ! i \<and> (\<forall>j<i. active (lm_conns s) ! j) \<and>
         active (lm_conns s') = (active (lm_conns s))[i := True] \<and>
         (\<forall>j. j \<noteq> i \<longrightarrow> connections (lm_conns s') ! j = connections (lm_conns s) ! j)"
    if "lm_accept ctl_ok h s = Some s'" for s'
    using that c(2-4) Some iy i
    by (intro exI [of _ i]) (auto simp: lm_accept_def SessionConnections_insert_def)
  moreover have "lm_accept ctl_ok h s \<noteq> None"
    using Some iy by (simp add: lm_accept_def SessionConnections_insert_def)
  ultimately show ?thesis using c(2) i by blast
qed

section \<open>A connection that is never served again\<close>

text \<open>The flag is set and no task of the connection is left to clear it.\<close>

definition starved :: "nat \<Rightarrow> lm_server \<Rightarrow> bool" where
  "starved i s \<longleftrightarrow> lm_inv s \<and> i < MAX_CONNECTIONS \<and> active (lm_conns s) ! i \<and>
     conn_busy (connections (lm_conns s) ! i) \<and> i \<notin> fst ` set (lm_tasks s)"

lemma starved_activity:
  assumes "starved i s" and "j \<in> lm_polled s"
  shows "active (lm_conns (lm_activity j n msg s)) ! i \<and>
    conn_busy (connections (lm_conns (lm_activity j n msg s)) ! i) \<and> i \<notin> fst ` set (lm_tasks (lm_activity j n msg s))"
proof (cases "conn_busy (connections (lm_conns s) ! j)")
  case False
  then have "j \<noteq> i" using assms(1) by (auto simp: starved_def)
  moreover have "conns_ok (lm_conns s)" "j < MAX_CONNECTIONS" "active (lm_conns s) ! j"
    using assms by (auto simp: starved_def lm_inv_def)
  note r = lm_release_active [OF this]
  ultimately show ?thesis
    using assms(1) False by (auto simp: lm_activity_def r starved_def SessionConnections_release_def)
qed (use assms(1) in \<open>simp add: lm_activity_def starved_def\<close>)

lemma lm_step_starved:
  assumes "lm_step s t" and "starved i s"
  shows "starved i t"
proof -
  have inv: "lm_inv t" using lm_step_inv [OF assms(1)] assms(2) by (simp add: starved_def)
  have len: "i < length (connections (lm_conns s))"
    using assms(2) by (simp add: starved_def lm_inv_def conns_ok_def)
  from assms have "active (lm_conns t) ! i \<and> conn_busy (connections (lm_conns t) ! i) \<and> i \<notin> fst ` set (lm_tasks t)"
  proof (induction rule: lm_step.induct)
    case (accept s ctl_ok h s')
    then obtain j cs where ins: "SessionConnections_insert h (lm_conns s) = (Some j, cs)"
      and s': "s' = s\<lparr>lm_conns := cs, lm_polled := (if ctl_ok then insert j (lm_polled s) else lm_polled s)\<rparr>"
      by (auto simp: lm_accept_def split: prod.splits option.splits)
    have ok: "conns_ok (lm_conns s)" using accept.prems by (simp add: starved_def lm_inv_def)
    note c = insert_Some [OF ins ok]
    have "j \<noteq> i" using c(2) accept.prems by (auto simp: starved_def)
    with c(3,4) s' accept.prems show ?case by (simp add: starved_def)
  next
    case (activity s j n msg)
    then show ?case using starved_activity by blast
  next
    case (set_flag s j)
    then show ?case by (auto simp: starved_def busy_set_busy lm_inv_def conns_ok_def)
  next
    case (read s xs j msg ys n bs)
    then have "j \<noteq> i" "i \<notin> fst ` set (xs @ ys)" by (auto simp: starved_def image_iff)
    with read show ?case by (auto simp: starved_def lm_read_def busy_set_busy lm_inv_def conns_ok_def)
  qed (simp_all add: starved_def lm_shutdown_def)
  with inv assms(2) show ?thesis by (simp add: starved_def)
qed

interpretation starve: invariant_machine lm_step "starved i" for i
  by unfold_locales (rule lm_step_starved)

text \<open>
  The steps in which every message and every payload is read completely, so that no task ends early; with
  \<open>ordered\<close>, no worker takes the task of a connection before the loop has set the flag of the connection.
\<close>

inductive lm_full_step :: "bool \<Rightarrow> lm_server \<Rightarrow> lm_server \<Rightarrow> bool" for ordered where
  accept: "\<not> lm_stopped s \<Longrightarrow> lm_setting s = None \<Longrightarrow> lm_accept ctl_ok h s = Some s' \<Longrightarrow> lm_full_step ordered s s'"
| activity: "\<not> lm_stopped s \<Longrightarrow> lm_setting s = None \<Longrightarrow> i \<in> lm_polled s \<Longrightarrow>
     recv_data \<in> {0, -1, int mem_BUF_SIZE} \<Longrightarrow> length msg = mem_BUF_SIZE \<Longrightarrow>
     lm_full_step ordered s (lm_activity i recv_data msg s)"
| set_flag: "lm_setting s = Some i \<Longrightarrow>
     lm_full_step ordered s (s\<lparr>lm_conns := set_busy True i (lm_conns s), lm_setting := None\<rparr>)"
| read: "lm_tasks s = xs @ (i, msg) # ys \<Longrightarrow> sint (mem_payload msg) \<le> 0 \<or> recv_data = sint (mem_payload msg) \<Longrightarrow>
     ordered \<longrightarrow> lm_setting s \<noteq> Some i \<Longrightarrow>
     lm_full_step ordered s (lm_read i msg recv_data bs (s\<lparr>lm_tasks := xs @ ys\<rparr>))"
| answer: "lm_running s = xs @ (i, msg, recv_data, bs) # ys \<Longrightarrow>
     handle_session_message junk recv_data bs msg (lm_memory s) = (cleared, m, ans) \<Longrightarrow>
     lm_full_step ordered s (s\<lparr>lm_running := xs @ ys, lm_memory := m\<rparr>)"
| shutdown: "lm_full_step ordered s (lm_shutdown s)"
| leave: "lm_setting s = None \<Longrightarrow> lm_leaves failed einval s \<Longrightarrow> lm_full_step ordered s (s\<lparr>lm_stopped := True\<rparr>)"

lemma full_step_step: "lm_full_step ordered s t \<Longrightarrow> lm_step s t"
  by (induction rule: lm_full_step.induct) (blast intro: lm_step.intros)+

text \<open>A connection that is marked, or about to be marked, has its task waiting.\<close>

definition served :: "lm_server \<Rightarrow> bool" where
  "served s \<longleftrightarrow> lm_inv s \<and> (\<forall>i. lm_setting s = Some i \<longrightarrow> i \<in> fst ` set (lm_tasks s)) \<and>
     (\<forall>i < MAX_CONNECTIONS. active (lm_conns s) ! i \<longrightarrow> conn_busy (connections (lm_conns s) ! i) \<longrightarrow>
        i \<in> fst ` set (lm_tasks s))"

lemma served_accept:
  assumes "served s" and "lm_accept ctl_ok h s = Some s'" and "lm_inv s'"
  shows "served s'"
proof -
  obtain j cs where ins: "SessionConnections_insert h (lm_conns s) = (Some j, cs)"
    and s': "s' = s\<lparr>lm_conns := cs, lm_polled := (if ctl_ok then insert j (lm_polled s) else lm_polled s)\<rparr>"
    using assms(2) by (auto simp: lm_accept_def split: prod.splits option.splits)
  have ok: "conns_ok (lm_conns s)" using assms(1) by (simp add: served_def lm_inv_def)
  note c = insert_Some [OF ins ok]
  have "\<not> conn_busy (connections cs ! j)"
    using ins c(1) ok by (auto simp: SessionConnections_insert_def Connection_assign_def Connection_session_def conns_ok_def
        split: option.splits)
  then have "i \<in> fst ` set (lm_tasks s)"
    if "i < MAX_CONNECTIONS" "active cs ! i" "conn_busy (connections cs ! i)" for i
    using that c(3,4) assms(1) by (cases "i = j") (simp_all add: served_def)
  with assms(1,3) s' show ?thesis by (simp add: served_def)
qed

lemma served_activity:
  assumes "served s" and "j \<in> lm_polled s" and "lm_setting s = None"
  shows "served (lm_activity j n msg s)"
proof (cases "conn_busy (connections (lm_conns s) ! j)")
  case False
  have ok: "conns_ok (lm_conns s)" "j < MAX_CONNECTIONS" "active (lm_conns s) ! j"
    using assms by (auto simp: served_def lm_inv_def)
  have "lm_inv (lm_activity j n msg s)" using activity_inv assms by (simp add: served_def)
  with False assms ok show ?thesis
    by (auto simp: served_def lm_activity_def lm_release_active [OF ok] SessionConnections_release_def nth_list_update
        conns_ok_def split: if_splits)
qed (use assms(1) in \<open>simp add: lm_activity_def\<close>)

lemma served_read:
  assumes "served s" and "lm_tasks s = xs @ (i, msg) # ys" and "lm_setting s \<noteq> Some i"
    and "sint (mem_payload msg) \<le> 0 \<or> n = sint (mem_payload msg)"
  shows "served (lm_read i msg n bs (s\<lparr>lm_tasks := xs @ ys\<rparr>))"
proof -
  have ok: "conns_ok (lm_conns s)" "task_ok s i" using assms(1,2) by (auto simp: served_def lm_inv_def)
  then have "conn_type (connections (lm_conns s) ! i) = SESSION_CONN"
    by (auto simp: task_ok_def conns_ok_def conn_ok_def)
  then have "lm_read i msg n bs (s\<lparr>lm_tasks := xs @ ys\<rparr>) = s\<lparr>lm_tasks := xs @ ys,
      lm_conns := set_busy False i (lm_conns s), lm_running := lm_running s @ [(i, msg, n, bs)]\<rparr>"
    using assms(4) by (auto simp: lm_read_def)
  moreover from this have "lm_inv \<dots>" using read_inv [OF _ assms(2)] assms(1) by (metis served_def)
  moreover have "length (connections (lm_conns s)) = MAX_CONNECTIONS" using ok(1) by (simp add: conns_ok_def)
  ultimately show ?thesis using assms(1-3) by (auto simp: served_def busy_set_busy split: if_splits)
qed

lemma full_step_served: "lm_full_step True s t \<Longrightarrow> served s \<Longrightarrow> served t"
proof -
  assume step: "lm_full_step True s t" and served: "served s"
  have inv: "lm_inv t" using lm_step_inv [OF full_step_step [OF step]] served by (simp add: served_def)
  from step served inv show "served t"
  proof (induction rule: lm_full_step.induct)
    case accept then show ?case using served_accept by blast
  next
    case activity then show ?case using served_activity by blast
  next
    case (set_flag s i)
    then show ?case by (auto simp: served_def busy_set_busy lm_inv_def conns_ok_def split: if_splits)
  next
    case read then show ?case using served_read by blast
  qed (auto simp: served_def lm_shutdown_def)
qed

interpretation ordered: invariant_machine "lm_full_step True" served
  by unfold_locales (rule full_step_served)

text \<open>
  C40: the loop sets the \<open>busy\<close> flag of a connection after it pushed the task that clears it, and this order is
  what starves a connection. Although every message and payload is read completely, the service reaches a state
  from which on the connection stays active and marked as busy and never has a task again: the worker
  cleared the flag before the loop set it. In the runs in which no worker takes a task before the loop
  has set the flag, an active connection that is marked as busy always has its task waiting.
\<close>

theorem busy_flag_race:
  "(\<exists>s. reaches (lm_full_step False) (lm_init junk) s \<and>
     (\<forall>t. reaches lm_step s t \<longrightarrow> active (lm_conns t) ! 0 \<and> conn_busy (connections (lm_conns t) ! 0) \<and>
        0 \<notin> fst ` set (lm_tasks t))) \<and>
   (\<forall>s i. reaches (lm_full_step True) (lm_init junk) s \<longrightarrow> i < MAX_CONNECTIONS \<longrightarrow> active (lm_conns s) ! i \<longrightarrow>
      conn_busy (connections (lm_conns s) ! i) \<longrightarrow> i \<in> fst ` set (lm_tasks s))"
proof
  let ?msg = "mem_encode (GET, ''/o'', 0)"
  obtain s1 where a: "lm_accept True 7 (lm_init junk) = Some s1" and s1: "0 \<in> lm_polled s1" "lm_tasks s1 = []"
    "lm_setting s1 = None" "\<not> lm_stopped s1" "\<not> conn_busy (connections (lm_conns s1) ! 0)"
    using accept_fresh [of 7 junk] by blast
  let ?s2 = "s1\<lparr>lm_tasks := [(0, ?msg)], lm_setting := Some 0\<rparr>"
  let ?s3 = "lm_read 0 ?msg 0 [] (?s2\<lparr>lm_tasks := [] @ []\<rparr>)"
  let ?s4 = "?s3\<lparr>lm_conns := set_busy True 0 (lm_conns ?s3), lm_setting := None\<rparr>"
  have msg: "length ?msg = mem_BUF_SIZE" "mem_payload ?msg = 0"
    by (simp_all add: mem_send_fields mem_BUF_SIZE_def)
  have s2: "?s2 = lm_activity 0 38 ?msg s1" using s1 by (simp add: lm_activity_def del: mem_encode.simps)
  have 1: "lm_full_step False (lm_init junk) s1" by (rule lm_full_step.accept [OF _ _ a]) (simp_all add: lm_init_def)
  have 2: "lm_full_step False s1 ?s2"
    unfolding s2 by (rule lm_full_step.activity) (use s1 msg(1) in \<open>simp_all add: mem_BUF_SIZE_def del: mem_encode.simps\<close>)
  have 3: "lm_full_step False ?s2 ?s3"
    by (rule lm_full_step.read) (use msg(2) in \<open>simp_all del: mem_encode.simps\<close>)
  have 4: "lm_full_step False ?s3 ?s4" by (rule lm_full_step.set_flag) (simp add: lm_read_def del: mem_encode.simps)
  have r: "reaches (lm_full_step False) (lm_init junk) ?s4" using 1 2 3 4 by (meson reaches_refl reaches_step)
  have inv: "lm_inv s1" "lm_inv ?s4"
    using lm_step_inv [OF full_step_step [OF 1] lm_inv_init] lm_step_inv full_step_step 2 3 4 by blast+
  then have "active (lm_conns s1) ! 0" "0 < length (connections (lm_conns s1))" "0 < MAX_CONNECTIONS"
    using s1(1) by (auto simp: lm_inv_def conns_ok_def MAX_CONNECTIONS_def)
  then have "starved 0 ?s4"
    using inv(2) by (simp add: starved_def busy_set_busy lm_read_def del: mem_encode.simps)
  with r show "\<exists>s. reaches (lm_full_step False) (lm_init junk) s \<and>
     (\<forall>t. reaches lm_step s t \<longrightarrow> active (lm_conns t) ! 0 \<and> conn_busy (connections (lm_conns t) ! 0) \<and>
        0 \<notin> fst ` set (lm_tasks t))"
    using starve.reaches_inv [of ?s4 _ 0] by (intro exI [of _ ?s4]) (auto simp: starved_def)
next
  have "served (lm_init junk)" using lm_inv_init by (simp add: served_def lm_init_def SessionConnections_init_def)
  then have "served s" if "reaches (lm_full_step True) (lm_init junk) s" for s using ordered.reaches_inv that by blast
  then show "\<forall>s i. reaches (lm_full_step True) (lm_init junk) s \<longrightarrow> i < MAX_CONNECTIONS \<longrightarrow> active (lm_conns s) ! i \<longrightarrow>
      conn_busy (connections (lm_conns s) ! i) \<longrightarrow> i \<in> fst ` set (lm_tasks s)" by (simp add: served_def)
qed

text \<open>A run in which the loop sets the flag in time: the connection is marked and its task waits.\<close>

theorem busy_flag_race_witness:
  "(\<exists>s. reaches (lm_full_step False) (lm_init SESSION_CONN) s \<and> active (lm_conns s) ! 0 \<and> 0 \<notin> fst ` set (lm_tasks s)) \<and>
   (\<exists>s. reaches (lm_full_step True) (lm_init SESSION_CONN) s \<and> conn_busy (connections (lm_conns s) ! 0) \<and>
      0 \<in> fst ` set (lm_tasks s))"
proof
  show "\<exists>s. reaches (lm_full_step False) (lm_init SESSION_CONN) s \<and> active (lm_conns s) ! 0 \<and> 0 \<notin> fst ` set (lm_tasks s)"
    using conjunct1 [OF busy_flag_race [of SESSION_CONN]] reaches_refl by metis
  let ?msg = "replicate 38 0 :: bytes"
  obtain s1 where a: "lm_accept True 7 (lm_init SESSION_CONN) = Some s1" and s1: "0 \<in> lm_polled s1" "lm_tasks s1 = []"
    "lm_setting s1 = None" "\<not> lm_stopped s1" "\<not> conn_busy (connections (lm_conns s1) ! 0)"
    using accept_fresh [of 7 SESSION_CONN] by blast
  let ?s2 = "lm_activity 0 38 ?msg s1"
  let ?s3 = "?s2\<lparr>lm_conns := set_busy True 0 (lm_conns ?s2), lm_setting := None\<rparr>"
  have 1: "lm_full_step True (lm_init SESSION_CONN) s1"
    by (rule lm_full_step.accept [OF _ _ a]) (simp_all add: lm_init_def)
  have 2: "lm_full_step True s1 ?s2"
    by (rule lm_full_step.activity) (use s1 in \<open>simp_all add: mem_BUF_SIZE_def\<close>)
  have 3: "lm_full_step True ?s2 ?s3" by (rule lm_full_step.set_flag) (use s1 in \<open>simp add: lm_activity_def\<close>)
  have r: "reaches (lm_full_step True) (lm_init SESSION_CONN) ?s3" using 1 2 3 by (meson reaches_refl reaches_step)
  have "lm_inv s1" using lm_step_inv [OF full_step_step [OF 1] lm_inv_init] .
  then have "active (lm_conns ?s3) ! 0" "conn_busy (connections (lm_conns ?s3) ! 0)" "0 < MAX_CONNECTIONS"
    using s1 by (auto simp: lm_inv_def conns_ok_def lm_activity_def busy_set_busy MAX_CONNECTIONS_def)
  with r conjunct2 [OF busy_flag_race [of SESSION_CONN]]
  show "\<exists>s. reaches (lm_full_step True) (lm_init SESSION_CONN) s \<and> conn_busy (connections (lm_conns s) ! 0) \<and>
      0 \<in> fst ` set (lm_tasks s)" by blast
qed

text \<open>
  A peer's connection forgets its identifier when it is moved into the table, so that releasing it
  by that identifier leaves it there.
\<close>

lemma peer_never_released:
  "i \<noteq> '''' \<Longrightarrow> cs i = None \<Longrightarrow>
     P2PConnections_release (conn_id (the (P2PConnections_insert junk i h cs i))) (P2PConnections_insert junk i h cs) i =
       P2PConnections_insert junk i h cs i"
  by (simp add: P2PConnections_release_def P2PConnections_insert_def Connection_assign_def Connection_default_def)

end
