(* ===== verification/Startup.thy ===== *)
theory Startup
  imports Session_Memory Worker_Servers Control_Server Memory_Server "HOL-Library.Monad_Syntax"
begin

text \<open>
  How the programs start: the options each declares (\<open>session_opts.cpp\<close>, \<open>process/opts.cpp\<close>,
  \<open>local-memory/opts.cpp\<close>, \<open>control-plane/opts.cpp\<close>, \<open>local-worker/opts.cpp\<close>,
  \<open>praas-serving/opts.cpp\<close>) and the parts of their \<open>main\<close> functions that use them. The option
  parser is the library cxxopts; it is a parameter, and what the programs rely on of its documented
  behaviour is the predicate \<open>cxxopts_ok\<close>.
\<close>

section \<open>The option parser\<close>

text \<open>
  One declared option: its long name, its short name, whether its value is a \<open>bool\<close>, and its
  default. An option whose value is a \<open>bool\<close> has the implicit value \<open>true\<close>.
\<close>

record option_spec =
  opt_long :: string
  opt_short :: "char option"
  opt_bool :: bool
  opt_default :: "string option"

text \<open>
  The parser gives every option the text of its value, or throws; the conversions of \<open>as<int>\<close> and
  \<open>as<bool>\<close> throw on a text that is no number or truth value.
\<close>

record cxxopts =
  cx_parse :: "option_spec list \<Rightarrow> string list \<Rightarrow> (string \<rightharpoonup> string) option"
  cx_int :: "string \<Rightarrow> i32 option"
  cx_bool :: "string \<Rightarrow> bool option"

text \<open>
  The shapes of arguments that the programs pass to each other: an option followed by its value,
  a switch by its long or short name, and an argument that belongs to no option.
\<close>

datatype argument = Valued string string | Switch string | Short char | Stray string

fun render :: "argument \<Rightarrow> string list" where
  "render (Valued n t) = [''--'' @ n, t]"
| "render (Switch n) = [''--'' @ n]"
| "render (Short ch) = [[CHR ''-'', ch]]"
| "render (Stray t) = [t]"

definition plain_arg :: "string \<Rightarrow> bool" where
  "plain_arg t \<longleftrightarrow> t \<noteq> '''' \<and> hd t \<noteq> CHR ''-''"

definition long_of :: "option_spec list \<Rightarrow> char \<Rightarrow> string option" where
  "long_of specs ch = map_option opt_long (find (\<lambda>s. opt_short s = Some ch \<and> opt_bool s) specs)"

text \<open>
  The names the parser recognises: a long name has at least two letters, digits, dashes or
  underscores, the first a letter or digit, and a short name is one letter or digit.
\<close>

definition alnum :: "char \<Rightarrow> bool" where
  "alnum ch \<longleftrightarrow> (let k = of_char ch :: nat in 48 \<le> k \<and> k \<le> 57 \<or> 65 \<le> k \<and> k \<le> 90 \<or> 97 \<le> k \<and> k \<le> 122)"

definition long_name :: "string \<Rightarrow> bool" where
  "long_name n \<longleftrightarrow> 2 \<le> length n \<and> alnum (hd n) \<and> list_all (\<lambda>ch. alnum ch \<or> ch = CHR ''-'' \<or> ch = CHR ''_'') n"

fun argument_ok :: "option_spec list \<Rightarrow> argument \<Rightarrow> bool" where
  "argument_ok specs (Valued n t) \<longleftrightarrow> long_name n \<and> (\<exists>s \<in> set specs. opt_long s = n \<and> \<not> opt_bool s) \<and> plain_arg t"
| "argument_ok specs (Switch n) \<longleftrightarrow> long_name n \<and> (\<exists>s \<in> set specs. opt_long s = n \<and> opt_bool s)"
| "argument_ok specs (Short ch) \<longleftrightarrow> alnum ch \<and> long_of specs ch \<noteq> None"
| "argument_ok specs (Stray t) \<longleftrightarrow> plain_arg t"

fun set_option :: "option_spec list \<Rightarrow> (string \<rightharpoonup> string) \<Rightarrow> argument \<Rightarrow> (string \<rightharpoonup> string)" where
  "set_option specs m (Valued n t) = m(n \<mapsto> t)"
| "set_option specs m (Switch n) = m(n \<mapsto> ''true'')"
| "set_option specs m (Short ch) = (case long_of specs ch of None \<Rightarrow> m | Some n \<Rightarrow> m(n \<mapsto> ''true''))"
| "set_option specs m (Stray t) = m"

definition option_defaults :: "option_spec list \<Rightarrow> (string \<rightharpoonup> string)" where
  "option_defaults specs = (\<lambda>n. Option.bind (find (\<lambda>s. opt_long s = n) specs) opt_default)"

text \<open>
  The documented behaviour: every option takes the argument after it as its value, except that a
  switch has its implicit value and takes none; the last value counts; an argument that belongs to
  no option is left over; an option that is not given has its default.
\<close>

definition cxxopts_ok :: "cxxopts \<Rightarrow> bool" where
  "cxxopts_ok cx \<longleftrightarrow>
     (\<forall>specs prog args. distinct (map opt_long specs) \<longrightarrow> list_all (argument_ok specs) args \<longrightarrow>
        cx_parse cx specs (prog # concat (map render args)) =
          Some (foldl (set_option specs) (option_defaults specs) args)) \<and>
     (\<forall>w. cx_int cx (to_string32 w) = Some w) \<and>
     cx_bool cx ''true'' = Some True \<and> cx_bool cx ''false'' = Some False"

section \<open>Options of the programs\<close>

definition text_option :: "string \<Rightarrow> char option \<Rightarrow> string option \<Rightarrow> option_spec" where
  "text_option n sh d = \<lparr>opt_long = n, opt_short = sh, opt_bool = False, opt_default = d\<rparr>"

definition switch_option :: "string \<Rightarrow> char option \<Rightarrow> string \<Rightarrow> option_spec" where
  "switch_option n sh d = \<lparr>opt_long = n, opt_short = sh, opt_bool = True, opt_default = Some d\<rparr>"

definition session_specs :: "option_spec list" where
  "session_specs =
     [text_option ''control-plane-addr'' None None, text_option ''hole-puncher-addr'' None None,
      text_option ''session-id'' None None, text_option ''shared-memory-size'' None None,
      text_option ''max-functions'' None None, switch_option ''verbose'' (Some (CHR ''v'')) ''false'']"

record session_options =
  so_ip_address :: string
  so_hole_puncher :: string
  so_session_id :: string
  so_shared_memory_size :: i32
  so_max_functions :: i32
  so_verbose :: bool

definition session_opts :: "cxxopts \<Rightarrow> string list \<Rightarrow> session_options option" where
  "session_opts cx argv = do {
     m \<leftarrow> cx_parse cx session_specs argv;
     ip \<leftarrow> m ''control-plane-addr'';
     hp \<leftarrow> m ''hole-puncher-addr'';
     sid \<leftarrow> m ''session-id'';
     sz \<leftarrow> Option.bind (m ''shared-memory-size'') (cx_int cx);
     mf \<leftarrow> Option.bind (m ''max-functions'') (cx_int cx);
     v \<leftarrow> Option.bind (m ''verbose'') (cx_bool cx);
     Some \<lparr>so_ip_address = ip, so_hole_puncher = hp, so_session_id = sid, so_shared_memory_size = sz,
           so_max_functions = mf, so_verbose = v\<rparr>
   }"

definition process_specs :: "option_spec list" where
  "process_specs =
     [text_option ''process-id'' None None, text_option ''control-plane-address'' None None,
      text_option ''hole-puncher-address'' None None, text_option ''max-sessions'' None (Some ''1''),
      switch_option ''enable-swapping'' None ''true'', switch_option ''verbose'' (Some (CHR ''v'')) ''false'']"

record process_options =
  po_control_plane_address :: string
  po_hole_puncher :: string
  po_process_id :: string
  po_max_sessions :: i32
  po_enable_swapping :: bool
  po_verbose :: bool

definition process_opts :: "cxxopts \<Rightarrow> string list \<Rightarrow> process_options option" where
  "process_opts cx argv = do {
     m \<leftarrow> cx_parse cx process_specs argv;
     pid \<leftarrow> m ''process-id'';
     addr \<leftarrow> m ''control-plane-address'';
     hp \<leftarrow> m ''hole-puncher-address'';
     n \<leftarrow> Option.bind (m ''max-sessions'') (cx_int cx);
     sw \<leftarrow> Option.bind (m ''enable-swapping'') (cx_bool cx);
     v \<leftarrow> Option.bind (m ''verbose'') (cx_bool cx);
     Some \<lparr>po_control_plane_address = addr, po_hole_puncher = hp, po_process_id = pid, po_max_sessions = n,
           po_enable_swapping = sw, po_verbose = v\<rparr>
   }"

definition local_memory_specs :: "option_spec list" where
  "local_memory_specs =
     [text_option ''global-memory-addr'' None None, text_option ''hole-puncher-addr'' None None,
      text_option ''port'' None (Some ''7000''), text_option ''threads'' None (Some ''1''),
      switch_option ''verbose'' (Some (CHR ''v'')) ''false'']"

record local_memory_options =
  mo_gm_ip_address :: string
  mo_hole_puncher :: string
  mo_port :: i32
  mo_threads :: i32
  mo_verbose :: bool

definition local_memory_opts :: "cxxopts \<Rightarrow> string list \<Rightarrow> local_memory_options option" where
  "local_memory_opts cx argv = do {
     m \<leftarrow> cx_parse cx local_memory_specs argv;
     gm \<leftarrow> m ''global-memory-addr'';
     hp \<leftarrow> m ''hole-puncher-addr'';
     port \<leftarrow> Option.bind (m ''port'') (cx_int cx);
     t \<leftarrow> Option.bind (m ''threads'') (cx_int cx);
     v \<leftarrow> Option.bind (m ''verbose'') (cx_bool cx);
     Some \<lparr>mo_gm_ip_address = gm, mo_hole_puncher = hp, mo_port = port, mo_threads = t, mo_verbose = v\<rparr>
   }"

definition worker_specs :: "option_spec list" where
  "worker_specs =
     [text_option ''hole-puncher-addr'' None None, text_option ''port'' (Some (CHR ''p'')) (Some ''8080''),
      text_option ''processes'' None (Some ''1''), switch_option ''verbose'' (Some (CHR ''v'')) ''false'',
      switch_option ''enable-session-swapping'' None ''true'']"

record worker_options =
  wo_hole_puncher :: string
  wo_processes :: i32
  wo_port :: i32
  wo_verbose :: bool
  wo_enable_swapping :: bool

definition worker_opts :: "cxxopts \<Rightarrow> string list \<Rightarrow> worker_options option" where
  "worker_opts cx argv = do {
     m \<leftarrow> cx_parse cx worker_specs argv;
     port \<leftarrow> Option.bind (m ''port'') (cx_int cx);
     n \<leftarrow> Option.bind (m ''processes'') (cx_int cx);
     v \<leftarrow> Option.bind (m ''verbose'') (cx_bool cx);
     sw \<leftarrow> Option.bind (m ''enable-session-swapping'') (cx_bool cx);
     hp \<leftarrow> m ''hole-puncher-addr'';
     Some \<lparr>wo_hole_puncher = hp, wo_processes = n, wo_port = port, wo_verbose = v, wo_enable_swapping = sw\<rparr>
   }"

definition serving_specs :: "option_spec list" where
  "serving_specs = worker_specs @ [switch_option ''use-docker'' None ''true'']"

record serving_options = worker_options +
  wo_use_docker :: bool

definition serving_opts :: "cxxopts \<Rightarrow> string list \<Rightarrow> serving_options option" where
  "serving_opts cx argv = do {
     m \<leftarrow> cx_parse cx serving_specs argv;
     port \<leftarrow> Option.bind (m ''port'') (cx_int cx);
     n \<leftarrow> Option.bind (m ''processes'') (cx_int cx);
     v \<leftarrow> Option.bind (m ''verbose'') (cx_bool cx);
     sw \<leftarrow> Option.bind (m ''enable-session-swapping'') (cx_bool cx);
     d \<leftarrow> Option.bind (m ''use-docker'') (cx_bool cx);
     hp \<leftarrow> m ''hole-puncher-addr'';
     Some \<lparr>wo_hole_puncher = hp, wo_processes = n, wo_port = port, wo_verbose = v, wo_enable_swapping = sw,
           wo_use_docker = d\<rparr>
   }"

definition control_specs :: "option_spec list" where
  "control_specs =
     [text_option ''address'' (Some (CHR ''a'')) None, text_option ''port'' (Some (CHR ''p'')) (Some ''8080''),
      text_option ''redis'' (Some (CHR ''r'')) None, text_option ''threads'' (Some (CHR ''t'')) (Some ''1''),
      text_option ''backend'' None None, text_option ''local-server'' None None,
      text_option ''read-timeout'' None (Some ''1000''), text_option ''https-port'' None (Some ''8050''),
      text_option ''ssl-server-cert'' None None, text_option ''ssl-server-key'' None None,
      switch_option ''verbose'' (Some (CHR ''v'')) ''false'']"

record control_options =
  co_redis_addr :: string
  co_threads :: i32
  co_ip_address :: string
  co_port :: i32
  co_read_timeout :: i32
  co_backend :: FunctionBackendType
  co_local_server :: string
  co_verbose :: bool
  co_https_port :: i32
  co_ssl_cert :: string
  co_ssl_key :: string

text \<open>The options of the control plane; a backend that is none of the two ends the program.\<close>

datatype 'a opts_result = Parsed 'a | Option_Exception | Exit nat

definition control_opts :: "cxxopts \<Rightarrow> string list \<Rightarrow> control_options opts_result" where
  "control_opts cx argv =
     (case do {
        m \<leftarrow> cx_parse cx control_specs argv;
        ip \<leftarrow> m ''address'';
        port \<leftarrow> Option.bind (m ''port'') (cx_int cx);
        t \<leftarrow> Option.bind (m ''threads'') (cx_int cx);
        r \<leftarrow> m ''redis'';
        https \<leftarrow> Option.bind (m ''https-port'') (cx_int cx);
        cert \<leftarrow> m ''ssl-server-cert'';
        key \<leftarrow> m ''ssl-server-key'';
        v \<leftarrow> Option.bind (m ''verbose'') (cx_bool cx);
        timeout \<leftarrow> Option.bind (m ''read-timeout'') (cx_int cx);
        b \<leftarrow> m ''backend'';
        Some (m, b, \<lparr>co_redis_addr = r, co_threads = t, co_ip_address = ip, co_port = port, co_read_timeout = timeout,
           co_backend = LOCAL, co_local_server = '''', co_verbose = v, co_https_port = https, co_ssl_cert = cert,
           co_ssl_key = key\<rparr>)
      } of
        None \<Rightarrow> Option_Exception
      | Some (m, b, res) \<Rightarrow>
          if b = ''local'' then
            (case m ''local-server'' of None \<Rightarrow> Option_Exception
             | Some l \<Rightarrow> Parsed (res\<lparr>co_backend := LOCAL, co_local_server := l\<rparr>))
          else if b = ''aws'' then Parsed (res\<lparr>co_backend := AWS\<rparr>)
          else Exit 1)"

section \<open>Main functions\<close>

text \<open>\<open>main\<close> of the session executable; \<open>None\<close> when an exception ends it before it starts.\<close>

definition session_main ::
  "cxxopts \<Rightarrow> FunctionsLibrary \<Rightarrow> shm_env \<Rightarrow> (string \<Rightarrow> i32 \<Rightarrow> bool) \<Rightarrow> i32 \<Rightarrow> recv_in \<Rightarrow> recv_in list \<Rightarrow> string list \<Rightarrow> os \<Rightarrow>
     (RSession \<times> os \<times> bytes list \<times> bytes list) option" where
  "session_main cx lib env connect junk first rs argv os =
     map_option (\<lambda>opts. Session_start env connect junk (so_ip_address opts) first rs
         (RSession_init lib (so_session_id opts) (so_max_functions opts) (so_shared_memory_size opts)) os)
       (session_opts cx argv)"

text \<open>
  \<open>main\<close> of \<open>process_exec\<close> up to \<open>start\<close>: the first \<open>None\<close> is an exception of the option parser,
  the second the exit code 1. The limit is narrowed to 16 bits by the call of \<open>create\<close>.
\<close>

definition process_exec ::
  "cxxopts \<Rightarrow> i32 \<Rightarrow> string option \<Rightarrow> (string \<Rightarrow> i32 \<Rightarrow> bool) \<Rightarrow> string list \<Rightarrow> Process option option" where
  "process_exec cx junk bucket_env connect argv =
     map_option (\<lambda>opts. process_exec_main junk bucket_env connect (po_process_id opts) (po_control_plane_address opts)
         (po_hole_puncher opts) (ucast (po_max_sessions opts)) (po_enable_swapping opts))
       (process_opts cx argv)"

text \<open>
  \<open>main\<close> of the two workers, up to \<open>start\<close>. The array of processes cannot be allocated for a
  negative number.
\<close>

definition local_worker_main :: "cxxopts \<Rightarrow> string list \<Rightarrow> local_worker option" where
  "local_worker_main cx argv = do {
     opts \<leftarrow> worker_opts cx argv;
     if sint (wo_processes opts) < 0 then None
     else Some (local_worker_init (nat (sint (wo_processes opts))) (wo_hole_puncher opts) (wo_enable_swapping opts))
   }"

definition serving_main :: "cxxopts \<Rightarrow> string list \<Rightarrow> serving_worker option" where
  "serving_main cx argv = do {
     opts \<leftarrow> serving_opts cx argv;
     if sint (wo_processes opts) < 0 then None
     else Some (serving_init (nat (sint (wo_processes opts))) (wo_hole_puncher opts) (wo_enable_swapping opts)
                 (wo_use_docker opts))
   }"

text \<open>
  \<open>main\<close> of the control plane, up to \<open>start\<close>: the constructor of the server constructs the backend
  and gives it the address and port of the control plane.
\<close>

definition control_main ::
  "cxxopts \<Rightarrow> (string \<Rightarrow> i32 \<Rightarrow> socket) \<Rightarrow> i32 \<Rightarrow> 'r \<Rightarrow> string list \<Rightarrow> 'r server opts_result" where
  "control_main cx connect junk rs argv =
     (case control_opts cx argv of
        Parsed opts \<Rightarrow> Parsed (server_init rs (Backend_construct connect junk (co_backend opts) (co_local_server opts)
          (co_ip_address opts) (co_port opts)))
      | Option_Exception \<Rightarrow> Option_Exception
      | Exit n \<Rightarrow> Exit n)"

text \<open>\<open>main\<close> of the local memory service: the server, then its set-up.\<close>

definition local_memory_main ::
  "cxxopts \<Rightarrow> ConnType \<Rightarrow> bool \<Rightarrow> bool \<Rightarrow> bool \<Rightarrow> string list \<Rightarrow> lm_server option" where
  "local_memory_main cx junk listening epoll_ok add_ok argv =
     map_option (\<lambda>opts. lm_start listening epoll_ok add_ok (lm_init junk)) (local_memory_opts cx argv)"

section \<open>Lemmas\<close>

lemmas specs_defs = session_specs_def process_specs_def local_memory_specs_def worker_specs_def serving_specs_def
  control_specs_def text_option_def switch_option_def

lemma cx_parse_args:
  assumes "cxxopts_ok cx" and "distinct (map opt_long specs)" and "list_all (argument_ok specs) args"
    and "argv = prog # concat (map render args)"
  shows "cx_parse cx specs argv = Some (foldl (set_option specs) (option_defaults specs) args)"
  using assms by (simp add: cxxopts_ok_def)

lemmas names_ok = long_name_def alnum_def

lemma cx_conversions:
  assumes "cxxopts_ok cx"
  shows "cx_int cx (to_string32 w) = Some w" and "cx_bool cx ''true'' = Some True" and "cx_bool cx ''false'' = Some False"
  using assms by (simp_all add: cxxopts_ok_def)

text \<open>A number that is not negative is no option.\<close>

lemma plain_to_string32: "0 \<le> sint w \<Longrightarrow> plain_arg (to_string32 w)"
  by (cases "nat_string (nat (sint w))") (auto simp: plain_arg_def to_string32_def int_string_def dest: nat_string_no_minus)

text \<open>The options a session reads from the command line its process built.\<close>

lemma session_opts_argv:
  assumes "cxxopts_ok cx" and "plain_arg (c_str addr)" and "plain_arg (c_str hp)" and "plain_arg (c_str sid)"
    and "0 \<le> sint n" and "0 \<le> sint mf"
  shows "session_opts cx (session_argv addr hp sid n mf) =
    Some \<lparr>so_ip_address = c_str addr, so_hole_puncher = c_str hp, so_session_id = c_str sid,
      so_shared_memory_size = n, so_max_functions = mf, so_verbose = True\<rparr>"
proof -
  let ?args = "[Valued ''control-plane-addr'' (c_str addr), Valued ''hole-puncher-addr'' (c_str hp),
      Valued ''session-id'' (c_str sid), Valued ''shared-memory-size'' (to_string32 n),
      Valued ''max-functions'' (to_string32 mf), Short (CHR ''v'')]"
  have "cx_parse cx session_specs (session_argv addr hp sid n mf) =
      Some (foldl (set_option session_specs) (option_defaults session_specs) ?args)"
    using assms(2-6)
    by (intro cx_parse_args [OF assms(1), where prog = "''/dev-praas/bin/runtime_session''"])
      (simp_all add: specs_defs session_argv_def long_of_def plain_to_string32 names_ok)
  then show ?thesis
    by (simp add: session_opts_def cx_conversions [OF assms(1)] specs_defs long_of_def)
qed

text \<open>The options \<open>process_exec\<close> reads from the command line of the serving worker.\<close>

lemma process_opts_args:
  assumes "cxxopts_ok cx" and "plain_arg (c_str (ProcessRequest_process_id req))"
    and "plain_arg (subprocess_addr req)" and "plain_arg (c_str hp)" and "0 \<le> sint (ProcessRequest_max_sessions req)"
  shows "process_opts cx (subprocess_args req hp sw) =
    Some \<lparr>po_control_plane_address = subprocess_addr req, po_hole_puncher = c_str hp,
      po_process_id = c_str (ProcessRequest_process_id req),
      po_max_sessions = scast (ProcessRequest_max_sessions req), po_enable_swapping = True, po_verbose = True\<rparr>"
proof -
  let ?n = "scast (ProcessRequest_max_sessions req) :: i32"
  let ?args = "[Valued ''process-id'' (c_str (ProcessRequest_process_id req)),
      Valued ''control-plane-address'' (subprocess_addr req), Valued ''hole-puncher-address'' (c_str hp),
      Valued ''max-sessions'' (to_string32 ?n), Switch ''enable-swapping'',
      Stray (if sw then ''1'' else ''0''), Short (CHR ''v'')]"
  have n: "sint ?n = sint (ProcessRequest_max_sessions req)" by (rule sint_up_scast) (simp add: is_up)
  have "cx_parse cx process_specs (subprocess_args req hp sw) =
      Some (foldl (set_option process_specs) (option_defaults process_specs) ?args)"
    using assms(2-5) n plain_to_string32 [of ?n]
    by (intro cx_parse_args [OF assms(1), where prog = "''/dev-praas/bin/process_exec''"])
      (simp_all add: specs_defs subprocess_args_def long_of_def subprocess_addr_c_str names_ok
        to_string32_def plain_arg_def [of "''1''"] plain_arg_def [of "''0''"])
  then show ?thesis
    by (simp add: process_opts_def cx_conversions [OF assms(1)] specs_defs long_of_def)
qed

lemma Session_start_shm:
  assumes "SharedMemory_open env (s_session_id s) (s_memory_size s) os = (Some m, os')"
    and "split addr (CHR '':'') = (ip, port_str)" and "connect ip (from_chars32 port_str junk)"
  shows "\<exists>t out. Session_start env connect junk addr first rs s os =
    (t, os', [fill_session_identification (s_session_id s) SendMessage_init], out) \<and> s_shm t = m"
proof -
  let ?s = "s\<lparr>s_shm := fst (SharedMemory_assign (s_shm s) m)\<rparr>"
  have id: "s_session_id ?s = s_session_id s" by simp
  obtain go s1 o1 where r: "Session_receive first ?s = (go, s1, o1)" using prod_cases3 by blast
  obtain s2 o2 where l: "session_loop rs s1 = (s2, o2)" by fastforce
  have "s_shm s2 = m"
    using receive_shm [OF r] session_loop_shm [OF l] by (simp add: SharedMemory_assign_def)
  with assms r l show ?thesis by (simp add: Session_start_def Let_def)
qed

section \<open>A concrete option parser\<close>

text \<open>It satisfies the documented behaviour, and the witnesses evaluate it.\<close>

fun scan_args :: "option_spec list \<Rightarrow> string list \<Rightarrow> (string \<rightharpoonup> string) \<Rightarrow> (string \<rightharpoonup> string)" where
  "scan_args specs [] m = m"
| "scan_args specs [a] m =
     (if take 2 a = ''--'' then m(drop 2 a \<mapsto> ''true'')
      else if a \<noteq> '''' \<and> hd a = CHR ''-'' then set_option specs m (Short (a ! 1))
      else m)"
| "scan_args specs (a # b # as) m =
     (if take 2 a = ''--'' then
        (case find (\<lambda>s. opt_long s = drop 2 a \<and> opt_bool s) specs of
           Some s \<Rightarrow> scan_args specs (b # as) (m(drop 2 a \<mapsto> ''true''))
         | None \<Rightarrow> scan_args specs as (m(drop 2 a \<mapsto> b)))
      else if a \<noteq> '''' \<and> hd a = CHR ''-'' then scan_args specs (b # as) (set_option specs m (Short (a ! 1)))
      else scan_args specs (b # as) m)"

definition demo_cxxopts :: cxxopts where
  "demo_cxxopts = \<lparr>cx_parse = (\<lambda>specs argv. Some (scan_args specs (tl argv) (option_defaults specs))),
     cx_int = (\<lambda>s. Some (from_chars32 s 0)),
     cx_bool = (\<lambda>s. if s = ''true'' then Some True else if s = ''false'' then Some False else None)\<rparr>"

lemma alnum_not_minus [simp]: "\<not> alnum (CHR ''-'')"
  by (simp add: alnum_def)

lemma scan_switch:
  assumes "argument_ok specs (Switch n)"
  shows "scan_args specs ((''--'' @ n) # as) m = scan_args specs as (m(n \<mapsto> ''true''))"
proof (cases as)
  case (Cons b bs)
  have "find (\<lambda>s. opt_long s = n \<and> opt_bool s) specs \<noteq> None" using assms by (auto simp: find_None_iff)
  with Cons show ?thesis by auto
qed simp

lemma scan_short:
  "ch \<noteq> CHR ''-'' \<Longrightarrow> scan_args specs ([CHR ''-'', ch] # as) m = scan_args specs as (set_option specs m (Short ch))"
  by (cases as) simp_all

lemma scan_stray:
  assumes "plain_arg t"
  shows "scan_args specs (t # as) m = scan_args specs as m"
proof -
  have "take 2 t \<noteq> ''--''" using assms by (cases t) (auto simp: plain_arg_def numeral_2_eq_2)
  with assms show ?thesis by (cases as) (auto simp: plain_arg_def)
qed

lemma scan_args_render:
  assumes "distinct (map opt_long specs)" and "list_all (argument_ok specs) args"
  shows "scan_args specs (concat (map render args)) m = foldl (set_option specs) m args"
  using assms(2)
proof (induction args arbitrary: m)
  case (Cons arg args)
  then have IH: "scan_args specs (concat (map render args)) m' = foldl (set_option specs) m' args" for m' by simp
  show ?case
  proof (cases arg)
    case (Valued n t)
    with Cons.prems obtain s where s: "s \<in> set specs" "opt_long s = n" "\<not> opt_bool s" by auto
    then have "find (\<lambda>s. opt_long s = n \<and> opt_bool s) specs = None"
      using assms(1) by (auto simp: find_None_iff distinct_map inj_on_def)
    with Valued IH show ?thesis by simp
  next
    case (Switch n)
    with Cons.prems have "argument_ok specs (Switch n)" by simp
    note sw = scan_switch [OF this, of "concat (map render args)" m]
    show ?thesis unfolding Switch using sw IH by simp
  next
    case (Short ch)
    with Cons.prems have "ch \<noteq> CHR ''-''" using alnum_not_minus by auto
    with Short IH show ?thesis by (simp add: scan_short)
  next
    case (Stray t)
    with Cons.prems have "plain_arg t" by simp
    with Stray IH show ?thesis by (simp add: scan_stray)
  qed
qed simp

lemma demo_cxxopts_ok: "cxxopts_ok demo_cxxopts"
  by (simp add: cxxopts_ok_def demo_cxxopts_def scan_args_render from_chars_to_string32)

section \<open>Properties\<close>

text \<open>
  C9: a session works on the memory its process created for it. The process forks a session with
  a memory size of less than \<open>2 ^ 21\<close> KiB and executes the session program; that program reads from its
  command line the identifier and the size in bytes, opens the same shared memory object, maps all of
  it, connects to the control plane at the address the process gave it and identifies itself with
  the identifier of the session.
\<close>

theorem session_opens_its_memory:
  assumes "cxxopts_ok cx"
    and "SessionFork_fork api sw st env pid addr hp s os = (True, s', Some argv, os1)"
    and "\<bar>sint (memory_size s)\<bar> < 2 ^ 21" and "0 \<le> sint (fork_max_functions s)"
    and "id16 (fork_session_id s)" and "plain_arg (fork_session_id s)" and "plain_arg (c_str hp)"
    and "addr = ip @ '':'' @ to_string32 port" and "CHR '':'' \<notin> set ip" and "NUL \<notin> set ip" and "plain_arg ip"
    and "open_ok env2" and "map_ok env2" and "connect ip port"
  shows "\<exists>t os2 ident out a b. session_main cx lib env2 connect junk first rs argv os1 = Some (t, os2, [ident], out) \<and>
    note_decode ident = Some (Identify_Session (fork_session_id s)) \<and>
    sint (shm_size (s_shm t)) = \<bar>sint (memory_size s)\<bar> * 1024 \<and> shm_size (memory s') = shm_size (s_shm t) \<and>
    shm_ptr (s_shm t) = Some a \<and> shm_ptr (memory s') = Some b \<and>
    mappings os2 a = Some (c_str (''/'' @ fork_session_id s)) \<and> mappings os2 b = mappings os2 a"
proof -
  let ?sid = "fork_session_id s" and ?n = "shm_bytes (memory_size s)"
  obtain m where m: "SharedMemory_create api sw st env ?sid (memory_size s) os = (Some m, os1)"
    and s': "memory s' = m" and argv: "argv = session_argv addr hp ?sid (shm_size m) (fork_max_functions s)"
    using assms(2) by (auto simp: SessionFork_fork_def SharedMemory_assign_def split: prod.splits option.splits if_splits)
  note cr = create_Some [OF m]
  obtain b bs where b: "shm_ptr m = Some b" "mappings os1 b = Some (c_str (''/'' @ ?sid))"
    "segments os1 (c_str (''/'' @ ?sid)) = Some bs"
    using cr(4,5) by blast
  have no_NUL: "c_str ?sid = ?sid" "c_str addr = addr"
    using assms(5,8,10) by (simp_all add: id16_def c_str_id to_string32_no is_digit_def)
  have "plain_arg addr" using assms(8,11) by (auto simp: plain_arg_def)
  then have opts: "session_opts cx argv = Some \<lparr>so_ip_address = addr, so_hole_puncher = c_str hp, so_session_id = ?sid,
      so_shared_memory_size = ?n, so_max_functions = fork_max_functions s, so_verbose = True\<rparr>"
    using session_opts_argv [OF assms(1), of addr hp ?sid ?n "fork_max_functions s"] assms(4,6,7) cr(1,2) no_NUL argv
    by simp
  let ?a = "next_map os1"
  let ?m = "\<lparr>shm_size = ?n, fd = new_fd env2, path = ''/'' @ ?sid, shm_ptr = Some ?a, shm_owned = False\<rparr>"
  let ?os2 = "snd (map_segment (c_str (''/'' @ ?sid)) os1)"
  let ?S = "RSession_init lib ?sid (fork_max_functions s) ?n"
  have "SharedMemory_open env2 ?sid ?n os1 = (Some ?m, ?os2)"
    using assms(12,13) b(3) cr(2) by (simp add: SharedMemory_open_def map_segment_def Let_def)
  moreover have "split addr (CHR '':'') = (ip, to_string32 port)" using assms(8,9) split_append by simp
  moreover have init: "s_session_id ?S = ?sid" "s_memory_size ?S = ?n" by (simp_all add: RSession_init_def case_prod_beta)
  ultimately obtain t out where t: "Session_start env2 connect junk addr first rs ?S os1 =
      (t, ?os2, [fill_session_identification ?sid SendMessage_init], out)" "s_shm t = ?m"
    using Session_start_shm [of env2 ?S os1 ?m ?os2 addr ip "to_string32 port" connect junk first rs] assms(14)
    unfolding init from_chars_to_string32 by blast
  have run: "session_main cx lib env2 connect junk first rs argv os1 =
      Some (t, ?os2, [fill_session_identification ?sid SendMessage_init], out)"
    using opts t(1) by (simp add: session_main_def)
  have ident: "note_decode (fill_session_identification ?sid SendMessage_init) = Some (Identify_Session ?sid)"
    using note_decode_encode [of "Identify_Session ?sid"] assms(5) by simp
  have maps: "mappings ?os2 ?a = Some (c_str (''/'' @ ?sid))" "mappings ?os2 b = mappings ?os2 ?a"
    using b(2) by (simp_all add: map_segment_def)
  have sizes: "sint (shm_size (s_shm t)) = \<bar>sint (memory_size s)\<bar> * 1024" "shm_size (memory s') = shm_size (s_shm t)"
    "shm_ptr (s_shm t) = Some ?a" "shm_ptr (memory s') = Some b"
    using t(2) s' b(1) cr(1) sint_shm_bytes [OF assms(3)] by simp_all
  show ?thesis
    by (intro exI [of _ t] exI [of _ ?os2] exI [of _ "fill_session_identification ?sid SendMessage_init"] exI [of _ out]
        exI [of _ ?a] exI [of _ b] conjI run ident maps sizes)
qed

text \<open>
  \<open>process_exec\<close>, started by the serving worker for any 39-byte request with an address
  without a colon, a limit that is not negative and an identifier that is no option, creates the
  process with the identifier and limit of the request and connects it to the address and port of
  the request, which fit the array of 40 characters. It enables swapping whatever the serving
  worker was configured with: the option is a switch, and the 0 or 1 after it is left over.
\<close>

lemma process_exec_parameters:
  assumes "cxxopts_ok cx" and "length req = Request_EXPECTED_LENGTH"
    and "CHR '':'' \<notin> set (ProcessRequest_ip_address req)" and "plain_arg (c_str (ProcessRequest_ip_address req))"
    and "plain_arg (c_str (ProcessRequest_process_id req))" and "plain_arg (c_str hp)"
    and "0 \<le> sint (ProcessRequest_max_sessions req)"
  shows "process_exec cx junk bucket connect (subprocess_args req hp sw) =
      Some (Process_create bucket (connect (c_str (ProcessRequest_ip_address req)) (ProcessRequest_port req))
        (c_str (ProcessRequest_process_id req)) (c_str hp) (ProcessRequest_max_sessions req) True) \<and>
    length (subprocess_addr req) < 40"
proof -
  have "plain_arg (subprocess_addr req)" using assms(4) by (auto simp: plain_arg_def subprocess_addr_def)
  note opts = process_opts_args [OF assms(1,5) this assms(6,7), of sw]
  have "process_exec_address junk (subprocess_addr req) = (c_str (ProcessRequest_ip_address req), ProcessRequest_port req)"
    using subprocess_address [OF assms(2,3), of hp sw junk] by metis
  moreover have "ucast (scast (ProcessRequest_max_sessions req) :: i32) = ProcessRequest_max_sessions req" by simp
  ultimately show ?thesis
    using opts subprocess_address [OF assms(2,3)] by (simp add: process_exec_def process_exec_main_def)
qed

theorem session_opens_its_memory_witness:
  "\<exists>s' argv os1 t r. SessionFork_fork map_s3 S3Swapper_init Map.empty
       \<lparr>open_ok = True, trunc_ok = True, map_ok = True, new_fd = 3\<rparr> 7 (''10.0.0.1'' @ '':'' @ to_string32 8000) ''hp''
       (SessionFork_init ''0123456789abcdef'' 2 64) \<lparr>segments = Map.empty, mappings = Map.empty, next_map = 0\<rparr> =
       (True, s', Some argv, os1) \<and>
     session_main demo_cxxopts demo_lib \<lparr>open_ok = True, trunc_ok = True, map_ok = True, new_fd = 3\<rparr>
       (\<lambda>ip p. p = 8000) 0 demo_recv [] argv os1 = Some (t, r) \<and>
     sint (shm_size (s_shm t)) = 65536"
proof -
  let ?e = "\<lparr>open_ok = True, trunc_ok = True, map_ok = True, new_fd = 3\<rparr>"
  let ?addr = "''10.0.0.1'' @ '':'' @ to_string32 8000"
  let ?s = "SessionFork_init ''0123456789abcdef'' 2 64"
  let ?os = "\<lparr>segments = Map.empty, mappings = Map.empty, next_map = 0\<rparr>"
  obtain s' argv os1 where f: "SessionFork_fork map_s3 S3Swapper_init Map.empty ?e 7 ?addr ''hp'' ?s ?os =
      (True, s', Some argv, os1)"
    by (simp add: SessionFork_fork_def SharedMemory_create_def SessionFork_init_def Let_def resize_segment_def map_segment_def)
  have 1: "\<bar>sint (memory_size ?s)\<bar> < 2 ^ 21" "0 \<le> sint (fork_max_functions ?s)" "id16 (fork_session_id ?s)"
    "plain_arg (fork_session_id ?s)" "plain_arg (c_str ''hp'')"
    by (simp_all add: SessionFork_init_def id16_def plain_arg_def c_str_def)
  have 2: "?addr = ''10.0.0.1'' @ '':'' @ to_string32 8000" "CHR '':'' \<notin> set ''10.0.0.1''"
    "NUL \<notin> set ''10.0.0.1''" "plain_arg ''10.0.0.1''"
    by (simp_all add: plain_arg_def)
  have 3: "open_ok ?e" "map_ok ?e" by simp_all
  have 4: "(\<lambda>ip p. p = 8000) ''10.0.0.1'' (8000 :: i32)" by simp
  from session_opens_its_memory [OF demo_cxxopts_ok f 1 2 3, where connect = "\<lambda>ip p. p = 8000", OF 4,
      of demo_lib 0 demo_recv "[]"] f show ?thesis
    by (fastforce simp: SessionFork_init_def)
qed

end
