(* ===== verification/Service_Loops.thy ===== *)
theory Service_Loops
  imports Session_Runtime Control_Server Worker_Servers
begin

text \<open>
  The service loops of the programs over endless sequences of inputs. In the other theories a loop runs
  over the list of what happened; here it is the \<open>while\<close> loop of the source, which may run for ever, and
  the theorems say exactly when it returns and that its result is the one of the loop over a list.
\<close>

section \<open>Loops that may not end\<close>

text \<open>The loop from the \<open>n\<close>-th input on; \<open>None\<close> when it never returns.\<close>

partial_function (option) serve :: "('i \<Rightarrow> 's \<Rightarrow> 's loop_result) \<Rightarrow> (nat \<Rightarrow> 'i) \<Rightarrow> nat \<Rightarrow> 's \<Rightarrow> 's option" where
  "serve turn inp n s = (case turn (inp n) s of Break t \<Rightarrow> Some t | Continue t \<Rightarrow> serve turn inp (Suc n) t)"

fun loop_list :: "('i \<Rightarrow> 's \<Rightarrow> 's loop_result) \<Rightarrow> 'i list \<Rightarrow> 's \<Rightarrow> 's" where
  "loop_list turn [] s = s"
| "loop_list turn (i # is) s = (case turn i s of Break t \<Rightarrow> t | Continue t \<Rightarrow> loop_list turn is t)"

lemma serve_loop_list:
  assumes "serve turn inp n s = Some r"
  shows "\<exists>k>n. \<forall>m\<ge>k. loop_list turn (map inp [n..<m]) s = r"
proof (rule serve.raw_induct [where P = "\<lambda>turn inp n s r. \<exists>k>n. \<forall>m\<ge>k. loop_list turn (map inp [n..<m]) s = r", OF _ assms])
  fix f :: "('i \<Rightarrow> 's \<Rightarrow> 's loop_result) \<Rightarrow> (nat \<Rightarrow> 'i) \<Rightarrow> nat \<Rightarrow> 's \<Rightarrow> 's option" and turn :: "'i \<Rightarrow> 's \<Rightarrow> 's loop_result"
    and inp n s r
  assume IH: "\<And>turn inp n s r. f turn inp n s = Some r \<Longrightarrow> \<exists>k>n. \<forall>m\<ge>k. loop_list turn (map inp [n..<m]) s = r"
    and eq: "(case turn (inp n) s of Break t \<Rightarrow> Some t | Continue t \<Rightarrow> f turn inp (Suc n) t) = Some r"
  show "\<exists>k>n. \<forall>m\<ge>k. loop_list turn (map inp [n..<m]) s = r"
  proof (cases "turn (inp n) s")
    case (Break t)
    with eq show ?thesis by (intro exI [of _ "Suc n"]) (auto simp: upt_conv_Cons)
  next
    case (Continue t)
    with eq obtain k where "k > Suc n" "\<forall>m\<ge>k. loop_list turn (map inp [Suc n..<m]) t = r" using IH by fastforce
    with Continue show ?thesis by (intro exI [of _ k]) (auto simp: upt_conv_Cons)
  qed
qed

text \<open>
  A loop with a flag: it stops when the flag is set or the input asks for it, and only then; a turn
  that goes on leaves the flag clear.
\<close>

locale service_loop =
  fixes turn :: "'i \<Rightarrow> 's \<Rightarrow> 's loop_result"
    and flag :: "'s \<Rightarrow> bool"
    and final :: "'i \<Rightarrow> bool"
  assumes stops: "flag s \<or> final i \<Longrightarrow> \<exists>t. turn i s = Break t"
    and goes_on: "\<not> flag s \<Longrightarrow> \<not> final i \<Longrightarrow> \<exists>t. turn i s = Continue t \<and> \<not> flag t"
begin

lemma returns:
  assumes "final (inp (n + m))"
  shows "\<exists>t. serve turn inp n s = Some t"
  using assms
proof (induction m arbitrary: n s)
  case 0
  then show ?case using stops [of s "inp n"] by (auto simp: serve.simps [of turn inp n s])
next
  case (Suc m)
  then show ?case
    using Suc.IH [of "Suc n"] by (cases "turn (inp n) s") (auto simp: serve.simps [of turn inp n s])
qed

lemma never_returns:
  assumes "\<And>m. \<not> final (inp m)" and "\<not> flag s"
  shows "serve turn inp n s = None"
proof (rule ccontr)
  assume "serve turn inp n s \<noteq> None"
  then obtain r where r: "serve turn inp n s = Some r" by blast
  have "(\<forall>m. \<not> final (inp m)) \<longrightarrow> flag s"
  proof (rule serve.raw_induct [where P = "\<lambda>tn inp n s r. tn = turn \<longrightarrow> (\<forall>m. \<not> final (inp m)) \<longrightarrow> flag s",
        OF _ r, THEN mp, OF _ refl])
    fix f tn inp n s r
    assume IH: "\<And>tn inp n s r. f tn inp n s = Some r \<Longrightarrow> tn = turn \<longrightarrow> (\<forall>m. \<not> final (inp m)) \<longrightarrow> flag s"
      and eq: "(case tn (inp n) s of Break t \<Rightarrow> Some t | Continue t \<Rightarrow> f tn inp (Suc n) t) = Some r"
    show "tn = turn \<longrightarrow> (\<forall>m. \<not> final (inp m)) \<longrightarrow> flag s"
    proof (intro impI, rule ccontr)
      assume tn: "tn = turn" and n: "\<forall>m. \<not> final (inp m)" and "\<not> flag s"
      then obtain t where "turn (inp n) s = Continue t" "\<not> flag t" using goes_on [of s "inp n"] by blast
      with eq tn IH [of turn inp "Suc n" t r] n show False by simp
    qed
  qed
  with assms show False by blast
qed

lemma returns_iff: "(\<exists>t. serve turn inp 0 s = Some t) \<longleftrightarrow> flag s \<or> (\<exists>n. final (inp n))"
proof
  assume "flag s \<or> (\<exists>n. final (inp n))"
  then show "\<exists>t. serve turn inp 0 s = Some t"
  proof
    assume "flag s"
    then show ?thesis using stops [of s "inp 0"] by (auto simp: serve.simps [of turn inp 0 s])
  next
    assume "\<exists>n. final (inp n)"
    then show ?thesis using returns [of inp 0] by auto
  qed
qed (metis never_returns option.distinct(1))

end

section \<open>The loops of the programs\<close>

text \<open>\<open>Process::start\<close>: the state is the process, the system and what was written.\<close>

definition process_head ::
  "'s s3 \<Rightarrow> 's \<Rightarrow> string \<Rightarrow> turn \<Rightarrow> Process \<times> os \<times> bytes list \<Rightarrow> (Process \<times> os \<times> bytes list) loop_result" where
  "process_head api st peer t c =
     (case c of (p, os, outs) \<Rightarrow>
        if ending p then Break (p, os, outs)
        else case process_turn api st peer t p os of
          Break (p, os, out) \<Rightarrow> Break (p, os, outs @ out)
        | Continue (p, os, out) \<Rightarrow> Continue (p, os, outs @ out))"

definition process_serve ::
  "'s s3 \<Rightarrow> 's \<Rightarrow> string \<Rightarrow> (nat \<Rightarrow> turn) \<Rightarrow> Process \<Rightarrow> os \<Rightarrow> (Process \<times> os \<times> bytes list) option" where
  "process_serve api st peer inp p os = serve (process_head api st peer) inp 0 (p, os, [])"

text \<open>The loop of \<open>Session::start\<close> over the data plane.\<close>

definition session_head :: "recv_in \<Rightarrow> RSession \<times> bytes list \<Rightarrow> (RSession \<times> bytes list) loop_result" where
  "session_head r c =
     (case c of (s, outs) \<Rightarrow>
        if s_ending s then Break (s, outs)
        else case Session_receive r s of (go, s, out) \<Rightarrow>
          if \<not> go then Break (s, outs @ out) else Continue (s, outs @ out))"

definition session_serve :: "(nat \<Rightarrow> recv_in) \<Rightarrow> RSession \<Rightarrow> (RSession \<times> bytes list) option" where
  "session_serve inp s = serve session_head inp 0 (s, [])"

text \<open>The event loop of the control plane, and the loop of the local worker with its answers.\<close>

definition server_head :: "bool \<times> poll \<Rightarrow> 'r server \<Rightarrow> 'r server loop_result" where
  "server_head i s = (if srv_ending s then Break s else server_turn (fst i) (snd i) s)"

definition server_serve :: "(nat \<Rightarrow> bool \<times> poll) \<Rightarrow> 'r server \<Rightarrow> 'r server option" where
  "server_serve inp s = serve server_head inp 0 s"

definition local_worker_head ::
  "lw_in \<Rightarrow> local_worker \<times> i32 option list \<Rightarrow> (local_worker \<times> i32 option list) loop_result" where
  "local_worker_head i c =
     (case c of (s, rs) \<Rightarrow>
        if lw_ending s then Break (s, rs)
        else case local_worker_turn i s of
          Break (s, r) \<Rightarrow> Break (s, rs)
        | Continue (s, r) \<Rightarrow> Continue (s, rs @ [r]))"

definition local_worker_serve :: "(nat \<Rightarrow> lw_in) \<Rightarrow> local_worker \<Rightarrow> (local_worker \<times> i32 option list) option" where
  "local_worker_serve inp s = serve local_worker_head inp 0 (s, [])"

section \<open>When they return\<close>

definition turn_final :: "turn \<Rightarrow> bool" where
  "turn_final t \<longleftrightarrow> t_ending t \<or> t_size t = 0"

lemma allocate_session_ending:
  "allocate_session api st env pid peer msg p os = (r, p', argv, os') \<Longrightarrow> ending p' = ending p"
  by (erule allocate_session_cases) simp_all

lemma process_turn_goes_on:
  assumes "\<not> turn_final t"
  shows "\<exists>p' os' out. process_turn api st peer t p os = Continue (p', os', out) \<and> ending p' = ending p"
proof (cases "t_size t = -1 \<or> (\<nexists>msg. RecvMessageBuffer_parse (t_data t) (t_size t) = Some (SessionRequestMsg msg))")
  case True
  with assms show ?thesis by (auto simp: process_turn_def turn_final_def split: option.splits recv_message.splits)
next
  case False
  then obtain msg where m: "RecvMessageBuffer_parse (t_data t) (t_size t) = Some (SessionRequestMsg msg)" by blast
  obtain r p' argv os' where a: "allocate_session api st (t_env t) (t_pid t) peer msg p os = (r, p', argv, os')"
    using prod_cases4 by blast
  then have "ending p' = ending p" by (rule allocate_session_ending)
  with assms m a False show ?thesis by (simp add: process_turn_def turn_final_def)
qed

interpretation process_srv: service_loop "process_head api st peer" "\<lambda>c. ending (fst c)" turn_final
  for api :: "'s s3" and st peer
proof
  fix s :: "Process \<times> os \<times> bytes list" and i
  obtain p os outs where c: "s = (p, os, outs)" by (rule prod_cases3)
  show "\<exists>t. process_head api st peer i s = Break t" if "ending (fst s) \<or> turn_final i"
    using that by (cases "process_turn api st peer i p os")
      (auto simp: c process_head_def process_turn_def turn_final_def split: if_splits)
  show "\<exists>t. process_head api st peer i s = Continue t \<and> \<not> ending (fst t)" if "\<not> ending (fst s)" "\<not> turn_final i"
    using that process_turn_goes_on [OF that(2), of api st peer p os] by (auto simp: c process_head_def)
qed

lemma receive_ending: "Session_receive r s = (go, s', out) \<Longrightarrow> s_ending s' = s_ending s"
  by (erule receive_cases) simp_all

lemma receive_stops: "\<not> fst (Session_receive r s) \<longleftrightarrow> r_bytes r = 0"
  by (auto simp: Session_receive_def Let_def split: option.splits recv_message.splits prod.splits)

interpretation session_srv: service_loop session_head "\<lambda>c. s_ending (fst c)" "\<lambda>r. r_bytes r = 0"
proof
  fix c :: "RSession \<times> bytes list" and i
  obtain s outs where c: "c = (s, outs)" by (cases c)
  obtain go s' out where r: "Session_receive i s = (go, s', out)" using prod_cases3 by blast
  note receive_stops [of i s] receive_ending [OF r]
  then show "s_ending (fst c) \<or> r_bytes i = 0 \<Longrightarrow> \<exists>t. session_head i c = Break t"
    and "\<not> s_ending (fst c) \<Longrightarrow> r_bytes i \<noteq> 0 \<Longrightarrow> \<exists>t. session_head i c = Continue t \<and> \<not> s_ending (fst t)"
    using r by (auto simp: c session_head_def)
qed

definition poll_final :: "bool \<times> poll \<Rightarrow> bool" where
  "poll_final i \<longleftrightarrow> fst i \<or> (case snd i of Events es \<Rightarrow> False | Poll_Failed errno \<Rightarrow> errno \<noteq> EINVAL)"

lemma server_event_ending [simp]: "srv_ending (server_event e s) = srv_ending s"
  by (cases "(e, s)" rule: server_event.cases) simp_all

lemma server_events_ending [simp]: "srv_ending (foldl (\<lambda>s e. server_event e s) s es) = srv_ending s"
  by (induction es arbitrary: s) simp_all

interpretation server_srv: service_loop "server_head :: bool \<times> poll \<Rightarrow> 'r server \<Rightarrow> 'r server loop_result" srv_ending poll_final
  by unfold_locales (auto simp: server_head_def server_turn_def poll_final_def Let_def split: poll.splits)

interpretation local_srv: service_loop local_worker_head "\<lambda>c. lw_ending (fst c)" li_ending
proof
  fix c :: "local_worker \<times> i32 option list" and i
  obtain s rs where c: "c = (s, rs)" by (cases c)
  show "\<exists>t. local_worker_head i c = Break t" if "lw_ending (fst c) \<or> li_ending i"
    using that by (auto simp: c local_worker_head_def local_worker_turn_def)
  show "\<exists>t. local_worker_head i c = Continue t \<and> \<not> lw_ending (fst t)" if "\<not> lw_ending (fst c)" "\<not> li_ending i"
    using that by (auto simp: c local_worker_head_def local_worker_turn_def Let_def split: option.splits)
qed

text \<open>The loops over lists of inputs of the other theories are these loops on a list.\<close>

lemma process_loop_list:
  "loop_list (process_head api st peer) ts (p, os, outs) =
     (case process_loop api st peer ts p os of (p', os', outs') \<Rightarrow> (p', os', outs @ outs'))"
  by (induction ts arbitrary: p os outs)
    (auto simp: process_head_def split: loop_result.splits prod.splits)

lemma session_loop_list:
  "loop_list session_head rs (s, outs) = (case session_loop rs s of (s', outs') \<Rightarrow> (s', outs @ outs'))"
  by (induction rs arbitrary: s outs) (auto simp: session_head_def split: prod.splits)

lemma server_loop_list: "loop_list server_head ps s = server_loop ps s"
  by (induction ps s rule: server_loop.induct) (auto simp: server_head_def split: loop_result.splits)

section \<open>Properties\<close>

text \<open>
  C20: the loop of a process returns exactly when \<open>_ending\<close> is set or a read finds the end of the
  stream, whatever requests it is sent; then its result is that of the loop over the inputs read. In
  particular, when the connection has failed and every read reports an error, the loop never returns.
\<close>

theorem process_loop_returns:
  "((\<exists>r. process_serve api st peer inp p os = Some r) \<longleftrightarrow>
      ending p \<or> (\<exists>n. t_ending (inp n) \<or> t_size (inp n) = 0)) \<and>
   (\<forall>r. process_serve api st peer inp p os = Some r \<longrightarrow>
      (\<exists>n. \<forall>m\<ge>n. process_loop api st peer (map inp [0..<m]) p os = r)) \<and>
   ((\<forall>n. \<not> t_ending (inp n) \<and> t_size (inp n) = -1) \<longrightarrow> \<not> ending p \<longrightarrow> process_serve api st peer inp p os = None)"
proof (intro conjI allI impI)
  note iff = process_srv.returns_iff [of api st peer inp "(p, os, [])", folded process_serve_def, simplified turn_final_def]
  then show "(\<exists>r. process_serve api st peer inp p os = Some r) \<longleftrightarrow> ending p \<or> (\<exists>n. t_ending (inp n) \<or> t_size (inp n) = 0)"
    by simp
  show "process_serve api st peer inp p os = None" if "\<forall>n. \<not> t_ending (inp n) \<and> t_size (inp n) = -1" "\<not> ending p"
    using iff that by (cases "process_serve api st peer inp p os") auto
  fix r assume "process_serve api st peer inp p os = Some r"
  then show "\<exists>n. \<forall>m\<ge>n. process_loop api st peer (map inp [0..<m]) p os = r"
    unfolding process_serve_def using serve_loop_list [of "process_head api st peer" inp 0 "(p, os, [])" r]
    by (auto simp: process_loop_list)
qed

text \<open>
  C21: the loop of a session returns exactly when it is shut down or its data connection is closed by
  the client; the result is that of the loop over the messages received. No message, however malformed,
  and no error of a read ends it.
\<close>

theorem session_loop_returns:
  "((\<exists>r. session_serve inp s = Some r) \<longleftrightarrow> s_ending s \<or> (\<exists>n. r_bytes (inp n) = 0)) \<and>
   (\<forall>r. session_serve inp s = Some r \<longrightarrow> (\<exists>n. \<forall>m\<ge>n. session_loop (map inp [0..<m]) s = r))"
proof (intro conjI allI impI)
  show "(\<exists>r. session_serve inp s = Some r) \<longleftrightarrow> s_ending s \<or> (\<exists>n. r_bytes (inp n) = 0)"
    using session_srv.returns_iff [of inp "(s, [])"] by (simp add: session_serve_def)
  fix r assume "session_serve inp s = Some r"
  then show "\<exists>n. \<forall>m\<ge>n. session_loop (map inp [0..<m]) s = r"
    unfolding session_serve_def using serve_loop_list [of session_head inp 0 "(s, [])" r]
    by (auto simp: session_loop_list)
qed

theorem process_loop_returns_witness:
  "process_serve map_s3 Map.empty ''c'' (\<lambda>_. \<lparr>t_ending = False, t_size = -1, t_data = [], t_env = good_env, t_pid = 7\<rparr>)
     (Process_init ''p'' ''h'' 4) empty_os = None"
  using process_loop_returns [of map_s3 Map.empty "''c''"
      "\<lambda>_. \<lparr>t_ending = False, t_size = -1, t_data = [], t_env = good_env, t_pid = 7\<rparr>" "Process_init ''p'' ''h'' 4" empty_os]
  by (simp add: Process_init_def)

theorem session_loop_returns_witness:
  "\<exists>r n. session_serve (\<lambda>k. demo_recv\<lparr>r_bytes := (if k = 3 then 0 else -1)\<rparr>) (RSession_init demo_lib ''s'' 1 64) = Some r \<and>
     (\<forall>m\<ge>n. session_loop (map (\<lambda>k. demo_recv\<lparr>r_bytes := (if k = 3 then 0 else -1)\<rparr>) [0..<m]) (RSession_init demo_lib ''s'' 1 64) = r)"
proof -
  let ?inp = "\<lambda>k :: nat. demo_recv\<lparr>r_bytes := (if k = 3 then 0 else -1)\<rparr>" and ?s = "RSession_init demo_lib ''s'' 1 64"
  have "\<exists>k. r_bytes (?inp k) = 0" by (intro exI [of _ "3 :: nat"]) simp
  then obtain r where "session_serve ?inp ?s = Some r" using session_loop_returns [of ?inp ?s] by blast
  with session_loop_returns [of ?inp ?s] show ?thesis by blast
qed

text \<open>The event loop ends only on request or when polling fails with another error than \<open>EINVAL\<close>.\<close>

lemma server_loop_returns:
  "(\<exists>r. server_serve inp s = Some r) \<longleftrightarrow> srv_ending s \<or> (\<exists>n. poll_final (inp n))"
  "server_serve inp s = Some r \<Longrightarrow> \<exists>n. \<forall>m\<ge>n. server_loop (map inp [0..<m]) s = r"
  using server_srv.returns_iff [of inp s] serve_loop_list [of server_head inp 0 s r]
  by (auto simp: server_serve_def server_loop_list)

lemma local_worker_returns:
  "(\<exists>r. local_worker_serve inp s = Some r) \<longleftrightarrow> lw_ending s \<or> (\<exists>n. li_ending (inp n))"
  using local_srv.returns_iff [of inp "(s, [])"] by (simp add: local_worker_serve_def)

text \<open>The loop of the serving worker, with its answers and the requests it hands to forking threads.\<close>

definition serving_head ::
  "bool \<times> int \<times> bytes \<Rightarrow> serving_worker \<times> i32 option list \<times> (nat \<times> bytes) list \<Rightarrow>
     (serving_worker \<times> i32 option list \<times> (nat \<times> bytes) list) loop_result" where
  "serving_head i c =
     (case (i, c) of ((stop, n, data), (s, rs, jobs)) \<Rightarrow>
        if sv_ending s then Break c
        else case serving_turn stop n data s of
          Break (s, r, job) \<Rightarrow> Break (s, rs, jobs)
        | Continue (s, r, job) \<Rightarrow> Continue (s, rs @ [r], jobs @ (case job of None \<Rightarrow> [] | Some j \<Rightarrow> [j])))"

definition serving_serve ::
  "(nat \<Rightarrow> bool \<times> int \<times> bytes) \<Rightarrow> serving_worker \<Rightarrow> (serving_worker \<times> i32 option list \<times> (nat \<times> bytes) list) option" where
  "serving_serve inp s = serve serving_head inp 0 (s, [], [])"

interpretation serving_srv: service_loop serving_head "\<lambda>c. sv_ending (fst c)" fst
proof
  fix c :: "serving_worker \<times> i32 option list \<times> (nat \<times> bytes) list" and i :: "bool \<times> int \<times> bytes"
  obtain s rs jobs stop n data where c: "c = (s, rs, jobs)" "i = (stop, n, data)" by (metis prod_cases3)
  show "\<exists>t. serving_head i c = Break t" if "sv_ending (fst c) \<or> fst i"
    using that by (auto simp: c serving_head_def serving_turn_def)
  show "\<exists>t. serving_head i c = Continue t \<and> \<not> sv_ending (fst t)" if "\<not> sv_ending (fst c)" "\<not> fst i"
    using that by (auto simp: c serving_head_def serving_turn_def Let_def)
qed

text \<open>
  It ends only on request, and every request it hands over has a slot of its own: no slot is ever freed.
\<close>

lemma serving_returns:
  "(\<exists>r. serving_serve inp s = Some r) \<longleftrightarrow> sv_ending s \<or> (\<exists>n. fst (inp n))"
  using serving_srv.returns_iff [of inp "(s, [], [])"] by (simp add: serving_serve_def)

definition jobs_ok :: "serving_worker \<times> i32 option list \<times> (nat \<times> bytes) list \<Rightarrow> bool" where
  "jobs_ok c \<longleftrightarrow> (case c of (s, rs, jobs) \<Rightarrow> distinct (map fst jobs) \<and>
     (\<forall>(i, data) \<in> set jobs. i < length (sv_processes s) \<and> sv_processes s ! i \<noteq> None) \<and> length (filter (\<lambda>r. r = Some 0) rs) = length jobs)"

lemma serving_head_jobs:
  assumes "jobs_ok c" and "serving_head i c = Continue c' \<or> serving_head i c = Break c'"
  shows "jobs_ok c'"
proof -
  obtain s rs jobs stop n data where c: "c = (s, rs, jobs)" "i = (stop, n, data)" by (metis prod_cases3)
  let ?k = "find_pos (\<lambda>x. x = None) (sv_processes s)"
  have k: "?k < length (sv_processes s) \<and> sv_processes s ! ?k = None" if "?k \<noteq> length (sv_processes s)"
    using le_neq_implies_less [OF find_pos_le that] find_pos_nth [of "\<lambda>x. x = None" "sv_processes s"] by blast
  have "?k \<notin> set (map fst jobs)" if "?k \<noteq> length (sv_processes s)"
    using assms(1) k [OF that] by (auto simp: jobs_ok_def c)
  with assms k show ?thesis
    by (auto simp: c jobs_ok_def serving_head_def serving_turn_def Let_def nth_list_update split: if_splits)
qed

lemma serving_jobs:
  assumes "serving_serve inp s = Some (s', rs, jobs)"
  shows "distinct (map fst jobs) \<and> length (filter (\<lambda>r. r = Some 0) rs) = length jobs \<and>
    (\<forall>(i, data) \<in> set jobs. i < length (sv_processes s') \<and> sv_processes s' ! i \<noteq> None)"
proof -
  have "jobs_ok (loop_list serving_head is c)" if "jobs_ok c" for "is" c
    using that
  proof (induction "is" arbitrary: c)
    case (Cons i "is")
    then show ?case using serving_head_jobs [OF Cons.prems, of i] by (cases "serving_head i c") simp_all
  qed simp
  moreover have "jobs_ok (s, [], [])" by (simp add: jobs_ok_def)
  moreover obtain k where "\<forall>m\<ge>k. loop_list serving_head (map inp [0..<m]) (s, [], []) = (s', rs, jobs)"
    using serve_loop_list [OF assms [unfolded serving_serve_def]] by blast
  ultimately have "jobs_ok (s', rs, jobs)" by (metis le_refl)
  then show ?thesis by (simp add: jobs_ok_def)
qed

end
