(* ===== verification/Child_Exits.thy ===== *)
theory Child_Exits
  imports Worker_Servers
begin

text \<open>
  How the exit of a session program reaches its process when the local worker runs several processes as
  threads of one program. The constructor of \<open>Process\<close> (\<open>process.hpp\<close>) stores its object in the
  static pointer \<open>_instance\<close> and installs \<open>session_shutdown_handler\<close> for \<open>SIGCHLD\<close>; the handler
  (\<open>process.cpp\<close>) reads the pointer and starts a thread that runs \<open>session_deleted\<close> on that object with
  the process id of the signal. A step relation interleaves the requests to the worker, the requests to its
  processes, exits of children, deliveries of the signal and the threads of the handler.
\<close>

section \<open>The program of the local worker\<close>

text \<open>
  \<open>Process::_instance\<close> is the slot of the object, \<open>None\<close> for the null pointer. Of the operating system:
  the signal that is pending with the process id it carries (a standard signal is pending at most once,
  and keeps the information of the first), the children that run, and those not waited for yet.
\<close>

record 's worker_system =
  lworker :: local_worker
  instance_slot :: "nat option"
  pending :: "int option"
  running :: "int set"
  unreaped :: "int set"
  deletions :: "(nat option \<times> int) list"
  storage :: 's
  system :: os
  sent_notes :: "(nat \<times> bytes) list"

definition worker_system_init :: "nat \<Rightarrow> string \<Rightarrow> bool \<Rightarrow> 's \<Rightarrow> os \<Rightarrow> 's worker_system" where
  "worker_system_init n hp sw st os =
     \<lparr>lworker = local_worker_init n hp sw, instance_slot = None, pending = None, running = {}, unreaped = {},
      deletions = [], storage = st, system = os, sent_notes = []\<rparr>"

text \<open>
  The constructor runs whenever \<open>create\<close> is called, also when \<open>create\<close> destroys the object again
  because it cannot connect.
\<close>

definition instance_after :: "lw_in \<Rightarrow> local_worker \<Rightarrow> nat option \<Rightarrow> nat option" where
  "instance_after inp w old =
     (let free_process = find_pos (\<lambda>x. x = None) (lw_processes w) in
      if \<not> li_ending inp \<and> li_n inp = int Request_EXPECTED_LENGTH \<and> free_process \<noteq> length (lw_processes w)
      then Some free_process else old)"

text \<open>\<open>session_shutdown_handler\<close>: the thread it starts is given the pointer as it is now.\<close>

definition session_shutdown_handler :: "int \<Rightarrow> 's worker_system \<Rightarrow> 's worker_system" where
  "session_shutdown_handler pid s = s\<lparr>deletions := deletions s @ [(instance_slot s, pid)]\<rparr>"

text \<open>
  The thread: \<open>session_deleted\<close> on the object of the pointer. A null pointer and an object that was
  destroyed are faults. \<open>waitpid\<close> is reached only when the process id was found.
\<close>

datatype pointer_fault = Null_Instance | Destroyed_Instance

definition slot :: "'s worker_system \<Rightarrow> nat \<Rightarrow> Process option" where
  "slot s i = (if i < length (lw_processes (lworker s)) then lw_processes (lworker s) ! i else None)"

definition set_slot :: "nat \<Rightarrow> Process \<Rightarrow> 's worker_system \<Rightarrow> 's worker_system" where
  "set_slot i p s = s\<lparr>lworker := (lworker s)\<lparr>lw_processes := (lw_processes (lworker s))[i := Some p]\<rparr>\<rparr>"

definition run_deletion :: "'s s3 \<Rightarrow> nat option \<Rightarrow> int \<Rightarrow> 's worker_system \<Rightarrow> pointer_fault + 's worker_system" where
  "run_deletion api ptr pid s =
     (case ptr of None \<Rightarrow> Inl Null_Instance
      | Some i \<Rightarrow>
          (case slot s i of None \<Rightarrow> Inl Destroyed_Instance
           | Some p \<Rightarrow>
               (case session_deleted api pid p (storage s) (system s) of
                  (None, p', st, os) \<Rightarrow> Inr s
                | (Some msg, p', st, os) \<Rightarrow>
                    Inr ((set_slot i p' s)\<lparr>storage := st, system := os, unreaped := unreaped s - {pid},
                           sent_notes := sent_notes s @ [(i, msg)]\<rparr>))))"

definition children :: "Process \<Rightarrow> int set" where
  "children p = {c \<in> child_pid ` set (sessions p). 0 < c}"

text \<open>
  The steps. A process id given by \<open>vfork\<close> is that of no child that still waits to be reaped.
\<close>

inductive worker_step :: "'s s3 \<Rightarrow> 's worker_system \<Rightarrow> 's worker_system \<Rightarrow> bool" for api where
  accept: "\<not> lw_ending (lworker s) \<Longrightarrow> local_worker_turn inp (lworker s) = Continue (w, r) \<Longrightarrow>
     worker_step api s (s\<lparr>lworker := w, instance_slot := instance_after inp (lworker s) (instance_slot s)\<rparr>)"
| request: "slot s j = Some p \<Longrightarrow> \<not> ending p \<Longrightarrow> t_pid t \<notin> unreaped s \<Longrightarrow>
     process_turn api (storage s) addr t p (system s) = Continue (p', os', out) \<Longrightarrow>
     worker_step api s ((set_slot j p' s)\<lparr>system := os', running := running s \<union> (children p' - children p),
        unreaped := unreaped s \<union> (children p' - children p), sent_notes := sent_notes s @ map (Pair j) out\<rparr>)"
| last_request: "slot s j = Some p \<Longrightarrow> \<not> ending p \<Longrightarrow>
     process_turn api (storage s) addr t p (system s) = Break (p', os', out) \<Longrightarrow>
     worker_step api s ((set_slot j p' s)\<lparr>system := os'\<rparr>)"
| child_exit: "pid \<in> running s \<Longrightarrow>
     worker_step api s (s\<lparr>running := running s - {pid},
        pending := (case pending s of None \<Rightarrow> Some pid | Some q \<Rightarrow> Some q)\<rparr>)"
| signal: "pending s = Some pid \<Longrightarrow> worker_step api s (session_shutdown_handler pid (s\<lparr>pending := None\<rparr>))"
| deletion: "i < length (deletions s) \<Longrightarrow> deletions s ! i = (ptr, pid) \<Longrightarrow> run_deletion api ptr pid s = Inr t \<Longrightarrow>
     worker_step api s (t\<lparr>deletions := take i (deletions s) @ drop (Suc i) (deletions s)\<rparr>)"
| stop: "worker_step api s (s\<lparr>lworker := local_worker_shutdown (lworker s)\<rparr>)"

inductive_cases worker_stepE: "worker_step api s t"

section \<open>What a step does to the sessions of a process\<close>

lemma slot_set_slot: "slot s i \<noteq> None \<Longrightarrow> slot (set_slot i p s) j = (if j = i then Some p else slot s j)"
  by (auto simp: slot_def set_slot_def split: if_splits)

lemma slot_more [simp]:
  "slot (s\<lparr>instance_slot := a\<rparr>) i = slot s i" "slot (s\<lparr>pending := b\<rparr>) i = slot s i"
  "slot (s\<lparr>running := c\<rparr>) i = slot s i" "slot (s\<lparr>unreaped := d\<rparr>) i = slot s i"
  "slot (s\<lparr>deletions := e\<rparr>) i = slot s i" "slot (s\<lparr>storage := f\<rparr>) i = slot s i"
  "slot (s\<lparr>system := g\<rparr>) i = slot s i" "slot (s\<lparr>sent_notes := h\<rparr>) i = slot s i"
  by (simp_all add: slot_def)

lemma set_slot_more [simp]:
  "instance_slot (set_slot i p s) = instance_slot s" "pending (set_slot i p s) = pending s"
  "running (set_slot i p s) = running s" "unreaped (set_slot i p s) = unreaped s"
  "deletions (set_slot i p s) = deletions s" "sent_notes (set_slot i p s) = sent_notes s"
  by (simp_all add: set_slot_def)

text \<open>A turn of a process only adds to its sessions, and only the child it forked.\<close>

lemma allocation_sessions:
  assumes "allocate_session api st env pid peer msg p os = (r, p', argv, os')"
  shows "set (sessions p) \<subseteq> set (sessions p')" and "children p' - children p \<subseteq> {pid}"
  using assms
  by (cases rule: allocate_session_cases; auto simp: children_def elim!: fork_cases)+

lemma turn_process:
  assumes "process_turn api st addr t p os = Continue (p', os', out) \<or> process_turn api st addr t p os = Break (p', os', out)"
  shows "p' = p \<or> p' = p\<lparr>ending := True\<rparr> \<or>
    (\<exists>msg r argv. allocate_session api st (t_env t) (t_pid t) addr msg p os = (r, p', argv, os'))"
  using assms by (auto simp: process_turn_def split: if_splits option.splits recv_message.splits prod.splits)

lemma turn_sessions:
  assumes "process_turn api st addr t p os = Continue (p', os', out) \<or> process_turn api st addr t p os = Break (p', os', out)"
  shows "set (sessions p) \<subseteq> set (sessions p')" and "children p' - children p \<subseteq> {t_pid t}"
proof -
  have [simp]: "children (p\<lparr>ending := True\<rparr>) = children p" by (simp add: children_def)
  show "set (sessions p) \<subseteq> set (sessions p')" and "children p' - children p \<subseteq> {t_pid t}"
    using turn_process [OF assms] by (elim disjE exE; simp add: allocation_sessions)+
qed

lemma accepted_slot:
  assumes "local_worker_turn inp w = Continue (w', r)"
  shows "i < length (lw_processes w) \<Longrightarrow> lw_processes w ! i \<noteq> None \<Longrightarrow> lw_processes w' ! i = lw_processes w ! i"
    and "length (lw_processes w') = length (lw_processes w)"
    and "i < length (lw_processes w) \<Longrightarrow> lw_processes w ! i \<noteq> None \<Longrightarrow> instance_after inp w old = Some i \<Longrightarrow> old = Some i"
  using assms find_pos_nth [of "\<lambda>x. x = None" "lw_processes w"]
    le_neq_implies_less [OF find_pos_le [of "\<lambda>x. x = None" "lw_processes w"]]
  by (auto simp: local_worker_turn_def instance_after_def Let_def nth_list_update split: if_splits option.splits)

text \<open>The session with an identifier and a child, in the process of a slot.\<close>

definition holds_child :: "nat \<Rightarrow> string \<Rightarrow> int \<Rightarrow> 's worker_system \<Rightarrow> bool" where
  "holds_child j sid pid s \<longleftrightarrow> (\<exists>p. slot s j = Some p \<and> (\<exists>f \<in> set (sessions p). fork_session_id f = sid \<and> child_pid f = pid))"

lemma erase_keeps:
  assumes "f \<in> set xs" and "\<not> P f"
  shows "f \<in> set (take (find_pos P xs) xs @ drop (Suc (find_pos P xs)) xs)"
proof (cases "find_pos P xs < length xs")
  case True
  then have "P (xs ! find_pos P xs)" by (rule find_pos_nth)
  moreover have "set xs = set (take (find_pos P xs) xs @ xs ! find_pos P xs # drop (Suc (find_pos P xs)) xs)"
    using True by (metis id_take_nth_drop)
  ultimately show ?thesis using assms by auto
qed (use assms in simp)

lemma deletion_keeps:
  assumes "run_deletion api ptr pid' s = Inr t" and "holds_child j sid pid s" and "ptr = Some j \<longrightarrow> pid' \<noteq> pid"
  shows "holds_child j sid pid t"
proof -
  obtain i p where ptr: "ptr = Some i" and p: "slot s i = Some p"
    using assms(1) by (auto simp: run_deletion_def split: option.splits)
  obtain m p' st os where d: "session_deleted api pid' p (storage s) (system s) = (m, p', st, os)" using prod_cases4 by blast
  have "sessions p' = take (find_pos (\<lambda>s. child_pid s = pid') (sessions p)) (sessions p) @
      drop (Suc (find_pos (\<lambda>s. child_pid s = pid') (sessions p))) (sessions p)"
    using session_deleted_sessions [of api pid' p "storage s" "system s"] d by (simp add: Let_def)
  then have keep: "f \<in> set (sessions p')" if "f \<in> set (sessions p)" "child_pid f \<noteq> pid'" for f
    using erase_keeps [of f "sessions p" "\<lambda>s. child_pid s = pid'"] that by simp
  have "slot t x = (if x = i \<and> m \<noteq> None then Some p' else slot s x)" for x
    using assms(1) p by (auto simp: run_deletion_def ptr d slot_set_slot split: option.splits)
  then show ?thesis using assms(2,3) p ptr keep by (auto simp: holds_child_def)
qed

lemma step_keeps_child:
  assumes "worker_step api s t" and "holds_child j sid pid s" and "(Some j, pid) \<notin> set (deletions s)"
  shows "holds_child j sid pid t"
  using assms
proof cases
  case (accept inp w r)
  then show ?thesis
    using assms(2) accepted_slot(1) [OF accept(3), of j] accepted_slot(2) [OF accept(3)] by (auto simp: holds_child_def slot_def split: if_splits)
next
  case (request i p t addr p' os' out)
  have "set (sessions p) \<subseteq> set (sessions p')" by (rule turn_sessions(1) [OF disjI1, OF request(5)])
  with request assms(2) show ?thesis by (auto simp: holds_child_def slot_set_slot)
next
  case (last_request i p addr t p' os' out)
  have "set (sessions p) \<subseteq> set (sessions p')" by (rule turn_sessions(1) [OF disjI2, OF last_request(4)])
  with last_request assms(2) show ?thesis by (auto simp: holds_child_def slot_set_slot)
next
  case (deletion i ptr pid' u)
  then have "ptr = Some j \<longrightarrow> pid' \<noteq> pid" using assms(3) by (auto simp: in_set_conv_nth)
  from deletion_keeps [OF deletion(4) assms(2) this] show ?thesis by (simp add: deletion(1) holds_child_def)
next
  case stop
  then show ?thesis using assms(2) by (auto simp: holds_child_def slot_def local_worker_shutdown_def Process_shutdown_def split: if_splits)
qed (use assms(2) in \<open>auto simp: holds_child_def session_shutdown_handler_def\<close>)

section \<open>Invariants\<close>

text \<open>A child of a process that the pointer does not designate and for which no thread was started.\<close>

definition orphan :: "nat \<Rightarrow> string \<Rightarrow> int \<Rightarrow> 's worker_system \<Rightarrow> bool" where
  "orphan j sid pid s \<longleftrightarrow> holds_child j sid pid s \<and> instance_slot s \<noteq> Some j \<and> (Some j, pid) \<notin> set (deletions s)"

lemma run_deletion_more:
  assumes "run_deletion api ptr pid s = Inr t"
  shows "instance_slot t = instance_slot s" "pending t = pending s" "running t = running s" "deletions t = deletions s"
    "unreaped t = unreaped s \<or> unreaped t = unreaped s - {pid}"
  using assms by (auto simp: run_deletion_def split: option.splits prod.splits)

interpretation orphans: invariant_machine "worker_step api" "orphan j sid pid" for api :: "'s s3" and j sid pid
proof
  fix s t :: "'s worker_system"
  assume step: "worker_step api s t" and "orphan j sid pid s"
  then have o: "holds_child j sid pid s" "instance_slot s \<noteq> Some j" "(Some j, pid) \<notin> set (deletions s)"
    by (simp_all add: orphan_def)
  then have "holds_child j sid pid t" using step_keeps_child [OF step] by blast
  moreover have "instance_slot t \<noteq> Some j \<and> (Some j, pid) \<notin> set (deletions t)"
    using step
  proof cases
    case (accept inp w r)
    obtain p where "slot s j = Some p" using o(1) by (auto simp: holds_child_def)
    then have "j < length (lw_processes (lworker s))" "lw_processes (lworker s) ! j \<noteq> None"
      by (auto simp: slot_def split: if_splits)
    then show ?thesis using accepted_slot(3) [OF accept(3)] o accept(1) by auto
  next
    case (deletion i ptr pid' u)
    then show ?thesis using o run_deletion_more [OF deletion(4)] by (auto dest: in_set_takeD in_set_dropD)
  qed (use o in \<open>auto simp: session_shutdown_handler_def\<close>)
  ultimately show "orphan j sid pid t" by (simp add: orphan_def)
qed

text \<open>The exits that are known but not finished are of distinct children, which ended and wait to be reaped.\<close>

definition known_exits :: "'s worker_system \<Rightarrow> int list" where
  "known_exits s = map snd (deletions s) @ (case pending s of None \<Rightarrow> [] | Some q \<Rightarrow> [q])"

definition exits_ok :: "'s worker_system \<Rightarrow> bool" where
  "exits_ok s \<longleftrightarrow> distinct (known_exits s) \<and> set (known_exits s) \<inter> running s = {} \<and>
     set (known_exits s) \<union> running s \<subseteq> unreaped s"

interpretation exits: invariant_machine "worker_step api" exits_ok for api :: "'s s3"
proof
  fix s t :: "'s worker_system"
  assume "worker_step api s t" and ok: "exits_ok s"
  then show "exits_ok t"
  proof cases
    case (request i p t addr p' os' out)
    let ?new = "children p' - children p"
    have "?new \<subseteq> {t_pid t}" by (rule turn_sessions(2) [OF disjI1, OF request(5)])
    then have new: "?new \<inter> unreaped s = {}" using request(4) by blast
    have "known_exits (set_slot i p' s\<lparr>system := os', running := running s \<union> ?new, unreaped := unreaped s \<union> ?new,
        sent_notes := sent_notes s @ map (Pair i) out\<rparr>) = known_exits s"
      by (simp add: known_exits_def)
    with ok new show ?thesis unfolding request(1) exits_ok_def by auto
  next
    case (deletion i ptr pid u)
    have split: "deletions s = take i (deletions s) @ (ptr, pid) # drop (Suc i) (deletions s)"
      using deletion(2,3) by (metis id_take_nth_drop)
    define xs where "xs = map snd (take i (deletions s))"
    define ys where "ys = map snd (drop (Suc i) (deletions s)) @ (case pending s of None \<Rightarrow> [] | Some q \<Rightarrow> [q])"
    have "known_exits s = xs @ pid # ys" unfolding xs_def ys_def by (subst known_exits_def, subst split) simp
    moreover have "known_exits t = xs @ ys" and "running t = running s" and "unreaped s - {pid} \<subseteq> unreaped t"
      using run_deletion_more [OF deletion(4)] by (auto simp: known_exits_def deletion(1) xs_def ys_def)
    ultimately show ?thesis using ok unfolding exits_ok_def by (simp only:) auto
  qed (auto simp: exits_ok_def known_exits_def session_shutdown_handler_def split: option.splits)
qed

text \<open>A child that ended and of whose exit nothing is known.\<close>

definition forgotten :: "nat \<Rightarrow> string \<Rightarrow> int \<Rightarrow> 's worker_system \<Rightarrow> bool" where
  "forgotten j sid pid s \<longleftrightarrow> holds_child j sid pid s \<and> pid \<in> unreaped s - running s \<and> pid \<notin> set (known_exits s)"

interpretation forgotten: invariant_machine "worker_step api" "forgotten j sid pid" for api :: "'s s3" and j sid pid
proof
  fix s t :: "'s worker_system"
  assume step: "worker_step api s t" and "forgotten j sid pid s"
  then have f: "holds_child j sid pid s" "pid \<in> unreaped s" "pid \<notin> running s" "pid \<notin> set (known_exits s)"
    by (simp_all add: forgotten_def)
  then have no: "(ptr, pid) \<notin> set (deletions s)" for ptr by (force simp: known_exits_def)
  then have "holds_child j sid pid t" using step_keeps_child [OF step f(1)] by blast
  moreover have "pid \<in> unreaped t - running t \<and> pid \<notin> set (known_exits t)"
    using step
  proof cases
    case (request i p t addr p' os' out)
    have "children p' - children p \<subseteq> {t_pid t}" by (rule turn_sessions(2) [OF disjI1, OF request(5)])
    then show ?thesis using f request(1,4) by (auto simp: known_exits_def)
  next
    case (deletion i ptr pid' u)
    then have "pid' \<noteq> pid" using no [of ptr] by (metis nth_mem)
    then show ?thesis
      using f run_deletion_more [OF deletion(4)]
      by (auto simp: deletion(1) known_exits_def dest: in_set_takeD in_set_dropD)
  qed (use f in \<open>auto simp: known_exits_def session_shutdown_handler_def split: option.splits\<close>)
  ultimately show "forgotten j sid pid t" by (simp add: forgotten_def)
qed

section \<open>An exit on its way\<close>

text \<open>The session of a child is the first of its process with that process id.\<close>

abbreviation session_of :: "int \<Rightarrow> Process \<Rightarrow> SessionFork option" where
  "session_of pid p \<equiv> find (\<lambda>f. child_pid f = pid) (sessions p)"

definition tracked :: "nat \<Rightarrow> int \<Rightarrow> S3Swapper \<Rightarrow> SessionFork \<Rightarrow> 's worker_system \<Rightarrow> bool" where
  "tracked j pid sw f s \<longleftrightarrow> (\<exists>p. slot s j = Some p \<and> swapper p = sw \<and> session_of pid p = Some f)"

lemma find_append: "find P xs = Some f \<Longrightarrow> find P (xs @ ys) = Some f"
  by (induction xs) (auto split: if_splits)

lemma find_erase: "\<not> P (xs ! i) \<Longrightarrow> i < length xs \<Longrightarrow> find P (take i xs @ drop (Suc i) xs) = find P xs"
proof (induction xs arbitrary: i)
  case (Cons x xs) then show ?case by (cases i) auto
qed simp

lemma find_first:
  assumes "find P xs = Some f"
  obtains i where "i < length xs" and "xs ! i = f" and "P (xs ! i)" and "\<forall>k<i. \<not> P (xs ! k)"
    and "take i xs @ drop (Suc i) xs = remove1 f xs"
proof -
  obtain i where i: "i < length xs" "P (xs ! i)" "f = xs ! i" "\<forall>k<i. \<not> P (xs ! k)"
    using assms unfolding find_Some_iff by blast
  have "f \<notin> set (take i xs)" using i by (auto simp: in_set_conv_nth)
  then have "remove1 f (take i xs @ f # drop (Suc i) xs) = take i xs @ drop (Suc i) xs" by (simp add: remove1_append)
  then show ?thesis using i that by (metis id_take_nth_drop)
qed

lemma turn_session_of:
  assumes "process_turn api st addr t p os = Continue (p', os', out) \<or> process_turn api st addr t p os = Break (p', os', out)"
  shows "swapper p' = swapper p" and "session_of pid p = Some f \<Longrightarrow> session_of pid p' = Some f"
proof -
  have "swapper p' = swapper p \<and> (\<exists>ys. sessions p' = sessions p @ ys)"
    using turn_process [OF assms] by (elim disjE exE) (auto elim!: allocate_session_cases)
  then show "swapper p' = swapper p" and "session_of pid p = Some f \<Longrightarrow> session_of pid p' = Some f"
    using find_append by fastforce+
qed

lemma deletion_tracked:
  assumes "run_deletion api ptr pid' s = Inr t" and "tracked j pid sw f s" and "ptr = Some j \<longrightarrow> pid' \<noteq> pid"
  shows "tracked j pid sw f t"
proof -
  obtain i p where ptr: "ptr = Some i" and p: "slot s i = Some p"
    using assms(1) by (auto simp: run_deletion_def split: option.splits)
  obtain m p' st os where d: "session_deleted api pid' p (storage s) (system s) = (m, p', st, os)" using prod_cases4 by blast
  let ?k = "find_pos (\<lambda>s. child_pid s = pid') (sessions p)"
  have "sessions p' = take ?k (sessions p) @ drop (Suc ?k) (sessions p)"
    using session_deleted_sessions [of api pid' p "storage s" "system s"] d by (simp add: Let_def)
  then have "session_of pid p' = session_of pid p" if "pid' \<noteq> pid"
    using that find_erase [of "\<lambda>f. child_pid f = pid" "sessions p" ?k] find_pos_nth [of "\<lambda>s. child_pid s = pid'" "sessions p"]
    by (cases "?k < length (sessions p)") auto
  moreover have "swapper p' = swapper p" using d by (auto simp: session_deleted_def Let_def split: if_splits prod.splits)
  moreover have "slot t x = (if x = i \<and> m \<noteq> None then Some p' else slot s x)" for x
    using assms(1) p by (auto simp: run_deletion_def ptr d slot_set_slot split: option.splits)
  ultimately show ?thesis using assms(2,3) p ptr by (auto simp: tracked_def)
qed

text \<open>The size and the identifier that the closure of a session reports.\<close>

definition closing_note :: "S3Swapper \<Rightarrow> SessionFork \<Rightarrow> process_note" where
  "closing_note sw f = Session_Closed (if S3Swapper_is_enabled sw then shm_size (memory f) else 0) (fork_session_id f)"

text \<open>The thread of the handler on the right object and child.\<close>

lemma tracked_deletion:
  assumes "tracked j pid sw f s" and "id16 (fork_session_id f)"
  shows "\<exists>t msg p p'. run_deletion api (Some j) pid s = Inr t \<and> sent_notes t = sent_notes s @ [(j, msg)] \<and>
    note_decode msg = Some (closing_note sw f) \<and> slot s j = Some p \<and> slot t j = Some p' \<and>
    sessions p' = remove1 f (sessions p) \<and> unreaped t = unreaped s - {pid} \<and> (\<forall>k. k \<noteq> j \<longrightarrow> slot t k = slot s k)"
proof -
  obtain p where p: "slot s j = Some p" "swapper p = sw" "session_of pid p = Some f"
    using assms(1) by (auto simp: tracked_def)
  obtain i where i: "i < length (sessions p)" "sessions p ! i = f" "child_pid (sessions p ! i) = pid"
      "\<forall>k<i. child_pid (sessions p ! k) \<noteq> pid" "take i (sessions p) @ drop (Suc i) (sessions p) = remove1 f (sessions p)"
    using p(3) by (rule find_first)
  have "id16 (fork_session_id (sessions p ! i))" using assms(2) i(2) by simp
  then obtain msg p' st os where d: "session_deleted api pid p (storage s) (system s) = (Some msg, p', st, os)"
    and "note_decode msg = Some (closing_note sw f)" "sessions p' = remove1 f (sessions p)"
    using session_exit_notice [OF i(1,3,4), of api "storage s" "system s"] i(2,5) p(2) by (auto simp: closing_note_def)
  then show ?thesis using p(1) slot_set_slot [of s j p'] by (auto simp: run_deletion_def)
qed

text \<open>A session whose child ended stays where it is, or its closure is sent.\<close>

lemma step_tracked:
  assumes "worker_step api s t" and "tracked j pid sw f s" and "id16 (fork_session_id f)"
  shows "tracked j pid sw f t \<and> set (deletions s) \<inter> {(Some j, pid)} \<subseteq> set (deletions t) \<or>
    (\<exists>msg. sent_notes t = sent_notes s @ [(j, msg)] \<and> note_decode msg = Some (closing_note sw f))"
  using assms(1)
proof cases
  case (accept inp w r)
  then show ?thesis
    using assms(2) accepted_slot(1) [OF accept(3), of j] accepted_slot(2) [OF accept(3)]
    by (auto simp: tracked_def slot_def split: if_splits)
next
  case (request i p t addr p' os' out)
  with turn_session_of [OF disjI1, OF request(5)] assms(2) show ?thesis by (auto simp: tracked_def slot_set_slot)
next
  case (last_request i p addr t p' os' out)
  with turn_session_of [OF disjI2, OF last_request(4)] assms(2) show ?thesis by (auto simp: tracked_def slot_set_slot)
next
  case (deletion i ptr pid' u)
  show ?thesis
  proof (cases "ptr = Some j \<and> pid' = pid")
    case True
    with tracked_deletion [OF assms(2,3), of api] deletion show ?thesis by auto
  next
    case False
    have "set (deletions s) = set (take i (deletions s) @ (ptr, pid') # drop (Suc i) (deletions s))"
      using deletion(2,3) by (metis id_take_nth_drop)
    also have "\<dots> = insert (ptr, pid') (set (deletions t))" by (simp add: deletion(1))
    finally have "set (deletions s) = insert (ptr, pid') (set (deletions t))" .
    moreover have "tracked j pid sw f t"
      using deletion_tracked [OF deletion(4) assms(2)] False by (auto simp: deletion(1) tracked_def)
    ultimately show ?thesis using False by auto
  qed
next
  case stop
  then show ?thesis
    using assms(2) by (auto simp: tracked_def slot_def local_worker_shutdown_def Process_shutdown_def split: if_splits)
qed (use assms(2) in \<open>auto simp: tracked_def session_shutdown_handler_def\<close>)

lemma step_notes: "worker_step api s t \<Longrightarrow> \<exists>ys. sent_notes t = sent_notes s @ ys"
  by (induction rule: worker_step.induct) (auto simp: session_shutdown_handler_def run_deletion_def split: option.splits prod.splits)

text \<open>
  The steps in which no process is created while the exit of the child is pending, and what holds after
  the exit: its closure was sent since the first \<open>n\<close> messages, or the session is in the table and the signal
  is pending or its thread was started, on the right object.
\<close>

definition exit_step :: "'s s3 \<Rightarrow> nat \<Rightarrow> int \<Rightarrow> 's worker_system \<Rightarrow> 's worker_system \<Rightarrow> bool" where
  "exit_step api j pid s t \<longleftrightarrow> worker_step api s t \<and> (pending t = Some pid \<longrightarrow> instance_slot t = Some j)"

definition closure_sent :: "nat \<Rightarrow> process_note \<Rightarrow> (nat \<times> bytes) list \<Rightarrow> bool" where
  "closure_sent j note notes \<longleftrightarrow> (\<exists>msg. (j, msg) \<in> set notes \<and> note_decode msg = Some note)"

definition exit_known :: "nat \<Rightarrow> int \<Rightarrow> S3Swapper \<Rightarrow> SessionFork \<Rightarrow> nat \<Rightarrow> 's worker_system \<Rightarrow> bool" where
  "exit_known j pid sw f n s \<longleftrightarrow> n \<le> length (sent_notes s) \<and> (pending s = Some pid \<longrightarrow> instance_slot s = Some j) \<and>
     (closure_sent j (closing_note sw f) (drop n (sent_notes s)) \<or>
      tracked j pid sw f s \<and> (pending s = Some pid \<or> (Some j, pid) \<in> set (deletions s)))"

lemma pending_signal:
  assumes "worker_step api s t" and "pending s = Some pid" and "instance_slot s = Some j"
  shows "pending t = Some pid \<or> (Some j, pid) \<in> set (deletions t)"
  using assms by cases (auto simp: session_shutdown_handler_def run_deletion_def split: option.splits prod.splits)

lemma exit_known_machine:
  assumes "id16 (fork_session_id f)"
  shows "invariant_machine (exit_step api j pid) (exit_known j pid sw f n)"
proof
  fix s t assume e: "exit_step api j pid s t" and k: "exit_known j pid sw f n s"
  then have step: "worker_step api s t" and inst: "pending t = Some pid \<longrightarrow> instance_slot t = Some j"
    by (simp_all add: exit_step_def)
  obtain ys where ys: "sent_notes t = sent_notes s @ ys" using step_notes [OF step] by blast
  have n: "n \<le> length (sent_notes s)" using k by (simp add: exit_known_def)
  show "exit_known j pid sw f n t"
  proof (cases "closure_sent j (closing_note sw f) (drop n (sent_notes s))")
    case True
    with n ys inst show ?thesis by (auto simp: exit_known_def closure_sent_def)
  next
    case False
    with k have tr: "tracked j pid sw f s" and p: "pending s = Some pid \<or> (Some j, pid) \<in> set (deletions s)"
      and i: "pending s = Some pid \<longrightarrow> instance_slot s = Some j" by (simp_all add: exit_known_def)
    from step_tracked [OF step tr assms] show ?thesis
    proof
      assume t: "tracked j pid sw f t \<and> set (deletions s) \<inter> {(Some j, pid)} \<subseteq> set (deletions t)"
      with p i pending_signal [OF step] have "pending t = Some pid \<or> (Some j, pid) \<in> set (deletions t)" by blast
      with t n ys inst show ?thesis by (simp add: exit_known_def)
    qed (use n inst in \<open>auto simp: exit_known_def closure_sent_def\<close>)
  qed
qed

lemma exit_can_be_reported:
  assumes "tracked j pid sw f s" and "id16 (fork_session_id f)"
    and "pending s = Some pid \<and> instance_slot s = Some j \<or> (Some j, pid) \<in> set (deletions s)"
  shows "\<exists>t msg p p'. reaches (worker_step api) s t \<and> sent_notes t = sent_notes s @ [(j, msg)] \<and>
    note_decode msg = Some (closing_note sw f) \<and> slot s j = Some p \<and> slot t j = Some p' \<and>
    sessions p' = remove1 f (sessions p) \<and> unreaped t = unreaped s - {pid} \<and> (\<forall>k. k \<noteq> j \<longrightarrow> slot t k = slot s k)"
proof -
  let ?s = "if (Some j, pid) \<in> set (deletions s) then s else session_shutdown_handler pid (s\<lparr>pending := None\<rparr>)"
  have same: "slot ?s k = slot s k" "sent_notes ?s = sent_notes s" "unreaped ?s = unreaped s" for k
    by (simp_all add: session_shutdown_handler_def)
  then have tr: "tracked j pid sw f ?s" using assms(1) by (simp add: tracked_def)
  have r: "reaches (worker_step api) s ?s"
    using assms(3) worker_step.signal [of s pid api] by (auto intro: reaches_refl reaches_step [where step = "worker_step api", OF reaches_refl])
  have "(Some j, pid) \<in> set (deletions ?s)" using assms(3) by (auto simp: session_shutdown_handler_def)
  then obtain i where i: "i < length (deletions ?s)" "deletions ?s ! i = (Some j, pid)" unfolding in_set_conv_nth by blast
  obtain u msg p p' where u: "run_deletion api (Some j) pid ?s = Inr u" "sent_notes u = sent_notes ?s @ [(j, msg)]"
    "note_decode msg = Some (closing_note sw f)" "slot ?s j = Some p" "slot u j = Some p'" "sessions p' = remove1 f (sessions p)"
    "unreaped u = unreaped ?s - {pid}" "\<forall>k. k \<noteq> j \<longrightarrow> slot u k = slot ?s k"
    using tracked_deletion [OF tr assms(2), of api] by (elim exE conjE) (rule that)
  let ?t = "u\<lparr>deletions := take i (deletions ?s) @ drop (Suc i) (deletions ?s)\<rparr>"
  have "reaches (worker_step api) s ?t"
    by (rule reaches_step [where step = "worker_step api", OF r worker_step.deletion [OF i u(1)]])
  then show ?thesis using u same by (intro exI [of _ ?t] exI [of _ msg] exI [of _ p] exI [of _ p']) simp
qed

section \<open>Properties\<close>

text \<open>
  C23: the exit of a session is reported while its process is the one created last, if no other exit is pending
  when the child ends. After the exit, and for as long as no process is created before the signal is delivered,
  every state has the closure of exactly that session, with the number of swapped bytes, among the messages
  sent since, or has the session in the table and the exit known, as a pending signal or a started thread; and from
  each of these states the signal and the thread can run, which sends that closure, takes that
  session and no other out of the table, and reaps the child.
\<close>

theorem exit_reported:
  assumes "slot s j = Some p" and "session_of pid p = Some f" and "id16 (fork_session_id f)"
    and "instance_slot s = Some j" and "pending s = None" and "pid \<in> running s"
    and "reaches (exit_step api j pid) (s\<lparr>running := running s - {pid}, pending := Some pid\<rparr>) t"
  shows "worker_step api s (s\<lparr>running := running s - {pid}, pending := Some pid\<rparr>) \<and>
    (closure_sent j (closing_note (swapper p) f) (drop (length (sent_notes s)) (sent_notes t)) \<or>
     (pending t = Some pid \<or> (Some j, pid) \<in> set (deletions t)) \<and>
     (\<exists>u msg q q'. reaches (worker_step api) t u \<and> sent_notes u = sent_notes t @ [(j, msg)] \<and>
        note_decode msg = Some (closing_note (swapper p) f) \<and> slot t j = Some q \<and> session_of pid q = Some f \<and>
        slot u j = Some q' \<and> sessions q' = remove1 f (sessions q) \<and> unreaped u = unreaped t - {pid} \<and>
        (\<forall>k. k \<noteq> j \<longrightarrow> slot u k = slot t k)))"
proof -
  let ?s = "s\<lparr>running := running s - {pid}, pending := Some pid\<rparr>"
  have "worker_step api s ?s" using worker_step.child_exit [OF assms(6), of api] assms(5) by simp
  moreover have "exit_known j pid (swapper p) f (length (sent_notes s)) ?s"
    using assms(1,2,4) by (simp add: exit_known_def tracked_def)
  then have k: "exit_known j pid (swapper p) f (length (sent_notes s)) t"
    by (rule invariant_machine.reaches_inv [OF exit_known_machine [OF assms(3)] assms(7)])
  show ?thesis
  proof (cases "closure_sent j (closing_note (swapper p) f) (drop (length (sent_notes s)) (sent_notes t))")
    case False
    with k have tr: "tracked j pid (swapper p) f t" and kn: "pending t = Some pid \<or> (Some j, pid) \<in> set (deletions t)"
      and inst: "pending t = Some pid \<longrightarrow> instance_slot t = Some j" by (simp_all add: exit_known_def)
    from tr obtain q where "slot t j = Some q" "session_of pid q = Some f" by (auto simp: tracked_def)
    moreover have "pending t = Some pid \<and> instance_slot t = Some j \<or> (Some j, pid) \<in> set (deletions t)" using kn inst by blast
    note exit_can_be_reported [OF tr assms(3) this, of api]
    ultimately show ?thesis using \<open>worker_step api s ?s\<close> kn by (elim exE conjE) auto
  qed (use \<open>worker_step api s ?s\<close> in blast)
qed

text \<open>
  C24: the exit of a session is never reported once another process was created. A session of a process
  that \<open>_instance\<close> does not designate stays in the table of that process in every later state,
  whatever the process, its worker and its children do: no exit of its child removes it, its place is never
  free again, and its memory is neither swapped nor released.
\<close>

theorem older_process_keeps_session:
  assumes "holds_child j sid pid s" and "instance_slot s \<noteq> Some j" and "(Some j, pid) \<notin> set (deletions s)"
    and "reaches (worker_step api) s t"
  shows "holds_child j sid pid t \<and> instance_slot t \<noteq> Some j"
  using orphans.reaches_inv [OF assms(4), of j sid pid] assms(1-3) by (simp add: orphan_def)

text \<open>
  C25: of two sessions that exit before the signal is delivered, the second is never reported. In every
  state a worker can reach in which the exit of a child is pending, a second child that exits leaves its
  session in the table for ever, and the child is never reaped.
\<close>

theorem second_exit_lost:
  assumes "reaches (worker_step api) (worker_system_init n hp sw st os) s"
    and "pending s = Some q" and "pid \<in> running s" and "holds_child j sid pid s"
    and "reaches (worker_step api) (s\<lparr>running := running s - {pid}\<rparr>) t"
  shows "worker_step api s (s\<lparr>running := running s - {pid}\<rparr>) \<and> holds_child j sid pid t \<and> pid \<in> unreaped t"
proof -
  have "exits_ok (worker_system_init n hp sw st os)"
    by (simp add: exits_ok_def known_exits_def worker_system_init_def)
  then have ok: "exits_ok s" by (rule exits.reaches_inv [OF assms(1)])
  then have "forgotten j sid pid (s\<lparr>running := running s - {pid}\<rparr>)"
    using assms(3,4) by (auto simp: forgotten_def exits_ok_def known_exits_def holds_child_def)
  then have "forgotten j sid pid t" by (rule forgotten.reaches_inv [OF assms(5)])
  moreover have same: "s\<lparr>running := running s - {pid}, pending := Some q\<rparr> = s\<lparr>running := running s - {pid}\<rparr>"
    using assms(2) by (cases s) simp
  have "worker_step api s (s\<lparr>running := running s - {pid}\<rparr>)"
    using worker_step.child_exit [OF assms(3), of api] assms(2) by (simp add: same)
  ultimately show ?thesis by (simp add: forgotten_def)
qed

text \<open>
  When \<open>create\<close> cannot connect, it has destroyed the object the pointer designates: until the next
  process is created, every thread of the handler runs on a destroyed object.
\<close>

lemma failed_start_dangles:
  fixes inp :: lw_in
  assumes "\<not> li_ending inp" and "li_n inp = int Request_EXPECTED_LENGTH" and "\<not> li_accepted inp"
    and "None \<in> set (lw_processes (lworker s))" and "\<not> lw_ending (lworker s)"
  shows "\<exists>t i. worker_step api s t \<and> instance_slot t = Some i \<and> lworker t = lworker s \<and>
    run_deletion api (instance_slot t) pid t = Inl Destroyed_Instance"
proof -
  let ?i = "find_pos (\<lambda>x. x = None) (lw_processes (lworker s))"
  have i: "?i \<noteq> length (lw_processes (lworker s))"
    using assms(4) find_pos_full [of "\<lambda>x. x = None" "lw_processes (lworker s)"] by blast
  then have lt: "?i < length (lw_processes (lworker s))" using find_pos_le le_neq_implies_less by blast
  have none: "Process_create (li_bucket inp) (li_accepted inp) (ProcessRequest_process_id (li_data inp))
      (lw_hole_puncher (lworker s)) (ProcessRequest_max_sessions (li_data inp)) (lw_enable_swapping (lworker s)) = None"
    using assms(3) by (simp add: Process_create_None)
  have turn: "local_worker_turn inp (lworker s) = Continue (lworker s, Some 2)"
    using assms(1,2) i none by (simp add: local_worker_turn_def Let_def Request_EXPECTED_LENGTH_def)
  have inst: "instance_after inp (lworker s) (instance_slot s) = Some ?i" using assms(1,2) i by (simp add: instance_after_def)
  have "slot s ?i = None" using lt find_pos_nth [OF lt] by (simp add: slot_def)
  with worker_step.accept [OF assms(5) turn, of api, unfolded inst] show ?thesis
    by (intro exI [of _ "s\<lparr>lworker := lworker s, instance_slot := Some ?i\<rparr>"] exI [of _ ?i]) (simp add: run_deletion_def)
qed

section \<open>A run of the worker\<close>

text \<open>A request of one KiB for a new session, with system calls that succeed.\<close>

lemma forking_step:
  assumes "slot s j = Some p" and "\<not> ending p" and "length (sessions p) < max_sessions_size p" and "id16 sid"
    and "sid \<notin> fork_session_id ` set (sessions p)" and "0 < pid" and "pid \<notin> unreaped s" and "pid \<notin> children p"
  shows "\<exists>t f. worker_step api s t \<and> slot t j = Some (p\<lparr>sessions := sessions p @ [f]\<rparr>) \<and> fork_session_id f = sid \<and>
    child_pid f = pid \<and> running t = insert pid (running s) \<and> unreaped t = insert pid (unreaped s) \<and>
    instance_slot t = instance_slot s \<and> pending t = pending s \<and> deletions t = deletions s \<and> lw_ending (lworker t) = lw_ending (lworker s) \<and>
    length (lw_processes (lworker t)) = length (lw_processes (lworker s)) \<and> (\<forall>k. k \<noteq> j \<longrightarrow> slot t k = slot s k)"
proof -
  let ?m = "(sid, 1 :: i32, 1 :: i32)"
  obtain buf where buf: "RecvMessageBuffer_parse (session_request_encode ?m) (int Recv_EXPECTED_LENGTH) = Some (SessionRequestMsg buf)"
    and m: "SessionRequestMsg_session_id buf = sid" "SessionRequestMsg_memory_size buf = 1"
    using parse_session_request [of ?m] assms(4) by auto
  obtain mem os1 where c: "SharedMemory_create api (swapper p) (storage s) good_env sid 1 (system s) = (Some mem, os1)"
    by (simp add: SharedMemory_create_def good_env_def map_segment_def Let_def)
  let ?f = "(requested buf)\<lparr>child_pid := pid, memory := mem\<rparr>"
  let ?t = "\<lparr>t_ending = False, t_size = int Recv_EXPECTED_LENGTH, t_data = session_request_encode ?m, t_env = good_env, t_pid = pid\<rparr>"
  have "find (\<lambda>x. fork_session_id x = sid) (sessions p) = None" using assms(5) by (auto simp: find_None)
  then have "\<exists>argv. allocate_session api (storage s) good_env pid ''c'' buf p (system s) =
      (SUCCESS, p\<lparr>sessions := sessions p @ [?f]\<rparr>, argv, os1)"
    using assms(3) c m by (simp add: allocate_session_def SessionFork_fork_def SessionFork_init_def SharedMemory_assign_eq Let_def)
  then obtain out where turn: "process_turn api (storage s) ''c'' ?t p (system s) = Continue (p\<lparr>sessions := sessions p @ [?f]\<rparr>, os1, out)"
    using buf by (auto simp: process_turn_def Recv_EXPECTED_LENGTH_def simp del: session_request_encode.simps)
  have new: "children (p\<lparr>sessions := sessions p @ [?f]\<rparr>) - children p = {pid}" using assms(6,8) by (auto simp: children_def)
  let ?u = "set_slot j (p\<lparr>sessions := sessions p @ [?f]\<rparr>) s\<lparr>system := os1, running := running s \<union> {pid},
      unreaped := unreaped s \<union> {pid}, sent_notes := sent_notes s @ map (Pair j) out\<rparr>"
  have "worker_step api s ?u" using worker_step.request [OF assms(1,2) _ turn] assms(7) by (simp add: new)
  moreover have "lw_ending (lworker ?u) = lw_ending (lworker s)"
    "length (lw_processes (lworker ?u)) = length (lw_processes (lworker s))" by (simp_all add: set_slot_def)
  ultimately show ?thesis
    using assms(1) m(1) by (intro exI [of _ ?u] exI [of _ ?f]) (simp add: slot_set_slot SessionFork_init_def)
qed

definition demo_start :: lw_in where
  "demo_start = \<lparr>li_ending = False, li_n = 39,
     li_data = snd (ProcessRequest_fill 4 8000 ''10.0.0.1'' ''0123456789abcdef'' Request_init), li_bucket = None,
     li_accepted = True\<rparr>"

lemma starting_step:
  assumes "\<not> lw_ending (lworker s)" and "i < length (lw_processes (lworker s))" and "slot s i = None"
    and "\<forall>k<i. slot s k \<noteq> None"
  shows "\<exists>t p. worker_step api s t \<and> slot t i = Some p \<and> sessions p = [] \<and> \<not> ending p \<and> max_sessions_size p = 4 \<and>
    instance_slot t = Some i \<and> running t = running s \<and> unreaped t = unreaped s \<and> pending t = pending s \<and>
    deletions t = deletions s \<and> \<not> lw_ending (lworker t) \<and>
    length (lw_processes (lworker t)) = length (lw_processes (lworker s)) \<and> (\<forall>k. k \<noteq> i \<longrightarrow> slot t k = slot s k)"
proof -
  have pos: "find_pos (\<lambda>x. x = None) (lw_processes (lworker s)) = i"
    using assms(2-4) by (intro find_posI) (auto simp: slot_def split: if_splits)
  obtain p where p: "Process_create (li_bucket demo_start) (li_accepted demo_start) (ProcessRequest_process_id (li_data demo_start))
      (lw_hole_puncher (lworker s)) (ProcessRequest_max_sessions (li_data demo_start)) (lw_enable_swapping (lworker s)) = Some p"
    using Process_create_None [of "li_bucket demo_start" "li_accepted demo_start"] by (metis demo_start_def lw_in.select_convs(5) not_None_eq)
  have "ProcessRequest_max_sessions (li_data demo_start) = 4"
    unfolding demo_start_def lw_in.simps
    by (rule process_request_fields(1)) (simp add: Request_init_def Request_EXPECTED_LENGTH_def)
  with p have pf: "sessions p = []" "\<not> ending p" "max_sessions p = 4"
    by (auto simp: Process_create_def Process_connect_def Process_init_def S3Swapper_enable_swapping_def Let_def split: if_splits)
  then have "max_sessions_size p = 4" by (simp add: max_sessions_size_def)
  moreover have "local_worker_turn demo_start (lworker s) = Continue ((lworker s)\<lparr>lw_processes := (lw_processes (lworker s))[i := Some p],
      lw_threads := (lw_threads (lworker s))[i := True]\<rparr>, Some 0)"
    using pos p assms(2) by (simp add: local_worker_turn_def Let_def Request_EXPECTED_LENGTH_def) (simp add: demo_start_def)
  note worker_step.accept [OF assms(1) this, of api]
  moreover have "instance_after demo_start (lworker s) (instance_slot s) = Some i"
    using pos assms(2) by (simp add: instance_after_def demo_start_def Request_EXPECTED_LENGTH_def)
  ultimately show ?thesis
    using pf assms(1,2) by (intro exI conjI) (assumption | simp add: slot_def)+
qed

abbreviation demo_worker :: "(string \<times> string \<rightharpoonup> bytes) worker_system" where
  "demo_worker \<equiv> worker_system_init 2 ''h'' False Map.empty empty_os"

lemma demo_children:
  "\<exists>s p f g. reaches (worker_step map_s3) demo_worker s \<and> slot s 0 = Some p \<and>
     sessions p = [f, g] \<and> fork_session_id f = ''0123456789abcdef'' \<and> child_pid f = 7 \<and>
     fork_session_id g = ''fedcba9876543210'' \<and> child_pid g = 8 \<and> instance_slot s = Some 0 \<and> running s = {7, 8} \<and>
     pending s = None \<and> deletions s = [] \<and> slot s 1 = None \<and> length (lw_processes (lworker s)) = 2 \<and> \<not> lw_ending (lworker s)"
proof -
  let ?step = "worker_step map_s3" and ?s0 = "demo_worker"
  have 0: "\<not> lw_ending (lworker ?s0)" "(0 :: nat) < length (lw_processes (lworker ?s0))" "slot ?s0 0 = None" "\<forall>k<0. slot ?s0 k \<noteq> None"
    "slot ?s0 1 = None" "length (lw_processes (lworker ?s0)) = 2" "running ?s0 = {}" "unreaped ?s0 = {}" "pending ?s0 = None"
    "deletions ?s0 = []"
    by (simp_all add: worker_system_init_def local_worker_init_def slot_def)
  obtain s1 p where s1: "?step ?s0 s1" "slot s1 0 = Some p" "sessions p = []" "\<not> ending p" "max_sessions_size p = 4"
    "instance_slot s1 = Some 0" "running s1 = running ?s0" "unreaped s1 = unreaped ?s0" "pending s1 = pending ?s0"
    "deletions s1 = deletions ?s0" "\<not> lw_ending (lworker s1)"
    "length (lw_processes (lworker s1)) = length (lw_processes (lworker ?s0))" "\<forall>k. k \<noteq> 0 \<longrightarrow> slot s1 k = slot ?s0 k"
    using starting_step [OF 0(1-4), of map_s3] by (elim exE conjE) (rule that)
  have p1: "length (sessions p) < max_sessions_size p" "''0123456789abcdef'' \<notin> fork_session_id ` set (sessions p)"
    "7 \<notin> unreaped s1" "7 \<notin> children p" and ids: "id16 ''0123456789abcdef''" "id16 ''fedcba9876543210''"
    using s1(3,5,8) 0(8) by (simp_all add: children_def id16_def)
  obtain s2 f where s2: "?step s1 s2" "slot s2 0 = Some (p\<lparr>sessions := sessions p @ [f]\<rparr>)"
    "fork_session_id f = ''0123456789abcdef''" "child_pid f = 7" "running s2 = insert 7 (running s1)"
    "unreaped s2 = insert 7 (unreaped s1)" "instance_slot s2 = instance_slot s1" "pending s2 = pending s1"
    "deletions s2 = deletions s1" "lw_ending (lworker s2) = lw_ending (lworker s1)"
    "length (lw_processes (lworker s2)) = length (lw_processes (lworker s1))" "\<forall>k. k \<noteq> 0 \<longrightarrow> slot s2 k = slot s1 k"
    using forking_step [OF s1(2,4) p1(1) ids(1) p1(2) zero_less_numeral p1(3,4), of map_s3] by (elim exE conjE) (rule that)
  let ?p = "p\<lparr>sessions := sessions p @ [f]\<rparr>"
  have p2: "\<not> ending ?p" "length (sessions ?p) < max_sessions_size ?p" "''fedcba9876543210'' \<notin> fork_session_id ` set (sessions ?p)"
    "8 \<notin> unreaped s2" "8 \<notin> children ?p"
    using s1(3-5,8) s2(3,4,6) 0(8) by (simp_all add: max_sessions_size_def children_def)
  obtain s3 g where s3: "?step s2 s3" "slot s3 0 = Some (?p\<lparr>sessions := sessions ?p @ [g]\<rparr>)"
    "fork_session_id g = ''fedcba9876543210''" "child_pid g = 8" "running s3 = insert 8 (running s2)"
    "instance_slot s3 = instance_slot s2" "pending s3 = pending s2" "deletions s3 = deletions s2"
    "lw_ending (lworker s3) = lw_ending (lworker s2)"
    "length (lw_processes (lworker s3)) = length (lw_processes (lworker s2))" "\<forall>k. k \<noteq> 0 \<longrightarrow> slot s3 k = slot s2 k"
    using forking_step [OF s2(2) p2(1,2) ids(2) p2(3) zero_less_numeral p2(4,5), of map_s3] by (elim exE conjE) (rule that)
  have "reaches ?step ?s0 s3"
    by (intro reaches_step [where step = ?step, OF _ s3(1)] reaches_step [where step = ?step, OF _ s2(1)]
        reaches_step [where step = ?step, OF _ s1(1)] reaches_refl)
  moreover have "slot s3 1 = None" using s3(11) s2(12) s1(13) 0(5) by simp
  moreover have "running s3 = {7, 8}" using s3(5) s2(5) s1(7) 0(7) by auto
  ultimately show ?thesis
    using s1 s2 s3 0(6,9,10) by (intro exI [of _ s3] exI [of _ "?p\<lparr>sessions := sessions ?p @ [g]\<rparr>"] exI [of _ f] exI [of _ g]) simp
qed

theorem exit_reported_witness:
  "\<exists>s t msg. reaches (worker_step map_s3) demo_worker s \<and>
     reaches (worker_step map_s3) s t \<and> sent_notes t = sent_notes s @ [(0, msg)] \<and>
     (\<exists>n. note_decode msg = Some (Session_Closed n ''0123456789abcdef''))"
proof -
  obtain s p f g where s: "reaches (worker_step map_s3) demo_worker s" "slot s 0 = Some p"
    "sessions p = [f, g]" "fork_session_id f = ''0123456789abcdef''" "child_pid f = 7" "instance_slot s = Some 0"
    "running s = {7, 8}" "pending s = None" using demo_children by blast
  let ?s1 = "s\<lparr>running := running s - {7}, pending := Some 7\<rparr>"
  have i: "session_of 7 p = Some f" "id16 (fork_session_id f)" "7 \<in> running s" using s by (simp_all add: id16_def)
  note e = exit_reported [OF s(2) i(1,2) s(6,8) i(3) reaches_refl [of "exit_step map_s3 0 7"]]
  have "\<not> closure_sent 0 (closing_note (swapper p) f) (drop (length (sent_notes s)) (sent_notes ?s1))"
    by (simp add: closure_sent_def)
  with e obtain t msg where t: "worker_step map_s3 s ?s1" "reaches (worker_step map_s3) ?s1 t"
    "sent_notes t = sent_notes s @ [(0, msg)]" "note_decode msg = Some (closing_note (swapper p) f)" by auto
  have "reaches (worker_step map_s3) s t"
    using t(1,2) by (rule reaches_trans [OF reaches_step [where step = "worker_step map_s3", OF reaches_refl]])
  with s(1,4) t(3,4) show ?thesis by (intro exI conjI) (assumption | simp add: closing_note_def)+
qed

theorem older_process_keeps_session_witness:
  "\<exists>s t. reaches (worker_step map_s3) demo_worker s \<and>
     reaches (worker_step map_s3) s t \<and> deletions t = [(Some 1, 7)] \<and> holds_child 0 ''0123456789abcdef'' 7 t"
proof -
  let ?step = "worker_step map_s3"
  obtain s p f g where s: "reaches ?step demo_worker s" "slot s 0 = Some p"
    "sessions p = [f, g]" "fork_session_id f = ''0123456789abcdef''" "child_pid f = 7" "running s = {7, 8}" "pending s = None"
    "deletions s = []" "slot s 1 = None" "length (lw_processes (lworker s)) = 2" "\<not> lw_ending (lworker s)"
    using demo_children by blast
  obtain s1 where s1: "?step s s1" "slot s1 0 = Some p" "instance_slot s1 = Some 1" "running s1 = {7, 8}" "pending s1 = None" "deletions s1 = []"
    using starting_step [OF s(11), of 1 map_s3] s(2,6-10) by (auto simp del: One_nat_def)
  have holds: "holds_child 0 ''0123456789abcdef'' 7 s1" using s1(2) s(3-5) by (simp add: holds_child_def)
  let ?s2 = "s1\<lparr>running := {8}, pending := Some 7\<rparr>"
  have 2: "?step s1 ?s2" using worker_step.child_exit [of 7 s1 map_s3] s1(4,5) by (simp add: insert_Diff_if)
  have 3: "?step ?s2 (session_shutdown_handler 7 (?s2\<lparr>pending := None\<rparr>))" by (rule worker_step.signal) simp
  have r: "reaches ?step s1 (session_shutdown_handler 7 (?s2\<lparr>pending := None\<rparr>))"
    by (intro reaches_step [where step = ?step, OF _ 3] reaches_step [where step = ?step, OF _ 2] reaches_refl)
  have "holds_child 0 ''0123456789abcdef'' 7 (session_shutdown_handler 7 (?s2\<lparr>pending := None\<rparr>))"
    using older_process_keeps_session [OF holds _ _ r] s1(3,6) by simp
  moreover have "deletions (session_shutdown_handler 7 (?s2\<lparr>pending := None\<rparr>)) = [(Some 1, 7)]"
    using s1(3,6) by (simp add: session_shutdown_handler_def)
  ultimately show ?thesis using reaches_step [where step = ?step, OF s(1) s1(1)] r by blast
qed

theorem second_exit_lost_witness:
  "\<exists>s t. reaches (worker_step map_s3) demo_worker s \<and> pending s = Some 7 \<and> worker_step map_s3 s t \<and>
     running t = {} \<and> holds_child 0 ''fedcba9876543210'' 8 t \<and> 8 \<in> unreaped t"
proof -
  let ?step = "worker_step map_s3"
  obtain s p f g where s: "reaches ?step demo_worker s" "slot s 0 = Some p" "sessions p = [f, g]"
    "fork_session_id g = ''fedcba9876543210''" "child_pid g = 8" "running s = {7, 8}" "pending s = None"
    using demo_children by blast
  let ?s1 = "s\<lparr>running := {8}, pending := Some 7\<rparr>"
  have "?step s ?s1" using worker_step.child_exit [of 7 s map_s3] s(6,7) by (simp add: insert_Diff_if)
  then have r: "reaches ?step demo_worker ?s1" by (rule reaches_step [where step = ?step, OF s(1)])
  have "pending ?s1 = Some 7" "8 \<in> running ?s1" "holds_child 0 ''fedcba9876543210'' 8 ?s1"
    using s(2-5) by (simp_all add: holds_child_def)
  note second_exit_lost [OF r this reaches_refl [where step = ?step]]
  with r show ?thesis by (intro exI [of _ ?s1] exI [of _ "?s1\<lparr>running := running ?s1 - {8}\<rparr>"]) simp
qed

end
