(* ===== verification/Signals.thy ===== *)
theory Signals
  imports Startup Service_Loops Child_Exits
begin

text \<open>
  The life of a program from its \<open>main\<close> to its end: the signal handlers the \<open>cli.cpp\<close> files install,
  what they do while the program starts and while it serves, and with which code it ends. The loops
  are those of \<open>Service_Loops\<close>; a run is a sequence of turns of the loop and signals, in any order.
\<close>

section \<open>Dispositions\<close>

datatype signal = SIGSEGV | SIGTERM | SIGPIPE | SIGBUS | SIGINT | SIGCHLD

text \<open>
  What a signal does: the default action, \<open>handler\<close> (a backtrace and \<open>exit(1)\<close>), \<open>signal_handler\<close>
  (\<open>shutdown\<close> of the instance) and \<open>session_shutdown_handler\<close>.
\<close>

datatype action = SIG_DFL | Crash_Handler | Interrupt_Handler | Child_Handler

type_synonym dispositions = "signal \<Rightarrow> action"

definition sigaction :: "signal \<Rightarrow> action \<Rightarrow> dispositions \<Rightarrow> dispositions" where
  "sigaction sig act d = d(sig := act)"

definition session_signals :: "dispositions \<Rightarrow> dispositions" where
  "session_signals d = sigaction SIGPIPE Crash_Handler (sigaction SIGTERM Crash_Handler (sigaction SIGSEGV Crash_Handler d))"

definition local_memory_signals :: "dispositions \<Rightarrow> dispositions" where
  "local_memory_signals d = sigaction SIGINT Interrupt_Handler (sigaction SIGPIPE Crash_Handler
     (sigaction SIGTERM Crash_Handler (sigaction SIGSEGV Crash_Handler d)))"

definition process_exec_signals :: "dispositions \<Rightarrow> dispositions" where
  "process_exec_signals d = sigaction SIGINT Interrupt_Handler (sigaction SIGBUS Crash_Handler
     (sigaction SIGPIPE Crash_Handler (sigaction SIGTERM Crash_Handler (sigaction SIGSEGV Crash_Handler d))))"

definition server_signals :: "dispositions \<Rightarrow> dispositions" where
  "server_signals d = sigaction SIGINT Interrupt_Handler d"

text \<open>The constructor of \<open>Process\<close>.\<close>

definition Process_signals :: "dispositions \<Rightarrow> dispositions" where
  "Process_signals d = sigaction SIGCHLD Child_Handler d"

section \<open>Programs\<close>

text \<open>
  A program before \<open>instance\<close> is set, in its loop, and ended: with a code, by the default action of a
  signal, by a failed assertion, or by an exception nobody caught.
\<close>

datatype 's program = Starting | Serving 's | Exited int | Killed signal | Assertion_Failed | Terminated

text \<open>
  The handler of \<open>SIGINT\<close> asserts that there is an instance, except in the local memory service,
  which ignores the signal until there is one.
\<close>

definition signal_handler :: "('s \<Rightarrow> 's) \<Rightarrow> 's program \<Rightarrow> 's program" where
  "signal_handler shutdown pr =
     (case pr of Starting \<Rightarrow> Assertion_Failed | Serving s \<Rightarrow> Serving (shutdown s) | _ \<Rightarrow> pr)"

definition local_memory_signal_handler :: "('s \<Rightarrow> 's) \<Rightarrow> 's program \<Rightarrow> 's program" where
  "local_memory_signal_handler shutdown pr = (case pr of Serving s \<Rightarrow> Serving (shutdown s) | _ \<Rightarrow> pr)"

text \<open>\<open>handler\<close>: whatever the program was doing, it ends with code 1.\<close>

definition crash_handler :: "'s program \<Rightarrow> 's program" where
  "crash_handler pr = (case pr of Starting \<Rightarrow> Exited 1 | Serving s \<Rightarrow> Exited 1 | _ \<Rightarrow> pr)"

fun default_action :: "signal \<Rightarrow> 's program \<Rightarrow> 's program" where
  "default_action sig Starting = (if sig = SIGCHLD then Starting else Killed sig)"
| "default_action sig (Serving s) = (if sig = SIGCHLD then Serving s else Killed sig)"
| "default_action sig pr = pr"

fun child_action :: "(int \<Rightarrow> 's \<Rightarrow> 's) \<Rightarrow> int \<Rightarrow> 's program \<Rightarrow> 's program" where
  "child_action child pid (Serving s) = Serving (child pid s)"
| "child_action child pid pr = pr"

text \<open>
  What happens to a program: a signal, with the process id it carries, or a turn of its loop. When the
  loop is left, \<open>finish\<close> is what becomes of \<open>main\<close>.
\<close>

datatype 'i event = Signal signal int | Turn 'i

fun program_event ::
  "dispositions \<Rightarrow> ('s program \<Rightarrow> 's program) \<Rightarrow> (int \<Rightarrow> 's \<Rightarrow> 's) \<Rightarrow> ('i \<Rightarrow> 's \<Rightarrow> 's loop_result) \<Rightarrow>
     ('s \<Rightarrow> 's program) \<Rightarrow> 'i event \<Rightarrow> 's program \<Rightarrow> 's program" where
  "program_event d interrupt child turn finish (Signal sig pid) pr =
     (case d sig of
        SIG_DFL \<Rightarrow> default_action sig pr
      | Crash_Handler \<Rightarrow> crash_handler pr
      | Interrupt_Handler \<Rightarrow> interrupt pr
      | Child_Handler \<Rightarrow> child_action child pid pr)"
| "program_event d interrupt child turn finish (Turn i) (Serving s) =
     (case turn i s of Break t \<Rightarrow> finish t | Continue t \<Rightarrow> Serving t)"
| "program_event d interrupt child turn finish (Turn i) pr = pr"

definition program_run ::
  "dispositions \<Rightarrow> ('s program \<Rightarrow> 's program) \<Rightarrow> (int \<Rightarrow> 's \<Rightarrow> 's) \<Rightarrow> ('i \<Rightarrow> 's \<Rightarrow> 's loop_result) \<Rightarrow>
     ('s \<Rightarrow> 's program) \<Rightarrow> 'i event list \<Rightarrow> 's program \<Rightarrow> 's program" where
  "program_run d interrupt child turn finish es pr = foldl (\<lambda>pr e. program_event d interrupt child turn finish e pr) pr es"

text \<open>A \<open>main\<close> that returns 0 after its loop.\<close>

definition main_returns :: "'s \<Rightarrow> 's program" where
  "main_returns s = Exited 0"

section \<open>The programs\<close>

text \<open>
  \<open>process_exec\<close>: the state of the process, the storage, the system and what was written. Its only
  process is the one \<open>_instance\<close> designates, and the thread of the handler is run at once.
\<close>

type_synonym 's exec_state = "Process \<times> 's \<times> os \<times> bytes list"

definition exec_head :: "'s s3 \<Rightarrow> string \<Rightarrow> turn \<Rightarrow> 's exec_state \<Rightarrow> 's exec_state loop_result" where
  "exec_head api peer t c =
     (case c of (p, st, os, outs) \<Rightarrow>
        case process_head api st peer t (p, os, outs) of
          Break (p, os, outs) \<Rightarrow> Break (p, st, os, outs)
        | Continue (p, os, outs) \<Rightarrow> Continue (p, st, os, outs))"

definition exec_child :: "'s s3 \<Rightarrow> int \<Rightarrow> 's exec_state \<Rightarrow> 's exec_state" where
  "exec_child api pid c =
     (case c of (p, st, os, outs) \<Rightarrow>
        case session_deleted api pid p st os of
          (msg, p, st, os) \<Rightarrow> (p, st, os, outs @ (case msg of None \<Rightarrow> [] | Some m \<Rightarrow> [m])))"

definition exec_shutdown :: "'s exec_state \<Rightarrow> 's exec_state" where
  "exec_shutdown c = (case c of (p, rest) \<Rightarrow> (Process_shutdown p, rest))"

definition exec_run :: "'s s3 \<Rightarrow> string \<Rightarrow> turn event list \<Rightarrow> 's exec_state program \<Rightarrow> 's exec_state program" where
  "exec_run api peer es pr =
     program_run (Process_signals (process_exec_signals (\<lambda>_. SIG_DFL))) (signal_handler exec_shutdown) (exec_child api)
       (exec_head api peer) main_returns es pr"

text \<open>
  \<open>main\<close> of \<open>process_exec\<close>: signals that arrive between the installation of the handlers and the
  assignment of \<open>instance\<close>, the creation of the process, the first message, and the loop.
\<close>

definition process_exec_life ::
  "cxxopts \<Rightarrow> 's s3 \<Rightarrow> i32 \<Rightarrow> string option \<Rightarrow> (string \<Rightarrow> i32 \<Rightarrow> bool) \<Rightarrow> string \<Rightarrow> string list \<Rightarrow> (signal \<times> int) list \<Rightarrow>
     turn event list \<Rightarrow> 's \<Rightarrow> os \<Rightarrow> 's exec_state program" where
  "process_exec_life cx api junk bucket connect peer argv early es st os =
     (case process_exec cx junk bucket connect argv of
        None \<Rightarrow> Terminated
      | Some process \<Rightarrow>
          (let pr = program_run (process_exec_signals (\<lambda>_. SIG_DFL)) (signal_handler exec_shutdown) (exec_child api)
                 (exec_head api peer) main_returns (map (\<lambda>(sig, pid). Signal sig pid) early) Starting
           in case pr of
                Starting \<Rightarrow>
                  (case process of
                     None \<Rightarrow> Exited 1
                   | Some p \<Rightarrow> exec_run api peer es
                       (Serving (p, st, os, [fill_process_identification (process_id p) SendMessage_init])))
              | _ \<Rightarrow> pr))"

text \<open>
  The HTTP server of the control plane, as far as its thread goes: \<open>run\<close> starts the thread, \<open>shutdown\<close> stops the
  server and joins it, and the destructor, which only destroys the \<open>std::thread\<close>, calls \<open>std::terminate\<close> when the
  thread was started and never joined.
\<close>

record HttpServer =
  server_thread :: bool

definition HttpServer_run :: "HttpServer \<Rightarrow> HttpServer" where
  "HttpServer_run h = h\<lparr>server_thread := True\<rparr>"

definition HttpServer_shutdown :: "HttpServer \<Rightarrow> HttpServer" where
  "HttpServer_shutdown h = (if server_thread h then h\<lparr>server_thread := False\<rparr> else h)"

text \<open>
  The control plane, once it serves: the server with its HTTP server. \<open>shutdown\<close> of the server ends with that of the
  HTTP server. A turn whose first input is true is one during which the handler of the interrupt ran.
\<close>

type_synonym 'r control_state = "'r server \<times> HttpServer"

definition control_shutdown :: "'r control_state \<Rightarrow> 'r control_state" where
  "control_shutdown c = (case c of (s, h) \<Rightarrow> (Server_shutdown s, HttpServer_shutdown h))"

definition control_head :: "bool \<times> poll \<Rightarrow> 'r control_state \<Rightarrow> 'r control_state loop_result" where
  "control_head i c =
     (case c of (s, h) \<Rightarrow>
        case server_head i s of
          Break t \<Rightarrow> Break (t, if fst i then HttpServer_shutdown h else h)
        | Continue t \<Rightarrow> Continue (t, h))"

definition control_finish :: "'r control_state \<Rightarrow> 'r control_state program" where
  "control_finish c = (case c of (s, h) \<Rightarrow> if server_thread h then Terminated else Exited 0)"

definition control_run :: "(bool \<times> poll) event list \<Rightarrow> 'r control_state program \<Rightarrow> 'r control_state program" where
  "control_run es pr =
     program_run (server_signals (\<lambda>_. SIG_DFL)) (signal_handler control_shutdown) (\<lambda>pid s. s) control_head control_finish es pr"

text \<open>The serving worker, once it serves.\<close>

definition serving_run ::
  "(bool \<times> int \<times> bytes) event list \<Rightarrow> (serving_worker \<times> i32 option list \<times> (nat \<times> bytes) list) program \<Rightarrow>
     (serving_worker \<times> i32 option list \<times> (nat \<times> bytes) list) program" where
  "serving_run es pr =
     program_run (server_signals (\<lambda>_. SIG_DFL)) (signal_handler (\<lambda>(s, rest). (serving_shutdown s, rest))) (\<lambda>pid s. s)
       serving_head main_returns es pr"

section \<open>When a program ends in order\<close>

definition harmless :: "dispositions \<Rightarrow> signal \<Rightarrow> bool" where
  "harmless d sig \<longleftrightarrow> d sig \<in> {Interrupt_Handler, Child_Handler} \<or> d sig = SIG_DFL \<and> sig = SIGCHLD"

text \<open>
  A turn that finds the flag set or an input that ends the loop, after harmless signals only; the flag is
  set from the beginning or by an interrupt before that turn.
\<close>

definition graceful :: "dispositions \<Rightarrow> ('i \<Rightarrow> bool) \<Rightarrow> bool \<Rightarrow> 'i event list \<Rightarrow> bool" where
  "graceful d final flagged es \<longleftrightarrow>
     (\<exists>pre i post. es = pre @ Turn i # post \<and> (\<forall>sig pid. Signal sig pid \<in> set pre \<longrightarrow> harmless d sig) \<and>
        (flagged \<or> final i \<or> (\<exists>sig pid. Signal sig pid \<in> set pre \<and> d sig = Interrupt_Handler)))"

lemma graceful_Nil [simp]: "\<not> graceful d final b []"
  by (simp add: graceful_def)

lemma graceful_Turn [simp]: "graceful d final b (Turn i # es) \<longleftrightarrow> b \<or> final i \<or> graceful d final b es"
proof
  assume "graceful d final b (Turn i # es)"
  then show "b \<or> final i \<or> graceful d final b es"
    unfolding graceful_def by (auto simp: Cons_eq_append_conv) blast+
next
  assume "b \<or> final i \<or> graceful d final b es"
  then show "graceful d final b (Turn i # es)"
  proof (elim disjE)
    assume "graceful d final b es"
    then obtain pre k post where "es = pre @ Turn k # post" "\<forall>sig pid. Signal sig pid \<in> set pre \<longrightarrow> harmless d sig"
      "b \<or> final k \<or> (\<exists>sig pid. Signal sig pid \<in> set pre \<and> d sig = Interrupt_Handler)" unfolding graceful_def by blast
    then show ?thesis unfolding graceful_def by (intro exI [of _ "Turn i # pre"] exI [of _ k] exI [of _ post]) auto
  qed (auto simp: graceful_def intro!: exI [of _ "[]"])
qed

lemma graceful_Signal [simp]:
  "graceful d final b (Signal sig pid # es) \<longleftrightarrow> harmless d sig \<and> graceful d final (b \<or> d sig = Interrupt_Handler) es"
proof
  assume "graceful d final b (Signal sig pid # es)"
  then show "harmless d sig \<and> graceful d final (b \<or> d sig = Interrupt_Handler) es"
    unfolding graceful_def by (auto simp: Cons_eq_append_conv) blast+
next
  assume "harmless d sig \<and> graceful d final (b \<or> d sig = Interrupt_Handler) es"
  then obtain pre k post where h: "harmless d sig" "es = pre @ Turn k # post" "\<forall>sig pid. Signal sig pid \<in> set pre \<longrightarrow> harmless d sig"
    "b \<or> d sig = Interrupt_Handler \<or> final k \<or> (\<exists>sig pid. Signal sig pid \<in> set pre \<and> d sig = Interrupt_Handler)"
    unfolding graceful_def by blast
  then show "graceful d final b (Signal sig pid # es)"
    unfolding graceful_def by (intro exI [of _ "Signal sig pid # pre"] exI [of _ k] exI [of _ post]) auto
qed

lemma server_dispositions:
  "harmless (server_signals (\<lambda>_. SIG_DFL)) sig \<longleftrightarrow> sig \<in> {SIGINT, SIGCHLD}"
  "server_signals (\<lambda>_. SIG_DFL) sig = Interrupt_Handler \<longleftrightarrow> sig = SIGINT"
  by (cases sig; simp add: harmless_def server_signals_def sigaction_def)+

definition ended :: "'s program \<Rightarrow> bool" where
  "ended pr \<longleftrightarrow> (case pr of Starting \<Rightarrow> False | Serving s \<Rightarrow> False | _ \<Rightarrow> True)"

lemma ended_event:
  assumes "ended pr"
  shows "program_event d (signal_handler shutdown) child turn finish e pr = pr"
  using assms by (cases e; cases pr) (auto simp: ended_def signal_handler_def crash_handler_def split: action.splits)

lemma program_run_Nil [simp]: "program_run d h c turn finish [] pr = pr"
  by (simp add: program_run_def)

lemma program_run_Cons [simp]: "program_run d h c turn finish (e # es) pr =
    program_run d h c turn finish es (program_event d h c turn finish e pr)"
  by (simp add: program_run_def)

lemma ended_run: "ended pr \<Longrightarrow> program_run d (signal_handler shutdown) child turn finish es pr = pr"
  by (induction es) (simp_all add: ended_event)

lemma handled_serving:
  "signal_handler shutdown (Serving s) = Serving (shutdown s)" "crash_handler (Serving s) = Exited 1"
  by (simp_all add: signal_handler_def crash_handler_def)

lemma ended_simps [simp]: "ended (Exited n)" "ended (Killed sig)"
  by (simp_all add: ended_def)

text \<open>A loop whose flag the handler of an interrupt sets and the handler of an exit keeps.\<close>

locale interruptible = service_loop turn flag final
  for turn :: "'i \<Rightarrow> 's \<Rightarrow> 's loop_result" and flag final +
  fixes shutdown :: "'s \<Rightarrow> 's"
    and child :: "int \<Rightarrow> 's \<Rightarrow> 's"
  assumes shutdown_flag: "flag (shutdown s)"
    and child_flag: "flag (child pid s) = flag s"
begin

lemma ends_in_order:
  "program_run d (signal_handler shutdown) child turn main_returns es (Serving s) = Exited 0 \<longleftrightarrow> graceful d final (flag s) es"
proof (induction es arbitrary: s)
  case (Cons e es)
  show ?case
  proof (cases e)
    case (Signal sig pid)
    then show ?thesis
      by (cases "d sig") (simp_all add: Cons.IH harmless_def handled_serving shutdown_flag child_flag ended_run)
  next
    case (Turn i)
    show ?thesis
    proof (cases "flag s \<or> final i")
      case True
      then show ?thesis using stops [OF True] Turn by (auto simp: ended_run main_returns_def)
    next
      case False
      then obtain t where "turn i s = Continue t" "\<not> flag t" using goes_on by blast
      with False Turn show ?thesis by (simp add: Cons.IH)
    qed
  qed
qed simp

end

interpretation exec_life: interruptible "exec_head api peer" "\<lambda>c. ending (fst c)" turn_final exec_shutdown "exec_child api"
  for api :: "'s s3" and peer
proof
  fix c :: "'s exec_state" and i pid
  obtain p st os outs where c: "c = (p, st, os, outs)" by (rule prod_cases4)
  show "\<exists>t. exec_head api peer i c = Break t" if "ending (fst c) \<or> turn_final i"
    using process_srv.stops [of "(p, os, outs)" i api st peer] that by (auto simp: c exec_head_def)
  show "\<exists>t. exec_head api peer i c = Continue t \<and> \<not> ending (fst t)" if "\<not> ending (fst c)" "\<not> turn_final i"
    using process_srv.goes_on [of "(p, os, outs)" i api st peer] that by (auto simp: c exec_head_def)
  show "ending (fst (exec_shutdown c))" by (simp add: c exec_shutdown_def Process_shutdown_def)
  show "ending (fst (exec_child api pid c)) = ending (fst c)"
    by (auto simp: c exec_child_def session_deleted_def Let_def split: prod.splits)
qed

interpretation serving_life: interruptible serving_head "\<lambda>c. sv_ending (fst c)" fst "\<lambda>(s, rest). (serving_shutdown s, rest)" "\<lambda>pid s. s"
  by unfold_locales (auto simp: serving_shutdown_def)

lemma starting_run:
  assumes "\<And>sig. d sig \<noteq> Child_Handler"
  shows "program_run d (signal_handler shutdown) child turn finish (map (\<lambda>(sig, pid). Signal sig pid) early) Starting = Starting \<longleftrightarrow>
    (\<forall>(sig, pid) \<in> set early. sig = SIGCHLD \<and> d sig = SIG_DFL)"
proof (induction early)
  case (Cons x xs)
  obtain sig pid where x: "x = (sig, pid)" by (cases x)
  show ?case
    using Cons.IH assms [of sig]
    by (cases "d sig") (auto simp: x crash_handler_def signal_handler_def [where pr = Starting] ended_run ended_def)
qed simp

lemma starting_run_code:
  "program_run d (signal_handler shutdown) child turn finish (map (\<lambda>(sig, pid). Signal sig pid) early) Starting \<noteq> Exited 0"
proof (induction early)
  case (Cons x xs)
  obtain sig pid where x: "x = (sig, pid)" by (cases x)
  show ?case
    using Cons.IH
    by (cases "d sig") (auto simp: x crash_handler_def signal_handler_def [where pr = Starting] ended_run ended_def)
qed simp

lemma process_exec_dispositions:
  "process_exec_signals (\<lambda>_. SIG_DFL) sig =
     (case sig of SIGINT \<Rightarrow> Interrupt_Handler | SIGCHLD \<Rightarrow> SIG_DFL | _ \<Rightarrow> Crash_Handler)"
  by (cases sig) (simp_all add: process_exec_signals_def sigaction_def)

lemma harmless_process_exec:
  "harmless (Process_signals (process_exec_signals (\<lambda>_. SIG_DFL))) sig \<longleftrightarrow> sig \<in> {SIGINT, SIGCHLD}"
  "Process_signals (process_exec_signals (\<lambda>_. SIG_DFL)) sig = Interrupt_Handler \<longleftrightarrow> sig = SIGINT"
  by (cases sig; simp add: harmless_def Process_signals_def process_exec_dispositions sigaction_def)+

lemma create_fresh: "Process_create bucket accepted pid hp n sw = Some p \<Longrightarrow> \<not> ending p"
  by (auto simp: Process_create_def Process_connect_def Process_init_def S3Swapper_enable_swapping_def Let_def split: if_splits)

lemma process_exec_fresh: "process_exec cx junk bucket connect argv = Some (Some p) \<Longrightarrow> \<not> ending p"
  by (auto simp: process_exec_def process_exec_main_def case_prod_beta Let_def dest: create_fresh)

section \<open>Properties\<close>

text \<open>
  C22: when \<open>process_exec\<close> ends with code 0. It does so exactly when its options are read and its process
  connects, no signal but \<open>SIGCHLD\<close> arrives before, and then, with no signals but interrupts and exits
  of sessions before it, its loop takes a turn after an interrupt or one in which it finds the end of the
  connection. Requests, failed reads, malformed messages and exits of sessions never end it.
\<close>

theorem process_exec_exits:
  "process_exec_life cx api junk bucket connect peer argv early es st os = Exited 0 \<longleftrightarrow>
     (\<exists>p. process_exec cx junk bucket connect argv = Some (Some p)) \<and> (\<forall>(sig, pid) \<in> set early. sig = SIGCHLD) \<and>
     (\<exists>pre i post. es = pre @ Turn i # post \<and> (\<forall>sig pid. Signal sig pid \<in> set pre \<longrightarrow> sig \<in> {SIGINT, SIGCHLD}) \<and>
        (t_ending i \<or> t_size i = 0 \<or> (\<exists>pid. Signal SIGINT pid \<in> set pre)))"
proof -
  let ?d = "process_exec_signals (\<lambda>_. SIG_DFL)"
  let ?pr = "program_run ?d (signal_handler exec_shutdown) (exec_child api) (exec_head api peer) main_returns
      (map (\<lambda>(sig, pid). Signal sig pid) early) Starting"
  have early: "?pr = Starting \<longleftrightarrow> (\<forall>(sig, pid) \<in> set early. sig = SIGCHLD)"
    using starting_run [of ?d exec_shutdown "exec_child api" "exec_head api peer" main_returns early]
    by (auto simp: process_exec_dispositions split: signal.splits)
  show ?thesis
  proof (cases "process_exec cx junk bucket connect argv")
    case (Some q)
    note code = starting_run_code [of ?d exec_shutdown "exec_child api" "exec_head api peer" main_returns early]
    show ?thesis
    proof (cases q)
      case None
      with Some code show ?thesis by (auto simp: process_exec_life_def Let_def split: program.splits)
    next
      case q: (Some p)
      let ?c = "(p, st, os, [fill_process_identification (process_id p) SendMessage_init])"
      have "\<not> ending p" using process_exec_fresh Some q by blast
      then have "exec_run api peer es (Serving ?c) = Exited 0 \<longleftrightarrow>
          graceful (Process_signals ?d) turn_final False es"
        using exec_life.ends_in_order [of "Process_signals ?d" api peer es ?c] by (simp add: exec_run_def)
      moreover have "process_exec_life cx api junk bucket connect peer argv early es st os = Exited 0 \<longleftrightarrow>
          ?pr = Starting \<and> exec_run api peer es (Serving ?c) = Exited 0"
        using code by (auto simp: process_exec_life_def Some q Let_def split: program.splits)
      ultimately show ?thesis
        using Some q by (simp add: early graceful_def harmless_process_exec turn_final_def)
    qed
  qed (simp add: process_exec_life_def)
qed

text \<open>
  The control plane ends in order only through \<open>shutdown\<close>: by an interrupt, with no failure of \<open>epoll_wait\<close> before the
  turn that finds the flag. A failure before that leaves the loop with the thread of the HTTP server running, and
  the program is terminated.
\<close>

definition poll_failed :: "bool \<times> poll \<Rightarrow> bool" where
  "poll_failed i \<longleftrightarrow> (case snd i of Events es \<Rightarrow> False | Poll_Failed errno \<Rightarrow> errno \<noteq> EINVAL)"

fun shut_down :: "bool \<Rightarrow> (bool \<times> poll) event list \<Rightarrow> bool" where
  "shut_down b [] = False"
| "shut_down b (Turn i # es) = (b \<or> fst i \<or> \<not> poll_failed i \<and> shut_down b es)"
| "shut_down b (Signal sig pid # es) = (sig \<in> {SIGINT, SIGCHLD} \<and> shut_down (b \<or> sig = SIGINT) es)"

lemma control_head_cases:
  "srv_ending s \<Longrightarrow> control_head i (s, h) = Break (s, if fst i then HttpServer_shutdown h else h)"
  "\<not> srv_ending s \<Longrightarrow> fst i \<or> poll_failed i \<Longrightarrow> \<exists>t. control_head i (s, h) = Break (t, if fst i then HttpServer_shutdown h else h)"
  "\<not> srv_ending s \<Longrightarrow> \<not> fst i \<Longrightarrow> \<not> poll_failed i \<Longrightarrow> \<exists>t. control_head i (s, h) = Continue (t, h) \<and> \<not> srv_ending t"
  using server_srv.stops [of s i] server_srv.goes_on [of s i]
  by (auto simp: control_head_def poll_final_def poll_failed_def server_head_def)

lemma control_run_shut_down:
  "server_thread h = (\<not> srv_ending s) \<Longrightarrow> control_run es (Serving (s, h)) = Exited 0 \<longleftrightarrow> shut_down (srv_ending s) es"
proof (induction es arbitrary: s h)
  case (Cons e es)
  show ?case
  proof (cases e)
    case (Signal sig pid)
    have d: "server_signals (\<lambda>_. SIG_DFL) x = (if x = SIGINT then Interrupt_Handler else SIG_DFL)" for x
      by (simp add: server_signals_def sigaction_def)
    have "server_thread (HttpServer_shutdown h) = (\<not> srv_ending (Server_shutdown s))"
      by (simp add: HttpServer_shutdown_def Server_shutdown_def)
    from Cons.IH [OF this] Cons.IH [OF Cons.prems] show ?thesis
      by (cases sig) (simp_all add: Signal control_run_def d handled_serving control_shutdown_def ended_run Server_shutdown_def)
  next
    case (Turn i)
    have down: "\<not> server_thread (HttpServer_shutdown h)" by (simp add: HttpServer_shutdown_def)
    show ?thesis
    proof (cases "srv_ending s \<or> fst i \<or> poll_failed i")
      case True
      then obtain t where "control_head i (s, h) = Break (t, if fst i then HttpServer_shutdown h else h)"
        using control_head_cases(1,2) by blast
      then show ?thesis using True Cons.prems down
        by (auto simp: Turn control_run_def control_finish_def ended_run ended_def)
    next
      case False
      then obtain t where "control_head i (s, h) = Continue (t, h)" "\<not> srv_ending t" using control_head_cases(3) by blast
      then show ?thesis using False Cons.prems Cons.IH [of h t] by (simp add: Turn control_run_def)
    qed
  qed
qed (simp add: control_run_def)

lemma shut_down_append:
  assumes "\<forall>sig pid. Signal sig pid \<in> set pre \<longrightarrow> sig \<in> {SIGINT, SIGCHLD}" and "\<forall>j. Turn j \<in> set pre \<longrightarrow> \<not> poll_failed j"
    and "b \<or> fst i \<or> (\<exists>pid. Signal SIGINT pid \<in> set pre)"
  shows "shut_down b (pre @ Turn i # post)"
  using assms
proof (induction pre arbitrary: b)
  case (Cons e pre)
  have pre: "\<forall>sig pid. Signal sig pid \<in> set pre \<longrightarrow> sig \<in> {SIGINT, SIGCHLD}" "\<forall>j. Turn j \<in> set pre \<longrightarrow> \<not> poll_failed j"
    using Cons.prems(1,2) by (meson list.set_intros(2))+
  show ?case
  proof (cases e)
    case (Signal sig pid)
    then have "sig \<in> {SIGINT, SIGCHLD}" using Cons.prems(1) by (meson list.set_intros(1))
    moreover have "(b \<or> sig = SIGINT) \<or> fst i \<or> (\<exists>pid. Signal SIGINT pid \<in> set pre)" using Cons.prems(3) Signal by auto
    ultimately show ?thesis using Cons.IH [OF pre, of "b \<or> sig = SIGINT"] by (simp add: Signal)
  next
    case (Turn j)
    then have "\<not> poll_failed j" using Cons.prems(2) by (meson list.set_intros(1))
    moreover have "b \<or> fst i \<or> (\<exists>pid. Signal SIGINT pid \<in> set pre)" using Cons.prems(3) Turn by auto
    ultimately show ?thesis using Cons.IH [OF pre, of b] by (simp add: Turn)
  qed
qed auto

lemma shut_down_split:
  assumes "shut_down b es"
  obtains pre i post where "es = pre @ Turn i # post" and "\<forall>sig pid. Signal sig pid \<in> set pre \<longrightarrow> sig \<in> {SIGINT, SIGCHLD}"
    and "\<forall>j. Turn j \<in> set pre \<longrightarrow> \<not> poll_failed j" and "b \<or> fst i \<or> (\<exists>pid. Signal SIGINT pid \<in> set pre)"
  using assms
proof (induction b es arbitrary: thesis rule: shut_down.induct)
  case (2 b i es)
  show ?case
  proof (cases "b \<or> fst i")
    case True
    then show ?thesis using "2.prems"(1) [of "[]" i es] by simp
  next
    case False
    then have nf: "\<not> poll_failed i" and s: "shut_down b es" using "2.prems"(2) by simp_all
    from "2.IH" [OF _ s] obtain pre k post where "es = pre @ Turn k # post"
      "\<forall>sig pid. Signal sig pid \<in> set pre \<longrightarrow> sig \<in> {SIGINT, SIGCHLD}" "\<forall>j. Turn j \<in> set pre \<longrightarrow> \<not> poll_failed j"
      "b \<or> fst k \<or> (\<exists>pid. Signal SIGINT pid \<in> set pre)" using False nf by blast
    then show ?thesis using nf by (intro "2.prems"(1) [of "Turn i # pre" k post]) auto
  qed
next
  case (3 b sig pid es)
  then have sig: "sig \<in> {SIGINT, SIGCHLD}" and s: "shut_down (b \<or> sig = SIGINT) es" by simp_all
  from "3.IH" [OF _ s] obtain pre k post where "es = pre @ Turn k # post"
    "\<forall>sig pid. Signal sig pid \<in> set pre \<longrightarrow> sig \<in> {SIGINT, SIGCHLD}" "\<forall>j. Turn j \<in> set pre \<longrightarrow> \<not> poll_failed j"
    "(b \<or> sig = SIGINT) \<or> fst k \<or> (\<exists>pid. Signal SIGINT pid \<in> set pre)" by blast
  then show ?case using sig by (intro "3.prems"(1) [of "Signal sig pid # pre" k post]) auto
qed simp

lemma control_plane_exits:
  assumes "server_thread h" and "\<not> srv_ending s"
  shows "control_run es (Serving (s, h)) = Exited 0 \<longleftrightarrow>
     (\<exists>pre i post. es = pre @ Turn i # post \<and> (\<forall>sig pid. Signal sig pid \<in> set pre \<longrightarrow> sig \<in> {SIGINT, SIGCHLD}) \<and>
        (\<forall>j. Turn j \<in> set pre \<longrightarrow> \<not> poll_failed j) \<and> (fst i \<or> (\<exists>pid. Signal SIGINT pid \<in> set pre)))"
proof -
  have "control_run es (Serving (s, h)) = Exited 0 \<longleftrightarrow> shut_down False es" using control_run_shut_down [of h s es] assms by simp
  then show ?thesis
    by (metis shut_down_append shut_down_split)
qed

lemma failed_poll_terminates:
  assumes "server_thread h" and "\<not> srv_ending s" and "\<not> fst i" and "poll_failed i"
  shows "control_run (Turn i # es) (Serving (s, h)) = Terminated"
  using control_head_cases(2) [OF assms(2), of i h] assms
  by (auto simp: control_run_def control_finish_def ended_run ended_def)

text \<open>The serving worker has no thread of its own.\<close>

lemma serving_worker_exits:
  "serving_run es (Serving c) = Exited 0 \<longleftrightarrow>
     (\<exists>pre i post. es = pre @ Turn i # post \<and> (\<forall>sig pid. Signal sig pid \<in> set pre \<longrightarrow> sig \<in> {SIGINT, SIGCHLD}) \<and>
        (sv_ending (fst c) \<or> fst i \<or> (\<exists>pid. Signal SIGINT pid \<in> set pre)))"
  unfolding serving_run_def serving_life.ends_in_order graceful_def server_dispositions by simp

theorem process_exec_exits_witness:
  "process_exec_life demo_cxxopts map_s3 0 None (\<lambda>ip port. True) ''c''
     (''process_exec'' # concat (map render [Valued ''process-id'' ''p'', Valued ''control-plane-address'' ''10.0.0.1:8000'',
        Valued ''hole-puncher-address'' ''h'']))
     [] [Turn \<lparr>t_ending = False, t_size = -1, t_data = [], t_env = good_env, t_pid = 7\<rparr>, Signal SIGINT 0,
         Turn \<lparr>t_ending = False, t_size = -1, t_data = [], t_env = good_env, t_pid = 7\<rparr>] Map.empty empty_os = Exited 0"
  (is "process_exec_life _ _ _ _ _ _ ?argv _ ?es _ _ = _")
proof -
  let ?args = "[Valued ''process-id'' ''p'', Valued ''control-plane-address'' ''10.0.0.1:8000'', Valued ''hole-puncher-address'' ''h'']"
  have "cx_parse demo_cxxopts process_specs ?argv =
      Some (foldl (set_option process_specs) (option_defaults process_specs) ?args)"
    by (intro cx_parse_args [OF demo_cxxopts_ok, where prog = "''process_exec''"])
      (simp_all add: specs_defs names_ok plain_arg_def)
  then have "process_opts demo_cxxopts ?argv \<noteq> None"
    by (simp add: process_opts_def specs_defs option_defaults_def) (simp add: demo_cxxopts_def)
  then have p: "\<exists>p. process_exec demo_cxxopts 0 None (\<lambda>ip port. True) ?argv = Some (Some p)"
    by (auto simp: process_exec_def process_exec_main_def case_prod_beta Process_create_def Process_connect_def Let_def
        S3Swapper_enable_swapping_def)
  let ?t = "\<lparr>t_ending = False, t_size = -1, t_data = [], t_env = good_env, t_pid = 7\<rparr>"
  have "\<exists>pre i post. ?es = pre @ Turn i # post \<and> (\<forall>sig pid. Signal sig pid \<in> set pre \<longrightarrow> sig \<in> {SIGINT, SIGCHLD}) \<and>
      (t_ending i \<or> t_size i = 0 \<or> (\<exists>pid. Signal SIGINT pid \<in> set pre))"
    by (intro exI [of _ "[Turn ?t, Signal SIGINT 0]"] exI [of _ ?t] exI [of _ "[]"]) auto
  with p show ?thesis by (subst process_exec_exits) simp
qed

text \<open>
  The local memory service survives interrupts while it starts, but forgets them. A session has no handler
  for the interrupt: it is killed, and so is it by a bus error of its memory.
\<close>

lemma local_memory_forgets_interrupts:
  "program_run (local_memory_signals (\<lambda>_. SIG_DFL)) (local_memory_signal_handler lm_shutdown) child turn finish
     (map (\<lambda>(sig, pid). Signal sig pid) early) Starting = Starting \<longleftrightarrow> (\<forall>(sig, pid) \<in> set early. sig \<in> {SIGINT, SIGCHLD})"
proof -
  let ?run = "program_run (local_memory_signals (\<lambda>_. SIG_DFL)) (local_memory_signal_handler lm_shutdown) child turn finish"
  have d: "local_memory_signals (\<lambda>_. SIG_DFL) SIGSEGV = Crash_Handler" "local_memory_signals (\<lambda>_. SIG_DFL) SIGTERM = Crash_Handler"
      "local_memory_signals (\<lambda>_. SIG_DFL) SIGPIPE = Crash_Handler" "local_memory_signals (\<lambda>_. SIG_DFL) SIGBUS = SIG_DFL"
      "local_memory_signals (\<lambda>_. SIG_DFL) SIGINT = Interrupt_Handler" "local_memory_signals (\<lambda>_. SIG_DFL) SIGCHLD = SIG_DFL"
    by (simp_all add: local_memory_signals_def sigaction_def)
  have stay: "?run (map (\<lambda>(sig, pid). Signal sig pid) xs) (Exited 1) = Exited 1"
      "?run (map (\<lambda>(sig, pid). Signal sig pid) xs) (Killed sg) = Killed sg" for xs sg
    by (induction xs) (auto simp: crash_handler_def local_memory_signal_handler_def [where pr = "Exited 1"]
        local_memory_signal_handler_def [where pr = "Killed sg"] split: action.splits)
  show ?thesis
  proof (induction early)
    case (Cons x xs)
    obtain sig pid where x: "x = (sig, pid)" by (cases x)
    show ?case
      using Cons.IH stay
      by (cases sig) (auto simp: x d crash_handler_def
          local_memory_signal_handler_def [where pr = Starting])
  qed simp
qed

lemma session_signal_effect:
  "program_event (session_signals (\<lambda>_. SIG_DFL)) h child turn finish (Signal sig pid) (Serving s) =
     (if sig = SIGCHLD then Serving s else if sig \<in> {SIGINT, SIGBUS} then Killed sig else Exited 1)"
  by (cases sig) (simp_all add: session_signals_def sigaction_def crash_handler_def)

section \<open>The local worker\<close>

text \<open>
  The local worker, once it serves: its loop, the codes it sent, and the slots whose thread was joined. \<open>shutdown\<close> joins
  the thread of every process; joining a thread a second time throws, and nobody catches it. The destructor
  deletes the threads, which terminates the program when one was never joined. A turn that ends the loop is one during
  which the handler of the interrupt ran and joined the threads.
\<close>

record local_life =
  ll_worker :: local_worker
  ll_codes :: "i32 option list"
  ll_joined :: "nat set"

definition running_slots :: "local_worker \<Rightarrow> nat set" where
  "running_slots s = {i. i < length (lw_processes s) \<and> lw_processes s ! i \<noteq> None}"

definition local_signal_handler :: "local_life program \<Rightarrow> local_life program" where
  "local_signal_handler pr =
     (case pr of
        Starting \<Rightarrow> Assertion_Failed
      | Serving l \<Rightarrow>
          if running_slots (ll_worker l) \<inter> ll_joined l \<noteq> {} then Terminated
          else Serving (l\<lparr>ll_worker := local_worker_shutdown (ll_worker l), ll_joined := ll_joined l \<union> running_slots (ll_worker l)\<rparr>)
      | _ \<Rightarrow> pr)"

definition local_life_head :: "lw_in \<Rightarrow> local_life \<Rightarrow> local_life loop_result" where
  "local_life_head i l =
     (case local_worker_head i (ll_worker l, ll_codes l) of
        Break (s, rs) \<Rightarrow>
          Break (l\<lparr>ll_worker := s, ll_codes := rs,
            ll_joined := (if lw_ending (ll_worker l) then ll_joined l else ll_joined l \<union> running_slots s)\<rparr>)
      | Continue (s, rs) \<Rightarrow> Continue (l\<lparr>ll_worker := s, ll_codes := rs\<rparr>))"

definition local_finish :: "local_life \<Rightarrow> local_life program" where
  "local_finish l =
     (if \<exists>i < length (lw_threads (ll_worker l)). lw_threads (ll_worker l) ! i \<and> i \<notin> ll_joined l then Terminated else Exited 0)"

definition local_run :: "(int \<Rightarrow> local_life \<Rightarrow> local_life) \<Rightarrow> lw_in event list \<Rightarrow> local_life program \<Rightarrow> local_life program" where
  "local_run child es pr =
     program_run (Process_signals (server_signals (\<lambda>_. SIG_DFL))) local_signal_handler child local_life_head local_finish es pr"

text \<open>Threads are those of the processes: an invariant of the loop.\<close>

definition threads_match :: "local_worker \<Rightarrow> bool" where
  "threads_match s \<longleftrightarrow> length (lw_threads s) = length (lw_processes s) \<and>
     (\<forall>i < length (lw_processes s). lw_threads s ! i \<longrightarrow> lw_processes s ! i \<noteq> None)"

lemma threads_match_init: "threads_match (local_worker_init n hp sw)"
  by (simp add: threads_match_def local_worker_init_def)

lemma threads_match_turn:
  assumes "threads_match s" and "local_worker_turn inp s = Continue (s', r)"
  shows "threads_match s'"
  using assms find_pos_le [of "\<lambda>x. x = None" "lw_processes s"]
  by (auto simp: local_worker_turn_def threads_match_def Let_def nth_list_update le_less split: if_splits option.splits)

lemma interrupt_dispositions:
  "Process_signals (server_signals (\<lambda>_. SIG_DFL)) SIGINT = Interrupt_Handler"
  by (simp add: Process_signals_def server_signals_def sigaction_def)

lemma first_interrupt_ends:
  assumes "threads_match (ll_worker l)" and "ll_joined l = {}"
  shows "local_run child [Signal SIGINT pid, Turn i] (Serving l) = Exited 0"
  using assms
  by (auto simp: local_run_def interrupt_dispositions local_signal_handler_def local_life_head_def local_worker_head_def
      local_worker_shutdown_def local_finish_def threads_match_def running_slots_def)

lemma second_interrupt_terminates:
  assumes "ll_joined l = {}" and "running_slots (ll_worker l) \<noteq> {}"
  shows "local_run child [Signal SIGINT pid, Signal SIGINT pid'] (Serving l) = Terminated"
proof -
  have "running_slots (local_worker_shutdown s) = running_slots s" for s
    by (auto simp: running_slots_def local_worker_shutdown_def)
  with assms show ?thesis
    by (auto simp: local_run_def interrupt_dispositions local_signal_handler_def)
qed

end
