(* ===== verification/Spec2Isabelle.thy ===== *)
theory Spec2Isabelle
  imports Cluster_Progress Client_Races Signals
begin

text \<open>
  A verification development for PraaS, a platform that runs stateful functions in processes.

  \<^bold>\<open>The system.\<close> Clients talk to the control plane (\<open>src/system/control-plane\<close>) over HTTP. It keeps
  tables of processes and sessions, stores what must survive in Redis, and asks a worker for new
  processes: the local worker (\<open>src/system/local-worker\<close>) runs them as threads, the serving worker
  (\<open>src/system/praas-serving\<close>) executes the program \<open>process_exec\<close>. A process
  (\<open>src/runtime/lib/process.cpp\<close>) connects to the control plane, is sent requests for sessions,
  creates the shared memory of each and forks the session program; when a session ends, its memory
  may be swapped to S3 and the control plane is told. A session (\<open>src/runtime/lib/session.cpp\<close>,
  \<open>function.cpp\<close>) receives invocations, runs functions of the user on a pool of threads and sends
  their results back. Beside that, a local memory service (\<open>src/runtime/local-memory\<close>) keeps
  objects for sessions.

  \<^bold>\<open>Theories and what they model.\<close>
  \<^item> \<open>Prelude\<close>: bytes, little-endian words, \<open>strncpy\<close>, \<open>std::to_string\<close>, \<open>std::from_chars\<close>, the
    repeated helper \<open>split\<close>, heaps with \<open>new\<close> and \<open>delete\<close>, loop results; the collections \<open>wire\<close>
    and \<open>decimal\<close>.
  \<^item> \<open>Interfaces\<close>: the contracts as locales: a field of a packet (\<open>wire_field\<close>), a codec of
    fixed-size messages (\<open>frame_codec\<close>), an array of slots of which the first free one is taken
    (\<open>slot_array\<close>), a keyed store (\<open>object_store\<close>), a machine with an invariant
    (\<open>invariant_machine\<close>). Each is interpreted on the definitions of the components below.
  \<^item> \<open>Common_Messages\<close>: \<open>src/system/common/messages.cpp\<close>, the packets of the control plane.
  \<^item> \<open>Runtime_Messages\<close>: \<open>src/runtime/lib/messages.cpp\<close>, the other end of these connections, and
    the replies to clients.
  \<^item> \<open>Buffer_Queue\<close>: \<open>buffer.hpp\<close>, the queue of payload buffers over an explicit heap, and the pool
    of a session as a step relation.
  \<^item> \<open>Shared_Memory\<close>: \<open>swapper.cpp\<close>, \<open>SharedMemory\<close> and \<open>SessionFork\<close> of \<open>session.cpp\<close>, over a
    store of named segments and mappings.
  \<^item> \<open>Process_Runtime\<close>: \<open>process.cpp\<close>; the request loop and the exits of children interleaved.
  \<^item> \<open>Session_Runtime\<close>: functions library, workers, output channel and \<open>Session\<close>. The result of every \<open>::send\<close> is an
    input. \<open>session_loop\<close> is the thread that receives, and queues the invocations; the threads that run them are
    the steps of \<open>session_step\<close>, and of \<open>quiet_step\<close> where the contents of the memory matter.
  \<^item> \<open>Session_Memory\<close>: the functions of \<open>src/examples/example.cpp\<close>, and the memory of a session seen
    by its process and by its functions (locale \<open>shared_view\<close>, interpreted on the mappings).
  \<^item> \<open>Resources\<close>, \<open>Control_Worker\<close>, \<open>Control_Server\<close>: the tables, the handlers and HTTP routes, the
    event loop with its tasks as a step relation.
  \<^item> \<open>Local_Memory\<close>, \<open>Memory_Server\<close>: messages, cache, worker and client of the memory service; its
    connections and event loop, with one step for every access to a \<open>busy\<close> flag.
  \<^item> \<open>Worker_Servers\<close>: the local worker, the serving worker and the core of \<open>process_exec\<close>.
  \<^item> \<open>Startup\<close>: the options of every program and its \<open>main\<close>.
  \<^item> \<open>Handler_Effects\<close>, \<open>Cluster\<close>, \<open>Cluster_Progress\<close>: the control plane with any number of processes, and the bytes under
    way between them in both directions, as one step relation over the handlers of both sides.
  \<^item> \<open>Client_Threads\<close>, \<open>Client_Races\<close>: client requests and closures of sessions at the granularity of single
    commands of Redis and regions under the lock, with commands that fail before or after
    the database executed them. Any number of requests may be under way at once; the program handles them on one
    thread, so its runs are among these.
  \<^item> \<open>Service_Loops\<close>: the \<open>while\<close> loops of the process, the session, the control plane and the two
    workers over endless inputs (locale \<open>service_loop\<close>, interpreted on each).
  \<^item> \<open>Child_Exits\<close>: the local worker with several processes in one program, the static pointer to the
    process, the signal for the exit of a child and the threads of its handler, as a step relation.
  \<^item> \<open>Signals\<close>: the signal handlers of every \<open>main\<close>, and the life of a program until it ends
    (locale \<open>interruptible\<close>, interpreted on \<open>process_exec\<close> and the serving worker); for the control plane and the
    local worker with the threads that have to be joined before the program may end.
  \<^item> This theory: properties that span several programs.

  \<^bold>\<open>How code becomes definitions.\<close> A struct is a record, an enum a datatype with a function to its
  codes, an \<open>int16_t\<close> or \<open>int32_t\<close> a word of that width, a packet a list of bytes into which fields are
  written at the source's offsets. A handler is a function from the state to the new state and what
  was written; calls of the system are inputs (what \<open>read\<close> delivered, whether \<open>mmap\<close> or
  \<open>epoll_ctl\<close> succeeded, what \<open>vfork\<close> returned, the contents of uninitialised memory), so that a
  theorem holds for all of them. A function that throws or dereferences a null pointer has a value of
  its own in a sum or option type. Concurrency is a step relation whose steps are the handlers that
  the source protects by a lock or runs on one thread; where a handler is longer than that, \<open>Client_Threads\<close> splits it. Libraries that are not part of the sources are
  parameters with named laws: Redis (\<open>redis_ok\<close>), S3 (\<open>s3_ok\<close>), cxxopts (\<open>cxxopts_ok\<close>), the order of
  a hash map (\<open>hash_order\<close>), JSON and multipart parsing, \<open>dlopen\<close> and the functions of the user. Each law
  is shown to be satisfiable by a concrete instance that the witnesses use.

  \<^bold>\<open>What is shown.\<close>
  \<^item> Every packet is read at the other end as it was written, for streams of packets too, and fills
    never leave the packet; where a field is narrower than its value, exactly which values survive.
  \<^item> Invariants of reachable states: the capacity of processes in both tables, ownership of buffers,
    distinct session identifiers, the exclusive use of a connection of the memory service. Across the
    programs: a session is in one process only and where the control plane has it, the control plane
    asks no process for what it refuses, and the database stays readable. Between the threads of the control
    plane: in every interleaving of requests and closures a session is in one place at most, and, while Redis
    answers, a session that was given to a client is never lost.
  \<^item> Progress and termination: the control plane and its processes can always handle all messages under
    way; exactly when the loops of a process and of a session return, and when \<open>process_exec\<close> and the control
    plane end with code 0.
  \<^item> Functional specifications of the handlers on every branch: allocation of a session, the answer to
    a client, what a connecting process or session is sent, the codes with which the loop of a process answers a
    sequence of requests, exit of a child, the replies of the memory service, the codes of the local worker.
  \<^item> Refinement: a session uses its buffers as the abstract pool, the cache is the abstract store; the steps of a
    request are \<open>process_client\<close>, which the other theories use as one step.
  \<^item> End to end: a process started for a new session gets exactly that session's request; a session
    program maps the memory its process created; a process connects to the address the control plane
    was started with; the answer to an invocation is read back by the documented interpretation; what
    functions store in the memory of a session is what later ones read and what is swapped to S3.
  \<^item> The places where the code does not do what it means to, each as a theorem about a reachable
    state or an exact condition, among them a session lost when Redis fails in the middle of a swap-in, a
    session locked by a closure that overtakes its request, exits of children that are never handled, memory that is
    swapped out under another key than it is looked up under, and a connection of the memory service
    that starves because of the order in which a task is pushed and a flag is set.

  \<^bold>\<open>Bounds.\<close> Loops run over the list of what happens (turns, polls, messages), so they are total and the
  theorems quantify over all such lists. In \<open>Service_Loops\<close> they run over endless sequences and are
  partial functions whose value \<open>None\<close> is a loop that never returns; that they return is proved as such. \<open>read_replies\<close> has a bound on the number of messages; any
  bound above the number of payloads is enough, as its theorem states. Numbers printed and parsed
  are bounded only by their width.

  \<^bold>\<open>Not modelled.\<close> Logging, time-outs and the printed backtraces; the crow server with TLS and the
  texts of its replies; connection pairing by the hole puncher; a function of the
  user that stores elsewhere than at the beginning of the shared memory; the memory model below the
  granularity of handlers or, in \<open>Client_Threads\<close>, of single commands; failures of Redis outside
  \<open>Client_Threads\<close>; what a thread pool does with an exception of a task; destructors at the end of a program, but for
  the threads they destroy; operations without a caller, such as moving a process object; a function of the user that
  looks at the results of its sends; containers and build files. Three simplifications remain: overflow
  of \<open>int32_t\<close>, which C++ leaves undefined, wraps around; a mapping refers to its shared memory object
  by name, so that its contents are not followed after the object was unlinked; and the heap never gives an
  address out again.
\<close>

section \<open>From a client request to the session request of a new process\<close>

text \<open>What the control plane writes and stores when it starts a process for a new session.\<close>

lemma new_process_request:
  assumes "res_inv (resources c)" and "hash_order place"
    and "backend c = Some b" and "backend_connection b = Some hb" and "length (backend_req b) = Request_EXPECTED_LENGTH"
    and "get_session sid (resources c) = None"
    and "allocate_new_process place junk uuid pid sid mf ms sw alloc c = Inr c1"
  obtains p s where "io c1 = io c @ [Write hb (snd (ProcessRequest_fill max_sessions_per_process (controller_port b)
        (controller_ip_address b) (take 16 uuid) (backend_req b)))]"
    and "get_process (take 16 uuid) (resources c1) = Some p" and "proc_sessions p = [sid]" and "connection p = None"
    and "get_session sid (resources c1) = Some s" and "session_id s = sid" and "max_functions s = mf"
    and "ses_memory_size s = ms" and "\<not> allocated s"
proof -
  let ?p = "(CProcess_init max_sessions_per_process)\<lparr>cp_process_id := take 16 uuid, global_process_id := pid,
      allocated_sessions := 1\<rparr>"
  have "distinct (map fst (processes (resources c)))" using assms(1) by (simp add: res_inv_def)
  note ap = add_process_simps [OF assms(2) this, where p = ?p]
  obtain ref r where r: "add_process place ?p (resources c) = (ref, r)" by fastforce
  define req where "req = snd (ProcessRequest_fill max_sessions_per_process (controller_port b)
      (controller_ip_address b) (take 16 uuid) (backend_req b))"
  have len: "length req = 39" using assms(5) by (simp add: req_def length_ProcessRequest_fill Request_EXPECTED_LENGTH_def)
  have fill: "ProcessRequest_fill max_sessions_per_process (controller_port b) (controller_ip_address b)
      (take 16 uuid) (backend_req b) = (39, req)"
    by (metis req_def fst_fill(1) prod.collapse Request_EXPECTED_LENGTH_def)
  from r have r_eq: "ref = fst (add_process place ?p (resources c))" "r = snd (add_process place ?p (resources c))"
    by simp_all
  have ref: "ref = take 16 uuid" and none: "sessions_map r sid = None"
    using assms(6) by (simp_all add: r_eq ap)
  obtain q where q: "get_process (take 16 uuid) r = Some q" "proc_sessions q = []" "connection q = None"
    using ap(4) [of "take 16 uuid"] unfolding r_eq(2) by (simp add: CProcess_init_def)
  obtain s' rr where ss: "setup_session junk ref sid mf ms sw alloc r = (s', rr)" by fastforce
  let ?s = "(Session_init junk sid)\<lparr>max_functions := mf, ses_memory_size := ms, swap_in := sw,
      allocations := (if function_name alloc \<noteq> '''' then [alloc] else [])\<rparr>"
  have "rr = snd (setup_session junk ref sid mf ms sw alloc r)" by (simp add: ss)
  then have rr: "get_process (take 16 uuid) rr = Some (q\<lparr>proc_sessions := [sid]\<rparr>)" "get_session sid rr = Some ?s"
    using q none by (simp_all add: setup_session_def add_session_def Let_def ref update_session_def Session_init_def)
  have "c1 = sock_write (Some hb) req (c\<lparr>resources := rr, backend := Some (b\<lparr>backend_req := req\<rparr>)\<rparr>)"
    using assms(3,4,7) len
    by (simp add: allocate_new_process_def Let_def r ss LocalBackend_allocate_process_def fill)
  then have "io c1 = io c @ [Write hb req]" "resources c1 = rr" by (simp_all add: sock_write_def)
  with rr q that [of "q\<lparr>proc_sessions := [sid]\<rparr>" ?s] show ?thesis unfolding req_def by (simp add: Session_init_def)
qed

lemma identification_parsed:
  assumes "id16 pid"
  obtains buf where "Header_parse (fill_process_identification pid SendMessage_init) = Some (ProcessMessage buf)"
    and "ProcessMessage_process_id buf = pid"
proof -
  have "note_decode (note_encode (Identify_Process pid)) = Some (Identify_Process pid)"
    using assms by (simp add: note_decode_encode del: note_encode.simps)
  then show ?thesis
    using that by (auto simp: note_decode_def split: option.splits message.splits if_splits)
qed

text \<open>
  C11: the three programs agree on how a process is started for a new session. The control plane
  writes one request to the local worker; the local worker, reading it with an empty slot and
  reaching the control plane, starts a process with the limit of 4 sessions; the first message of
  that process is parsed by the control plane as the identification of the process it created; and
  the control plane answers with exactly one request, which the process decodes as the session the
  client asked for with its two limits.
\<close>

theorem new_process_gets_session:
  assumes "res_inv (resources c)" and "hash_order place"
    and "backend c = Some b" and "backend_connection b = Some hb" and "length (backend_req b) = Request_EXPECTED_LENGTH"
    and "id16 (take 16 uuid)" and "id16 sid" and "get_session sid (resources c) = None"
    and "allocate_new_process place junk uuid pid sid mf ms sw alloc c = Inr c1"
    and "\<not> li_ending inp" and "li_n inp = int (length (li_data inp))" and "li_accepted inp"
    and "None \<in> set (lw_processes lw)" and "io c1 = io c @ [Write hb (li_data inp)]"
  shows "\<exists>lw' p ident buf c2 msg. local_worker_turn inp lw = Continue (lw', Some 0) \<and>
    Some p \<in> set (lw_processes lw') \<and> max_sessions p = 4 \<and>
    hd (snd (snd (Process_start api st peer ts p os))) = ident \<and> Header_parse ident = Some (ProcessMessage buf) \<and>
    process_process True conn buf c1 = Inr c2 \<and> io c2 = io c1 @ [Write conn msg] \<and>
    session_request_decode msg = Some (sid, mf, ms)"
proof -
  let ?k = "take 16 uuid"
  obtain cp s where new: "io c1 = io c @ [Write hb (snd (ProcessRequest_fill max_sessions_per_process (controller_port b)
        (controller_ip_address b) ?k (backend_req b)))]"
    "get_process ?k (resources c1) = Some cp" "proc_sessions cp = [sid]" "connection cp = None"
    "get_session sid (resources c1) = Some s" "session_id s = sid" "max_functions s = mf"
    "ses_memory_size s = ms" "\<not> allocated s"
    using new_process_request [OF assms(1-5,8,9)] by blast
  with assms(14) have req: "li_data inp = snd (ProcessRequest_fill max_sessions_per_process (controller_port b)
        (controller_ip_address b) ?k (backend_req b))" by simp
  then have n: "li_n inp = int Request_EXPECTED_LENGTH"
    using assms(5,11) by (simp add: length_ProcessRequest_fill Request_EXPECTED_LENGTH_def)
  obtain p i where i: "i < length (lw_processes lw)"
    and p: "process_id p = ?k" "max_sessions p = max_sessions_per_process" "socket_open p"
    and turn: "local_worker_turn inp lw = Continue (lw\<lparr>lw_processes := (lw_processes lw)[i := Some p],
           lw_threads := (lw_threads lw)[i := True]\<rparr>, Some 0)"
    using local_worker_starts [OF assms(10) n assms(13,12)] process_request_fields [OF assms(5)] assms(6)
    unfolding req by metis
  obtain buf where buf: "Header_parse (fill_process_identification ?k SendMessage_init) = Some (ProcessMessage buf)"
    "ProcessMessage_process_id buf = ?k"
    using identification_parsed [OF assms(6)] by blast
  have "hd (snd (snd (Process_start api st peer ts p os))) = fill_process_identification ?k SendMessage_init"
    using p by (simp add: Process_start_def case_prod_beta Let_def)
  moreover obtain c2 where "process_process True conn buf c1 = Inr c2"
    "io c2 = io c1 @ [Write conn (session_request_encode (sid, mf, ms))]"
    using connecting_process_gets_requests_lemma [of buf c1 cp conn] buf(2) new
    by (auto simp: unallocated_def session_msg_def simp del: session_request_encode.simps)
  moreover have "session_request_decode (session_request_encode (sid, mf, ms)) = Some (sid, mf, ms)"
    using assms(7) by (simp add: session_request_decode_encode del: session_request_encode.simps)
  moreover have "Some p \<in> set ((lw_processes lw)[i := Some p])" using i by (simp add: set_update_memI)
  moreover have "max_sessions p = 4" using p by (simp add: max_sessions_per_process_def)
  ultimately show ?thesis using turn buf(1)
    by (intro exI [of _ "lw\<lparr>lw_processes := (lw_processes lw)[i := Some p], lw_threads := (lw_threads lw)[i := True]\<rparr>"]
        exI [of _ p] exI [of _ "fill_process_identification ?k SendMessage_init"] exI [of _ buf] exI [of _ c2]
        exI [of _ "session_request_encode (sid, mf, ms)"]) (simp del: session_request_encode.simps)
qed

theorem new_process_gets_session_witness:
  "\<exists>(c1 :: unit control) c2 buf msg.
     allocate_new_process (#) (0, 0, False) ''fedcba9876543210-9'' ''p'' ''0123456789abcdef'' 2 64 False
       \<lparr>payload = '''', function_name = '''', function_id = ''''\<rparr>
       \<lparr>redis_st = (), resources = Resources_init, backend = Some \<lparr>controller_ip_address = ''10.0.0.1'',
          controller_port = 8000, backend_connection = Some 3, backend_req = Request_init\<rparr>, io = [], epoll = Map.empty\<rparr> = Inr c1 \<and>
     process_process True 7 buf c1 = Inr c2 \<and> io c2 = io c1 @ [Write 7 msg] \<and>
     session_request_decode msg = Some (''0123456789abcdef'', 2, 64)"
proof -
  let ?b = "\<lparr>controller_ip_address = ''10.0.0.1'', controller_port = 8000, backend_connection = Some 3,
      backend_req = Request_init\<rparr>"
  let ?c = "\<lparr>redis_st = (), resources = Resources_init, backend = Some ?b, io = [], epoll = Map.empty\<rparr>"
  let ?a = "\<lparr>payload = '''', function_name = '''', function_id = ''''\<rparr>"
  let ?u = "''fedcba9876543210-9''" and ?sid = "''0123456789abcdef''"
  have pre: "res_inv (resources ?c)" "hash_order (#)" "backend ?c = Some ?b" "backend_connection ?b = Some 3"
    "length (backend_req ?b) = Request_EXPECTED_LENGTH" "id16 (take 16 ?u)" "id16 ?sid"
    "get_session ?sid (resources ?c) = None"
    by (simp_all add: Request_EXPECTED_LENGTH_def id16_def Resources_init_def res_inv_def)
  obtain c1 where c1: "allocate_new_process (#) (0, 0, False) ?u ''p'' ?sid 2 64 False ?a ?c = Inr c1"
    by (simp add: allocate_new_process_def LocalBackend_allocate_process_def Let_def case_prod_beta)
  obtain d where d: "io c1 = io ?c @ [Write 3 d]"
    using new_process_request [OF pre(1-5,8) c1] by blast
  let ?i = "\<lparr>li_ending = False, li_n = int (length d), li_data = d, li_bucket = None, li_accepted = True\<rparr>"
  have "\<not> li_ending ?i" "li_n ?i = int (length (li_data ?i))" "li_accepted ?i"
    "None \<in> set (lw_processes (local_worker_init 1 ''h'' False))" "io c1 = io ?c @ [Write 3 (li_data ?i)]"
    using d by (simp_all add: local_worker_init_def)
  from new_process_gets_session [OF pre c1 this, where conn = 7
      and api = undefined and st = "()" and peer = "[]" and ts = "[]" and os = undefined] c1 show ?thesis by blast
qed

section \<open>From the options of the control plane to the connection of a process\<close>

lemma c_str_padded: "NUL \<notin> set s \<Longrightarrow> c_str (padded n s) = s"
  by (cases "n - length s") (auto simp: c_str_def padded_def takeWhile_append)

lemma serving_takes_request:
  assumes "None \<in> set (sv_processes sv)" and "length req = Request_EXPECTED_LENGTH"
  shows "\<exists>sv' i. serving_turn False (int (length req)) req sv = Continue (sv', Some 0, Some (i, req))"
proof -
  have "find_pos (\<lambda>x. x = None) (sv_processes sv) \<noteq> length (sv_processes sv)"
    using assms(1) find_pos_full [of "\<lambda>x. x = None" "sv_processes sv"] by blast
  then show ?thesis using assms(2) by (simp add: serving_turn_def Let_def Request_EXPECTED_LENGTH_def)
qed

text \<open>
  C12: a process started through the serving worker connects to the control plane that asked for
  it. When the control plane was started with a local backend and asks for a process, the serving
  worker accepts the bytes it writes if a slot is empty, and the \<open>process_exec\<close> it executes
  for them connects to the address and port the control plane was started with, carries the
  identifier the control plane chose and has the session limit it asked for. Swapping is enabled
  whatever the serving worker was started with.
\<close>

theorem control_address_reaches_process:
  assumes "cxxopts_ok cx" and "control_opts cx argv = Parsed opts" and "co_ip_address opts = ip"
    and "control_main cx bconnect bjunk rs argv = Parsed srv" and "backend (control srv) = Some b"
    and "length ip \<le> 15" and "NUL \<notin> set ip" and "CHR '':'' \<notin> set ip" and "plain_arg ip"
    and "id16 k" and "plain_arg k" and "0 \<le> sint n" and "plain_arg (c_str hp)"
    and "None \<in> set (sv_processes sv)"
  shows "\<exists>c' h req sv' i. LocalBackend_allocate_process k n (control srv) = Inr c' \<and>
    io c' = [Write h req] \<and> serving_turn False (int (length req)) req sv = Continue (sv', Some 0, Some (i, req)) \<and>
    process_exec cx junk bucket connect (subprocess_args req hp sw) =
      Some (Process_create bucket (connect ip (co_port opts)) k (c_str hp) n True)"
proof -
  let ?req = "snd (ProcessRequest_fill n (co_port opts) ip k Request_init)"
  have len: "length Request_init = Request_EXPECTED_LENGTH" by (simp add: Request_EXPECTED_LENGTH_def)
  have srv: "control srv = \<lparr>redis_st = rs, resources = Resources_init, backend = Some b, io = [], epoll = Map.empty\<rparr>"
    and bc: "Backend_construct bconnect bjunk (co_backend opts) (co_local_server opts) ip (co_port opts) = Some b"
    using assms(2-5) by (auto simp: control_main_def server_init_def)
  then obtain h where b: "backend_connection b = Some h" "backend_req b = Request_init"
    "controller_ip_address b = ip" "controller_port b = co_port opts"
    by (auto simp: Backend_construct_def LocalBackend_create_def Let_def split: if_splits option.splits prod.splits)
  have req: "length ?req = Request_EXPECTED_LENGTH"
    by (simp add: length_ProcessRequest_fill Request_EXPECTED_LENGTH_def)
  have "take (fst (ProcessRequest_fill n (co_port opts) ip k Request_init)) ?req = ?req" using req by simp
  then obtain c' where c': "LocalBackend_allocate_process k n (control srv) = Inr c'" "io c' = [Write h ?req]"
    using b srv by (simp add: LocalBackend_allocate_process_def sock_write_def case_prod_beta Let_def)
  note f = process_request_fields [OF len, where n = n and p = "co_port opts" and ip = ip and pid = k]
  have ip: "ProcessRequest_ip_address ?req = padded 15 ip" "ProcessRequest_process_id ?req = k" "c_str k = k"
    using f(3,4) assms(6,7,10) by (simp_all add: c_str_id id16_def)
  have "CHR '':'' \<notin> set (padded 15 ip)" using assms(8) by (auto simp: padded_def)
  then have "process_exec cx junk bucket connect (subprocess_args ?req hp sw) =
      Some (Process_create bucket (connect ip (co_port opts)) k (c_str hp) n True)"
    using process_exec_parameters [OF assms(1) req, of hp junk bucket connect sw] assms(7,9,11,12,13) ip f(1,2)
    by (simp add: c_str_padded)
  with c' serving_takes_request [OF assms(14) req] show ?thesis by blast
qed

theorem control_address_reaches_process_witness:
  "\<exists>opts (c' :: unit control) h req. control_opts demo_cxxopts [''control-plane'', ''--address'', ''10.0.0.1'', ''--redis'', ''r'',
       ''--backend'', ''local'', ''--local-server'', ''w:1'', ''--ssl-server-cert'', ''c'', ''--ssl-server-key'', ''k''] = Parsed opts \<and>
     io c' = [Write h req] \<and>
     process_exec demo_cxxopts 0 None (\<lambda>ip p. ip = ''10.0.0.1'' \<and> p = co_port opts) (subprocess_args req ''h'' False) =
       Some (Process_create None True ''0123456789abcdef'' ''h'' 4 True)"
proof -
  let ?argv = "[''control-plane'', ''--address'', ''10.0.0.1'', ''--redis'', ''r'', ''--backend'', ''local'',
    ''--local-server'', ''w:1'', ''--ssl-server-cert'', ''c'', ''--ssl-server-key'', ''k'']"
  obtain opts where o: "control_opts demo_cxxopts ?argv = Parsed opts" "co_ip_address opts = ''10.0.0.1''" "co_backend opts = LOCAL"
    by (simp add: control_opts_def demo_cxxopts_def specs_defs option_defaults_def)
  obtain srv where m: "control_main demo_cxxopts (\<lambda>_ _. Some 3) 0 () ?argv = Parsed srv"
    and b: "\<exists>b. backend (control srv) = Some b"
    using o by (simp add: control_main_def server_init_def Backend_construct_def LocalBackend_create_def case_prod_beta)
  from b obtain b where b: "backend (control srv) = Some b" by blast
  have 1: "length ''10.0.0.1'' \<le> 15" "NUL \<notin> set ''10.0.0.1''" "CHR '':'' \<notin> set ''10.0.0.1''" "plain_arg ''10.0.0.1''"
    "id16 ''0123456789abcdef''" "plain_arg ''0123456789abcdef''" "0 \<le> sint (4 :: i16)" "plain_arg (c_str ''h'')"
    "None \<in> set (sv_processes (serving_init 1 ''h'' False False))"
    by (simp_all add: plain_arg_def id16_def c_str_def serving_init_def)
  have h: "c_str ''h'' = ''h''" by (simp add: c_str_def)
  let ?conn = "\<lambda>ip p. ip = ''10.0.0.1'' \<and> p = co_port opts"
  from control_address_reaches_process [OF demo_cxxopts_ok o(1,2) m b 1, of 0 None ?conn False]
  obtain c' :: "unit control" and hc req where "io c' = [Write hc req]" "process_exec demo_cxxopts 0 None ?conn (subprocess_args req ''h'' False) =
      Some (Process_create None True ''0123456789abcdef'' ''h'' 4 True)"
    unfolding h by (elim exE conjE) simp
  with o(1) show ?thesis by (intro exI [of _ opts] exI [of _ c'] exI [of _ hc] exI [of _ req]) simp
qed

end
